(* ===== verification/Prelude.thy ===== *)
theory Prelude
  imports Main "HOL-Library.Word"
begin

text \<open>
  What every component of the development shares: the machine integers of the Rust code,
  the outcome of running a piece of code (a value, a panic, or a loop that was given too
  little fuel), programs as state transformers with their sequencing operators, and the
  arithmetic of \<open>usize\<close>, \<open>u8\<close> and \<open>u64\<close> with the overflow behaviour of both build
  profiles.  The generic lemmas about lists, counting and programs that several
  components need are collected here too.
\<close>

named_theorems prog_simps \<open>unfolding rules of the sequencing operators\<close>
named_theorems rust_arith \<open>the arithmetic of the machine integers\<close>
named_theorems wf_intros \<open>preservation lemmas of the well-formedness invariants\<close>

section \<open>Machine integers\<close>

type_synonym u8 = "8 word"
type_synonym u16 = "16 word"
type_synonym u32 = "32 word"
type_synonym u64 = "64 word"

text \<open>
  A \<open>usize\<close> is kept as a natural number below \<open>2 ^ 64\<close>; the operations of the code that
  could leave that range are the checked ones below.
\<close>

type_synonym usize = nat

type_synonym bytes = "u8 list"

section \<open>Outcomes and programs\<close>

text \<open>
  \<open>Panic\<close> is a Rust panic, which unwinds the running task.  \<open>Diverges\<close> is returned only
  by a loop whose fuel ran out.
\<close>

datatype 'a outcome = Val 'a | Panic | Diverges

fun map_outcome_with :: "('a \<Rightarrow> 'b) \<Rightarrow> 'a outcome \<Rightarrow> 'b outcome" where
  "map_outcome_with f (Val x) = Val (f x)"
| "map_outcome_with f Panic = Panic"
| "map_outcome_with f Diverges = Diverges"

fun bind_outcome :: "'a outcome \<Rightarrow> ('a \<Rightarrow> 'b outcome) \<Rightarrow> 'b outcome" where
  "bind_outcome (Val x) f = f x"
| "bind_outcome Panic f = Panic"
| "bind_outcome Diverges f = Diverges"

lemma bind_outcome_eq_Val [simp]:
  "bind_outcome m f = Val y \<longleftrightarrow> (\<exists>x. m = Val x \<and> f x = Val y)"
  by (cases m) auto

lemma map_outcome_with_eq_Val [simp]:
  "map_outcome_with f m = Val y \<longleftrightarrow> (\<exists>x. m = Val x \<and> y = f x)"
  by (cases m) auto

text \<open>
  A program over a world \<open>'w\<close> returns an outcome and the world it leaves behind; a panic
  keeps the world as it was when the task unwound.
\<close>

type_synonym ('w, 'a) prog = "'w \<Rightarrow> 'a outcome \<times> 'w"

definition ret :: "'a \<Rightarrow> ('w, 'a) prog" where
  "ret x = (\<lambda>w. (Val x, w))"

definition and_then :: "('w, 'a) prog \<Rightarrow> ('a \<Rightarrow> ('w, 'b) prog) \<Rightarrow> ('w, 'b) prog" where
  "and_then m f = (\<lambda>w. case m w of
      (Val x, w') \<Rightarrow> f x w'
    | (Panic, w') \<Rightarrow> (Panic, w')
    | (Diverges, w') \<Rightarrow> (Diverges, w'))"

text \<open>The \<open>?\<close> operator: an error value is the result of the enclosing function.\<close>

definition try_then ::
    "('w, 'e + 'a) prog \<Rightarrow> ('a \<Rightarrow> ('w, 'e + 'b) prog) \<Rightarrow> ('w, 'e + 'b) prog" where
  "try_then m f = and_then m (\<lambda>r. case r of Inl e \<Rightarrow> ret (Inl e) | Inr x \<Rightarrow> f x)"

definition lift_outcome :: "'a outcome \<Rightarrow> ('w, 'a) prog" where
  "lift_outcome m = (\<lambda>w. (m, w))"

definition effect :: "('w \<Rightarrow> 'w) \<Rightarrow> ('w, unit) prog" where
  "effect f = (\<lambda>w. (Val (), f w))"

definition reads :: "('w \<Rightarrow> 'a) \<Rightarrow> ('w, 'a) prog" where
  "reads f = (\<lambda>w. (Val (f w), w))"

lemma ret_apply [simp, prog_simps]: "ret x w = (Val x, w)"
  by (simp add: ret_def)

lemma reads_apply [simp, prog_simps]: "reads f w = (Val (f w), w)"
  by (simp add: reads_def)

lemma effect_apply [simp, prog_simps]: "effect f w = (Val (), f w)"
  by (simp add: effect_def)

lemma lift_outcome_apply [simp, prog_simps]: "lift_outcome m w = (m, w)"
  by (simp add: lift_outcome_def)

lemma and_then_ret [simp]: "and_then (ret x) f = f x"
  by (rule ext) (simp add: and_then_def)

lemma and_then_right_ret [simp]: "and_then m ret = m"
  by (rule ext) (auto simp: and_then_def split: prod.splits outcome.splits)

lemma and_then_assoc: "and_then (and_then m f) g = and_then m (\<lambda>x. and_then (f x) g)"
  by (rule ext) (auto simp: and_then_def split: prod.splits outcome.splits)

lemma and_then_Val [prog_simps]: "m w = (Val x, w') \<Longrightarrow> and_then m f w = f x w'"
  by (simp add: and_then_def)

lemma and_then_reads [simp]: "and_then (reads g) f w = f (g w) w"
  by (simp add: and_then_def)

lemma and_then_effect [simp]: "and_then (effect g) f w = f () (g w)"
  by (simp add: and_then_def)

lemma and_then_eq_Val:
  "and_then m f w = (Val y, w') \<longleftrightarrow> (\<exists>x w1. m w = (Val x, w1) \<and> f x w1 = (Val y, w'))"
  by (auto simp: and_then_def split: prod.splits outcome.splits)

lemma and_then_sum_eq_Val:
  "and_then m (\<lambda>r. case r of Inl e \<Rightarrow> f e | Inr x \<Rightarrow> g x) w = (Val y, w') \<longleftrightarrow>
     (\<exists>e w1. m w = (Val (Inl e), w1) \<and> f e w1 = (Val y, w')) \<or>
     (\<exists>x w1. m w = (Val (Inr x), w1) \<and> g x w1 = (Val y, w'))"
proof
  assume "and_then m (\<lambda>r. case r of Inl e \<Rightarrow> f e | Inr x \<Rightarrow> g x) w = (Val y, w')"
  then obtain r w1 where "m w = (Val r, w1)" "(case r of Inl e \<Rightarrow> f e | Inr x \<Rightarrow> g x) w1 = (Val y, w')"
    unfolding and_then_eq_Val by blast
  then show "(\<exists>e w1. m w = (Val (Inl e), w1) \<and> f e w1 = (Val y, w')) \<or>
     (\<exists>x w1. m w = (Val (Inr x), w1) \<and> g x w1 = (Val y, w'))"
    by (cases r) auto
qed (auto simp: and_then_eq_Val)

lemma try_then_eq_Val:
  "try_then m f w = (Val r, w') \<longleftrightarrow>
     (\<exists>e. m w = (Val (Inl e), w') \<and> r = Inl e) \<or>
     (\<exists>x w1. m w = (Val (Inr x), w1) \<and> f x w1 = (Val r, w'))"
proof -
  have *: "(case s of Inl e \<Rightarrow> ret (Inl e) | Inr x \<Rightarrow> f x) w1 = (Val r, w') \<longleftrightarrow>
     (\<exists>e. s = Inl e \<and> w1 = w' \<and> r = Inl e) \<or> (\<exists>x. s = Inr x \<and> f x w1 = (Val r, w'))" for s w1
    by (cases s) auto
  show ?thesis unfolding try_then_def and_then_eq_Val * by blast
qed

lemma try_then_Inr [prog_simps]: "m w = (Val (Inr x), w') \<Longrightarrow> try_then m f w = f x w'"
  by (simp add: try_then_def and_then_def)

lemma try_then_Inl [prog_simps]:
  "m w = (Val (Inl e), w') \<Longrightarrow> try_then m f w = (Val (Inl e), w')"
  by (simp add: try_then_def and_then_def)

lemmas prog_cases = prod.splits outcome.splits sum.splits option.splits if_splits

text \<open>A program that keeps an invariant of the world, whatever it returns, a panic included.\<close>

definition keeps :: "('w \<Rightarrow> bool) \<Rightarrow> ('w, 'a) prog \<Rightarrow> bool" where
  "keeps I m \<longleftrightarrow> (\<forall>w. I w \<longrightarrow> I (snd (m w)))"

lemma keepsD: "keeps I m \<Longrightarrow> I w \<Longrightarrow> I (snd (m w))"
  by (simp add: keeps_def)

lemma keepsI [intro?]: "(\<And>w. I w \<Longrightarrow> I (snd (m w))) \<Longrightarrow> keeps I m"
  by (simp add: keeps_def)

lemma keeps_ret [simp, wf_intros]: "keeps I (ret x)"
  by (simp add: keeps_def)

lemma keeps_lift_outcome [simp, wf_intros]: "keeps I (lift_outcome r)"
  by (simp add: keeps_def)

lemma keeps_reads [simp, wf_intros]: "keeps I (reads f)"
  by (simp add: keeps_def)

lemma keeps_effect: "(\<And>w. I w \<Longrightarrow> I (f w)) \<Longrightarrow> keeps I (effect f)"
  by (simp add: keeps_def)

lemma keeps_and_then [wf_intros]: "keeps I m \<Longrightarrow> (\<And>x. keeps I (f x)) \<Longrightarrow> keeps I (and_then m f)"
  unfolding keeps_def and_then_def by (auto split: prod.splits outcome.splits; metis snd_conv)

lemma keeps_try_then [wf_intros]: "keeps I m \<Longrightarrow> (\<And>x. keeps I (f x)) \<Longrightarrow> keeps I (try_then m f)"
  unfolding try_then_def by (intro keeps_and_then) (auto split: sum.split)

section \<open>Overflow\<close>

text \<open>
  Rust's \<open>+\<close> and \<open>-\<close> panic on overflow when the crate is built with overflow checks (the
  dev, test and coverage profiles) and wrap around when it is not (the release and bench
  profiles).  The flag \<open>oc\<close> of the definitions says which; nothing in the workspace's
  \<open>Cargo.toml\<close> overrides the defaults.
\<close>

definition usize_max :: nat where
  "usize_max = 2 ^ 64 - 1"

definition usize_sub :: "bool \<Rightarrow> usize \<Rightarrow> usize \<Rightarrow> usize outcome" where
  "usize_sub oc a b = (if b \<le> a then Val (a - b) else if oc then Panic else Val (a + 2 ^ 64 - b))"

definition usize_add :: "bool \<Rightarrow> usize \<Rightarrow> usize \<Rightarrow> usize outcome" where
  "usize_add oc a b =
     (if a + b < 2 ^ 64 then Val (a + b) else if oc then Panic else Val ((a + b) mod 2 ^ 64))"

definition u8_add :: "bool \<Rightarrow> u8 \<Rightarrow> u8 \<Rightarrow> u8 outcome" where
  "u8_add oc a b = (if unat a + unat b < 2 ^ 8 \<or> \<not> oc then Val (a + b) else Panic)"

definition u32_add :: "bool \<Rightarrow> u32 \<Rightarrow> u32 \<Rightarrow> u32 outcome" where
  "u32_add oc a b = (if unat a + unat b < 2 ^ 32 \<or> \<not> oc then Val (a + b) else Panic)"

definition u64_add :: "bool \<Rightarrow> u64 \<Rightarrow> u64 \<Rightarrow> u64 outcome" where
  "u64_add oc a b = (if unat a + unat b < 2 ^ 64 \<or> \<not> oc then Val (a + b) else Panic)"

text \<open>The saturating and checked operations the code calls by name.\<close>

definition u64_max :: u64 where
  "u64_max = 18446744073709551615"

definition u64_saturating_add :: "u64 \<Rightarrow> u64 \<Rightarrow> u64" where
  "u64_saturating_add a b = (if unat a + unat b < 2 ^ 64 then a + b else u64_max)"

definition u64_saturating_mul :: "u64 \<Rightarrow> u64 \<Rightarrow> u64" where
  "u64_saturating_mul a b = (if unat a * unat b < 2 ^ 64 then a * b else u64_max)"

definition u64_checked_shl :: "u64 \<Rightarrow> u32 \<Rightarrow> u64 option" where
  "u64_checked_shl a n = (if unat n < 64 then Some (push_bit (unat n) a) else None)"

text \<open>A program that never runs out of fuel.\<close>

definition ends :: "('w, 'a) prog \<Rightarrow> bool" where
  "ends m \<longleftrightarrow> (\<forall>w. fst (m w) \<noteq> Diverges)"

lemma ends_simps [simp]:
  "ends (ret x)" "ends (reads f)" "ends (effect g)" "ends (lift_outcome (usize_add oc a b))"
  "ends (lift_outcome (usize_sub oc a b))" "ends (lift_outcome (u8_add oc c d))"
  by (auto simp: ends_def usize_add_def usize_sub_def u8_add_def)

lemma ends_and_then: "ends m \<Longrightarrow> (\<And>x. ends (f x)) \<Longrightarrow> ends (and_then m f)"
  unfolding ends_def and_then_def by (auto split: prod.splits outcome.splits; metis fst_conv)

lemma ends_try_then: "ends m \<Longrightarrow> (\<And>x. ends (f x)) \<Longrightarrow> ends (try_then m f)"
  unfolding try_then_def by (rule ends_and_then) (auto simp del: ret_apply split: sum.split)

lemma bind_outcome_ends:
  "bind_outcome m f = Diverges \<longleftrightarrow> m = Diverges \<or> (\<exists>x. m = Val x \<and> f x = Diverges)"
  "map_outcome_with g m = Diverges \<longleftrightarrow> m = Diverges"
  by (cases m; simp)+

lemma ends_lift: "m \<noteq> Diverges \<Longrightarrow> ends (lift_outcome m)"
  by (simp add: ends_def lift_outcome_def)

text \<open>Two continuations that agree wherever the program before them succeeds.\<close>

lemma try_then_cong:
  "(\<And>x w1. m w = (Val (Inr x), w1) \<Longrightarrow> f x w1 = g x w1) \<Longrightarrow> try_then m f w = try_then m g w"
  by (auto simp: try_then_def and_then_def split: prod.splits outcome.splits sum.splits)

lemma usize_sub_ok [simp, rust_arith]: "b \<le> a \<Longrightarrow> usize_sub oc a b = Val (a - b)"
  by (simp add: usize_sub_def)

lemma usize_add_ok [simp, rust_arith]: "a + b < 2 ^ 64 \<Longrightarrow> usize_add oc a b = Val (a + b)"
  by (simp add: usize_add_def)

lemma unat_u64_max [simp]: "unat u64_max = 2 ^ 64 - 1"
  by (simp add: u64_max_def)

lemma unat_u64_saturating_add [rust_arith]:
  "unat (u64_saturating_add a b) = min (unat a + unat b) (2 ^ 64 - 1)"
  by (auto simp: u64_saturating_add_def unat_word_ariths)

lemma unat_u64_saturating_mul [rust_arith]:
  "unat (u64_saturating_mul a b) = min (unat a * unat b) (2 ^ 64 - 1)"
  by (auto simp: u64_saturating_mul_def unat_word_ariths)

lemma unat_u64_less: "unat (a :: u64) < 2 ^ 64"
  using unsigned_less [of a] by simp

lemma unat_push_bit_one_u64 [rust_arith]:
  assumes "n < 64" shows "unat (push_bit n (1 :: u64)) = 2 ^ n"
proof -
  have "unat (push_bit n (1 :: u64)) = (2 ^ n) mod 2 ^ 64"
    by (simp only: unsigned_push_bit_eq) (simp add: Bit_Operations.push_bit_eq_mult take_bit_eq_mod)
  moreover have "(2 :: nat) ^ n < 2 ^ 64"
    by (rule power_strict_increasing [OF assms]) simp
  ultimately show ?thesis by simp
qed

lemma unat_two_power_u64 [rust_arith]: "n < 64 \<Longrightarrow> unat (2 ^ n :: u64) = 2 ^ n"
  using unat_push_bit_one_u64 [of n] by simp

section \<open>Lists\<close>

text \<open>Counting the elements of a list that satisfy a predicate.\<close>

definition count_if :: "('a \<Rightarrow> bool) \<Rightarrow> 'a list \<Rightarrow> nat" where
  "count_if P xs = length (filter P xs)"

lemma count_if_simps [simp]:
  "count_if P [] = 0"
  "count_if P (x # xs) = (if P x then Suc (count_if P xs) else count_if P xs)"
  "count_if P (xs @ ys) = count_if P xs + count_if P ys"
  by (simp_all add: count_if_def)

lemma count_if_update:
  "i < length xs \<Longrightarrow>
     count_if P (xs[i := y]) + (if P (xs ! i) then 1 else 0) = count_if P xs + (if P y then 1 else 0)"
proof (induction xs arbitrary: i)
  case Nil
  then show ?case by simp
next
  case (Cons x xs)
  then show ?case by (cases i) (auto split: if_splits)
qed

lemma count_if_le_length: "count_if P xs \<le> length xs"
  by (simp add: count_if_def)

lemma count_if_zero: "count_if P xs = 0 \<longleftrightarrow> (\<forall>x \<in> set xs. \<not> P x)"
  by (induction xs) auto

lemma count_if_pos: "x \<in> set xs \<Longrightarrow> P x \<Longrightarrow> 0 < count_if P xs"
  by (induction xs) auto

lemma count_if_nth_pos: "i < length xs \<Longrightarrow> P (xs ! i) \<Longrightarrow> 0 < count_if P xs"
  by (rule count_if_pos [of "xs ! i"]) auto

lemma count_if_mono: "(\<And>x. P x \<Longrightarrow> Q x) \<Longrightarrow> count_if P xs \<le> count_if Q xs"
  by (induction xs) auto

lemma count_if_pointwise:
  "length xs = length ys \<Longrightarrow> (\<And>i. i < length ys \<Longrightarrow> P (xs ! i) \<Longrightarrow> Q (ys ! i)) \<Longrightarrow> count_if P xs \<le> count_if Q ys"
proof (induction xs ys rule: list_induct2)
  case (Cons x xs y ys)
  from Cons.prems [of 0] Cons.prems [of "Suc i" for i] Cons.IH show ?case by auto
qed simp

section \<open>Transition systems\<close>

inductive reachable :: "('s \<Rightarrow> bool) \<Rightarrow> ('s \<Rightarrow> 's \<Rightarrow> bool) \<Rightarrow> 's \<Rightarrow> bool" for init step where
  reachable_init: "init s \<Longrightarrow> reachable init step s"
| reachable_step: "reachable init step s \<Longrightarrow> step s s' \<Longrightarrow> reachable init step s'"

text \<open>An invariant of a system: it holds at the start and every step keeps it.\<close>

locale invariant_system =
  fixes init :: "'s \<Rightarrow> bool"
    and step :: "'s \<Rightarrow> 's \<Rightarrow> bool"
    and inv :: "'s \<Rightarrow> bool"
  assumes init_inv: "init s \<Longrightarrow> inv s"
    and step_inv: "inv s \<Longrightarrow> step s s' \<Longrightarrow> inv s'"
begin

lemma reachable_inv: "reachable init step s \<Longrightarrow> inv s"
  by (induction rule: reachable.induct) (auto intro: init_inv step_inv)

end

lemma reachable_steps: "step\<^sup>*\<^sup>* s s' \<Longrightarrow> reachable init step s \<Longrightarrow> reachable init step s'"
  by (induction rule: rtranclp_induct) (auto intro: reachable_step)

text \<open>
  A system that implements a specification: \<open>abs\<close> maps its states, and one step of it is a
  run of the specification.
\<close>

locale simulation = invariant_system init step inv
  for init :: "'s \<Rightarrow> bool" and step :: "'s \<Rightarrow> 's \<Rightarrow> bool" and inv :: "'s \<Rightarrow> bool" +
  fixes spec_init :: "'t \<Rightarrow> bool"
    and spec_step :: "'t \<Rightarrow> 't \<Rightarrow> bool"
    and abs :: "'s \<Rightarrow> 't"
  assumes init_sim: "init s \<Longrightarrow> spec_init (abs s)"
    and step_sim: "inv s \<Longrightarrow> step s s' \<Longrightarrow> spec_step\<^sup>*\<^sup>* (abs s) (abs s')"
begin

lemma reachable_abs: "reachable init step s \<Longrightarrow> reachable spec_init spec_step (abs s)"
proof (induction rule: reachable.induct)
  case (reachable_init s)
  then show ?case by (intro reachable.reachable_init init_sim)
next
  case (reachable_step s s')
  from step_sim [OF reachable_inv [OF reachable_step.hyps(1)] reachable_step.hyps(2)] reachable_step.IH
  show ?case by (rule reachable_steps)
qed

lemma reachable_step_sim: "reachable init step s \<Longrightarrow> step s s' \<Longrightarrow> spec_step\<^sup>*\<^sup>* (abs s) (abs s')"
  by (intro step_sim reachable_inv)

end

end
