(* ===== verification/Rust_Str.thy ===== *)
theory Rust_Str
  imports Prelude
begin

text \<open>
  The strings of the Rust code.  A \<open>str\<close> is a sequence of Unicode scalar values, kept here
  as the list of its code points; its length, and every index the code computes, counts
  the bytes of its UTF-8 encoding, so the model keeps \<open>utf8_len\<close>, byte offsets and the
  panic of a slice that is not on a character boundary.  The part of the standard library
  the crate calls (\<open>split\<close>, \<open>rfind\<close>, \<open>char_indices\<close>, slicing, decimal and hexadecimal
  formatting, integer parsing) is written out below, with the lemmas about it that
  several components use.
\<close>

named_theorems str_simps \<open>evaluation of the string operations\<close>

type_synonym rchar = nat
type_synonym rstr = "rchar list"

text \<open>String literals: the code points of an ASCII literal.\<close>

definition lit :: "string \<Rightarrow> rstr" where
  "lit s = map of_char s"

lemma lit_simps [simp, str_simps]: "lit [] = []" "lit (c # s) = of_char c # lit s"
  by (simp_all add: lit_def)

lemma length_lit [simp]: "length (lit s) = length s"
  by (simp add: lit_def)

section \<open>UTF-8\<close>

definition utf8_len :: "rchar \<Rightarrow> nat" where
  "utf8_len c = (if c < 0x80 then 1 else if c < 0x800 then 2 else if c < 0x10000 then 3 else 4)"

definition utf8_char :: "rchar \<Rightarrow> bytes" where
  "utf8_char c =
     (if c < 0x80 then [of_nat c]
      else if c < 0x800 then [of_nat (0xC0 + c div 64), of_nat (0x80 + c mod 64)]
      else if c < 0x10000 then
        [of_nat (0xE0 + c div 4096), of_nat (0x80 + c div 64 mod 64), of_nat (0x80 + c mod 64)]
      else [of_nat (0xF0 + c div 262144), of_nat (0x80 + c div 4096 mod 64),
            of_nat (0x80 + c div 64 mod 64), of_nat (0x80 + c mod 64)])"

definition as_bytes :: "rstr \<Rightarrow> bytes" where
  "as_bytes s = concat (map utf8_char s)"

definition byte_len :: "rstr \<Rightarrow> nat" where
  "byte_len s = sum_list (map utf8_len s)"

lemma utf8_len_pos [simp]: "0 < utf8_len c"
  by (simp add: utf8_len_def)

lemma length_utf8_char: "length (utf8_char c) = utf8_len c"
  by (simp add: utf8_char_def utf8_len_def)

lemma byte_len_simps [simp, str_simps]:
  "byte_len [] = 0"
  "byte_len (c # s) = utf8_len c + byte_len s"
  "byte_len (s @ t) = byte_len s + byte_len t"
  by (simp_all add: byte_len_def)

lemma length_as_bytes: "length (as_bytes s) = byte_len s"
  by (induction s) (simp_all add: as_bytes_def length_utf8_char)

lemma length_le_byte_len: "length s \<le> byte_len s"
proof (induction s)
  case (Cons c s)
  moreover have "Suc 0 \<le> utf8_len c" by (simp add: Suc_le_eq)
  ultimately show ?case by simp
qed simp

lemma byte_len_eq_0 [simp]: "byte_len s = 0 \<longleftrightarrow> s = []"
  using length_le_byte_len [of s] by auto

section \<open>Indices and slices\<close>

fun char_indices_from :: "nat \<Rightarrow> rstr \<Rightarrow> (nat \<times> rchar) list" where
  "char_indices_from off [] = []"
| "char_indices_from off (c # s) = (off, c) # char_indices_from (off + utf8_len c) s"

definition char_indices :: "rstr \<Rightarrow> (nat \<times> rchar) list" where
  "char_indices s = char_indices_from 0 s"

text \<open>\<open>iter.nth(n)\<close>: \<open>None\<close> when the iterator is shorter.\<close>

definition iter_nth :: "'a list \<Rightarrow> nat \<Rightarrow> 'a option" where
  "iter_nth xs n = (if n < length xs then Some (xs ! n) else None)"

text \<open>\<open>s.rfind(c)\<close> for a character: the byte index of its last occurrence.\<close>

fun rfind :: "rchar \<Rightarrow> rstr \<Rightarrow> nat option" where
  "rfind c [] = None"
| "rfind c (d # s) = (case rfind c s of
      Some i \<Rightarrow> Some (utf8_len d + i)
    | None \<Rightarrow> if d = c then Some 0 else None)"

text \<open>\<open>&s[..n]\<close> and \<open>&s[n..]\<close>: a panic when \<open>n\<close> is not on a character boundary.\<close>

fun slice_to :: "nat \<Rightarrow> rstr \<Rightarrow> rstr outcome" where
  "slice_to n s = (if n = 0 then Val [] else
     (case s of [] \<Rightarrow> Panic
      | c # t \<Rightarrow> if utf8_len c \<le> n then map_outcome_with ((#) c) (slice_to (n - utf8_len c) t)
                 else Panic))"

fun slice_from :: "nat \<Rightarrow> rstr \<Rightarrow> rstr outcome" where
  "slice_from n s = (if n = 0 then Val s else
     (case s of [] \<Rightarrow> Panic
      | c # t \<Rightarrow> if utf8_len c \<le> n then slice_from (n - utf8_len c) t else Panic))"

declare slice_to.simps [simp del] slice_from.simps [simp del]

lemma slice_to_byte_len [simp]: "slice_to (byte_len s) (s @ t) = Val s"
proof (induction s)
  case Nil
  show ?case by (simp add: slice_to.simps)
next
  case (Cons c s)
  show ?case by (subst slice_to.simps) (simp add: Cons.IH)
qed

lemma slice_from_byte_len [simp]: "slice_from (byte_len s) (s @ t) = Val t"
proof (induction s)
  case Nil
  show ?case by (simp add: slice_from.simps)
next
  case (Cons c s)
  show ?case by (subst slice_from.simps) (simp add: Cons.IH)
qed

lemma slice_to_all [simp]: "slice_to (byte_len s) s = Val s"
  using slice_to_byte_len [of s "[]"] by simp

lemma slice_to_take [simp]: "slice_to (byte_len (take k s)) s = Val (take k s)"
  using slice_to_byte_len [of "take k s" "drop k s"] by simp

lemma rfind_None: "rfind c s = None \<longleftrightarrow> c \<notin> set s"
  by (induction s) (auto split: option.splits)

lemma rfind_notin [simp]: "c \<notin> set s \<Longrightarrow> rfind c s = None"
  by (simp add: rfind_None)

text \<open>The last occurrence splits the string.\<close>

lemma rfind_split: "c \<notin> set t \<Longrightarrow> rfind c (s @ c # t) = Some (byte_len s)"
proof (induction s)
  case Nil
  then show ?case by simp
next
  case (Cons d s)
  then show ?case by simp
qed

lemma rfind_Some: "rfind c s = Some i \<longleftrightarrow> (\<exists>u t. s = u @ c # t \<and> c \<notin> set t \<and> i = byte_len u)"
proof
  assume found: "rfind c s = Some i"
  then have "c \<in> set s" by (metis option.distinct(1) rfind_None)
  then obtain u t where s: "s = u @ c # t" "c \<notin> set t"
    using split_list_last by metis
  with found show "\<exists>u t. s = u @ c # t \<and> c \<notin> set t \<and> i = byte_len u"
    by (auto simp: rfind_split)
qed (auto simp: rfind_split)

lemma char_indices_from_nth:
  "n < length s \<Longrightarrow> char_indices_from off s ! n = (off + byte_len (take n s), s ! n)"
proof (induction s arbitrary: off n)
  case (Cons c s)
  then show ?case by (cases n) (auto simp: ac_simps)
qed simp

lemma length_char_indices_from [simp]: "length (char_indices_from off s) = length s"
  by (induction s arbitrary: off) auto

lemma iter_nth_char_indices:
  "iter_nth (char_indices s) n = (if n < length s then Some (byte_len (take n s), s ! n) else None)"
  by (simp add: iter_nth_def char_indices_def char_indices_from_nth)

lemma byte_len_take_mono: "m \<le> n \<Longrightarrow> byte_len (take m s) \<le> byte_len (take n s)"
proof -
  assume "m \<le> n"
  then have "take n s = take m s @ drop m (take n s)"
    by (metis append_take_drop_id min.absorb1 take_take)
  then have "byte_len (take n s) = byte_len (take m s) + byte_len (drop m (take n s))"
    using byte_len_simps(3) by metis
  then show ?thesis by simp
qed

section \<open>Splitting\<close>

text \<open>\<open>s.split(c)\<close>: at least one piece.\<close>

fun split_on :: "rchar \<Rightarrow> rstr \<Rightarrow> rstr list" where
  "split_on c [] = [[]]"
| "split_on c (d # s) =
     (if d = c then [] # split_on c s
      else (case split_on c s of p # ps \<Rightarrow> (d # p) # ps | [] \<Rightarrow> [[d]]))"

text \<open>\<open>s.split(c).next()\<close> and \<open>s.rsplit(c).next()\<close>: the first and the last piece.\<close>

definition split_first :: "rchar \<Rightarrow> rstr \<Rightarrow> rstr option" where
  "split_first c s = iter_nth (split_on c s) 0"

definition rsplit_first :: "rchar \<Rightarrow> rstr \<Rightarrow> rstr option" where
  "rsplit_first c s = iter_nth (rev (split_on c s)) 0"

text \<open>\<open>s.split("ab")\<close> for a pattern of two characters: matches do not overlap.\<close>

fun split_on2 :: "rchar \<Rightarrow> rchar \<Rightarrow> rstr \<Rightarrow> rstr list" where
  "split_on2 a b (c # d # s) =
     (if c = a \<and> d = b then [] # split_on2 a b s
      else (case split_on2 a b (d # s) of p # ps \<Rightarrow> (c # p) # ps | [] \<Rightarrow> [[c]]))"
| "split_on2 a b s = [s]"

lemma split_on_nonempty [simp]: "split_on c s \<noteq> []"
  by (induction s) (auto split: list.splits)

lemma split_on_notin: "c \<notin> set s \<Longrightarrow> split_on c s = [s]"
  by (induction s) auto

lemma split_on_append: "c \<notin> set s \<Longrightarrow> split_on c (s @ c # t) = s # split_on c t"
  by (induction s) auto

lemma split_on_snoc: "c \<notin> set t \<Longrightarrow> split_on c (s @ c # t) = split_on c s @ [t]"
proof (induction s)
  case Nil
  then show ?case by (simp add: split_on_notin)
next
  case (Cons d s)
  then show ?case by (auto split: list.splits)
qed

lemma split_on_pieces:
  "p \<in> set (split_on c s) \<Longrightarrow> c \<notin> set p \<and> set p \<subseteq> set s \<and> length p \<le> length s"
proof (induction s arbitrary: p)
  case (Cons d s)
  then show ?case by (cases "split_on c s") (fastforce split: if_splits)+
qed simp

lemma split_first_takeWhile: "split_first c s = Some (takeWhile (\<lambda>d. d \<noteq> c) s)"
proof (cases "c \<in> set s")
  case True
  then obtain u t where s: "s = u @ c # t" "c \<notin> set u"
    using split_list_first by metis
  have "takeWhile (\<lambda>d. d \<noteq> c) (u @ c # t) = u"
    using s(2) by (induction u) auto
  with s show ?thesis by (simp add: split_first_def iter_nth_def split_on_append)
next
  case False
  then have all: "takeWhile (\<lambda>d. d \<noteq> c) s = s" by (metis (mono_tags, lifting) takeWhile_eq_all_conv)
  from False show ?thesis by (simp add: split_first_def iter_nth_def split_on_notin all)
qed

lemma rsplit_first_notin: "c \<notin> set s \<Longrightarrow> rsplit_first c s = Some s"
  by (simp add: rsplit_first_def iter_nth_def split_on_notin)

lemma rsplit_first_append: "c \<notin> set t \<Longrightarrow> rsplit_first c (s @ c # t) = Some t"
  by (simp add: rsplit_first_def iter_nth_def split_on_snoc)

lemma rsplit_first_Some:
  "\<exists>t. rsplit_first c s = Some t \<and> c \<notin> set t \<and> set t \<subseteq> set s \<and> length t \<le> length s"
proof -
  obtain t where t: "rsplit_first c s = Some t" "t = last (split_on c s)"
    by (simp add: rsplit_first_def iter_nth_def hd_rev [symmetric] hd_conv_nth)
  then have "t \<in> set (split_on c s)" by simp
  from split_on_pieces [OF this] t(1) show ?thesis by blast
qed

section \<open>Characters\<close>

definition is_ascii_digit :: "rchar \<Rightarrow> bool" where
  "is_ascii_digit c \<longleftrightarrow> 48 \<le> c \<and> c \<le> 57"

definition is_ascii_alphanumeric :: "rchar \<Rightarrow> bool" where
  "is_ascii_alphanumeric c \<longleftrightarrow>
     is_ascii_digit c \<or> (65 \<le> c \<and> c \<le> 90) \<or> (97 \<le> c \<and> c \<le> 122)"

definition ascii_lower :: "rchar \<Rightarrow> rchar" where
  "ascii_lower c = (if 65 \<le> c \<and> c \<le> 90 then c + 32 else c)"

definition eq_ignore_ascii_case :: "rstr \<Rightarrow> rstr \<Rightarrow> bool" where
  "eq_ignore_ascii_case s t \<longleftrightarrow> map ascii_lower s = map ascii_lower t"

lemma ascii_lower_idem [simp]: "ascii_lower (ascii_lower c) = ascii_lower c"
  by (simp add: ascii_lower_def)

lemma eq_ignore_ascii_case_refl [simp]: "eq_ignore_ascii_case s s"
  by (simp add: eq_ignore_ascii_case_def)

lemma is_ascii_alphanumeric_lower [simp]:
  "is_ascii_alphanumeric (ascii_lower c) = is_ascii_alphanumeric c"
  by (auto simp: is_ascii_alphanumeric_def is_ascii_digit_def ascii_lower_def)

section \<open>Numbers\<close>

text \<open>\<open>{n}\<close>, \<open>{n:03}\<close> and \<open>{b:02x}\<close>.\<close>

fun show_nat :: "nat \<Rightarrow> rstr" where
  "show_nat n = (if n < 10 then [48 + n] else show_nat (n div 10) @ [48 + n mod 10])"

declare show_nat.simps [simp del]

definition show_nat_pad3 :: "nat \<Rightarrow> rstr" where
  "show_nat_pad3 n = replicate (3 - length (show_nat n)) 48 @ show_nat n"

definition hex_digit :: "nat \<Rightarrow> rchar" where
  "hex_digit d = (if d < 10 then 48 + d else 87 + d)"

definition hex_byte :: "u8 \<Rightarrow> rstr" where
  "hex_byte b = [hex_digit (unat b div 16), hex_digit (unat b mod 16)]"

text \<open>
  \<open>s.parse::<uN>()\<close> for an unsigned integer up to \<open>limit\<close>: an optional plus sign, then at
  least one decimal digit and nothing else, and no overflow.
\<close>

fun parse_digits :: "nat \<Rightarrow> nat \<Rightarrow> rstr \<Rightarrow> nat option" where
  "parse_digits limit acc [] = Some acc"
| "parse_digits limit acc (c # s) =
     (if is_ascii_digit c \<and> acc * 10 + (c - 48) \<le> limit
      then parse_digits limit (acc * 10 + (c - 48)) s else None)"

definition parse_unsigned :: "nat \<Rightarrow> rstr \<Rightarrow> nat option" where
  "parse_unsigned limit s = (case s of
      [] \<Rightarrow> None
    | c # t \<Rightarrow> if c = 43 then (if t = [] then None else parse_digits limit 0 t)
               else parse_digits limit 0 s)"

lemma show_nat_nonempty [simp]: "show_nat n \<noteq> []"
  by (subst show_nat.simps) simp

lemma show_nat_digits: "c \<in> set (show_nat n) \<Longrightarrow> is_ascii_digit c"
proof (induction n rule: show_nat.induct)
  case (1 n)
  then show ?case
    by (subst (asm) show_nat.simps) (auto simp: is_ascii_digit_def split: if_splits)
qed

lemma parse_digits_append:
  "parse_digits limit acc (s @ t) =
     (case parse_digits limit acc s of None \<Rightarrow> None | Some a \<Rightarrow> parse_digits limit a t)"
  by (induction s arbitrary: acc) auto

lemma parse_digits_show_nat: "n \<le> limit \<Longrightarrow> parse_digits limit 0 (show_nat n) = Some n"
proof (induction n rule: show_nat.induct)
  case (1 n)
  show ?case
  proof (cases "n < 10")
    case True
    with 1 show ?thesis by (subst show_nat.simps) (simp add: is_ascii_digit_def)
  next
    case False
    with 1 have "parse_digits limit 0 (show_nat (n div 10)) = Some (n div 10)" by simp
    with False 1 show ?thesis
      by (subst show_nat.simps) (simp add: parse_digits_append is_ascii_digit_def)
  qed
qed

lemma parse_unsigned_show_nat: "n \<le> limit \<Longrightarrow> parse_unsigned limit (show_nat n) = Some n"
proof -
  assume le: "n \<le> limit"
  obtain c s where cs: "show_nat n = c # s" by (cases "show_nat n") auto
  then have "c \<noteq> 43" using show_nat_digits [of c n] by (auto simp: is_ascii_digit_def)
  with cs parse_digits_show_nat [OF le] show ?thesis by (simp add: parse_unsigned_def)
qed

lemma parse_digits_bound: "parse_digits limit acc s = Some n \<Longrightarrow> acc \<le> limit \<Longrightarrow> n \<le> limit"
  by (induction s arbitrary: acc) (auto split: if_splits)

lemma parse_unsigned_bound: "parse_unsigned limit s = Some n \<Longrightarrow> n \<le> limit"
  by (auto simp: parse_unsigned_def split: list.splits if_splits dest: parse_digits_bound)

lemma show_nat_inj: "show_nat m = show_nat n \<Longrightarrow> m = n"
  by (metis max.cobounded1 max.cobounded2 option.inject parse_unsigned_show_nat)

text \<open>Leading zeros change nothing: the padded form parses to the same number.\<close>

lemma parse_digits_zeros: "parse_digits limit 0 (replicate k 48 @ s) = parse_digits limit 0 s"
  by (induction k) (simp_all add: is_ascii_digit_def)

lemma show_nat_pad3_inj: "show_nat_pad3 m = show_nat_pad3 n \<Longrightarrow> m = n"
proof -
  assume eq: "show_nat_pad3 m = show_nat_pad3 n"
  have *: "parse_digits (max m n) 0 (show_nat_pad3 k) = Some k" if "k \<le> max m n" for k
    using that by (simp only: show_nat_pad3_def parse_digits_zeros parse_digits_show_nat)
  have "Some m = Some n"
    using * [of m] * [of n] unfolding eq by (metis max.cobounded1 max.cobounded2)
  then show "m = n" by simp
qed

lemma show_nat_pad3_digits: "c \<in> set (show_nat_pad3 n) \<Longrightarrow> is_ascii_digit c"
  by (auto simp: show_nat_pad3_def is_ascii_digit_def [of 48] dest: show_nat_digits split: if_splits)

lemma length_show_nat_bound: "n < 10 ^ k \<Longrightarrow> 0 < k \<Longrightarrow> length (show_nat n) \<le> k"
proof (induction n arbitrary: k rule: show_nat.induct)
  case (1 n)
  show ?case
  proof (cases "n < 10")
    case True
    with 1 show ?thesis by (subst show_nat.simps) simp
  next
    case False
    with "1.prems" obtain j where k: "k = Suc j" "0 < j"
      by (cases k; cases "k - 1") auto
    with "1.prems" have "n div 10 < 10 ^ j" by (simp add: less_mult_imp_div_less mult.commute)
    with "1.IH" [OF False, of j] k False show ?thesis by (subst show_nat.simps) simp
  qed
qed

lemma hex_digit_alnum: "d < 16 \<Longrightarrow> is_ascii_alphanumeric (hex_digit d)"
  by (auto simp: hex_digit_def is_ascii_alphanumeric_def is_ascii_digit_def)

lemma hex_byte_alnum: "c \<in> set (hex_byte b) \<Longrightarrow> is_ascii_alphanumeric c"
proof -
  have "unat b < 256" using unsigned_less [of b, where 'a = nat] by simp
  then have "unat b div 16 < 16" by (simp add: less_mult_imp_div_less)
  then show "c \<in> set (hex_byte b) \<Longrightarrow> is_ascii_alphanumeric c"
    by (auto simp: hex_byte_def intro!: hex_digit_alnum)
qed

lemma length_hex_byte [simp]: "length (hex_byte b) = 2"
  by (simp add: hex_byte_def)

section \<open>Lossy decoding\<close>

text \<open>
  \<open>String::from_utf8_lossy\<close>: every maximal prefix of a sequence that cannot be completed is
  replaced by one \<open>U+FFFD\<close>.  The bytes are read as numbers.
\<close>

definition cont_byte :: "nat \<Rightarrow> bool" where
  "cont_byte b \<longleftrightarrow> 0x80 \<le> b \<and> b \<le> 0xBF"

text \<open>The second bytes that may follow a first byte of a sequence of three or four.\<close>

definition second_ok :: "nat \<Rightarrow> nat \<Rightarrow> bool" where
  "second_ok b c \<longleftrightarrow>
     (if b = 0xE0 then 0xA0 \<le> c \<and> c \<le> 0xBF
      else if b = 0xED then 0x80 \<le> c \<and> c \<le> 0x9F
      else if b = 0xF0 then 0x90 \<le> c \<and> c \<le> 0xBF
      else if b = 0xF4 then 0x80 \<le> c \<and> c \<le> 0x8F
      else cont_byte c)"

text \<open>The first character and the number of bytes it takes.\<close>

fun lossy_char :: "nat \<Rightarrow> nat list \<Rightarrow> rchar \<times> nat" where
  "lossy_char b rest =
     (if b < 0x80 then (b, 1)
      else if 0xC2 \<le> b \<and> b \<le> 0xDF then
        (case rest of
           c # _ \<Rightarrow> if cont_byte c then ((b - 0xC0) * 64 + (c - 0x80), 2) else (0xFFFD, 1)
         | [] \<Rightarrow> (0xFFFD, 1))
      else if 0xE0 \<le> b \<and> b \<le> 0xEF then
        (case rest of
           c # rest' \<Rightarrow>
             if \<not> second_ok b c then (0xFFFD, 1)
             else (case rest' of
                 d # _ \<Rightarrow> if cont_byte d
                   then ((b - 0xE0) * 4096 + (c - 0x80) * 64 + (d - 0x80), 3) else (0xFFFD, 2)
               | [] \<Rightarrow> (0xFFFD, 2))
         | [] \<Rightarrow> (0xFFFD, 1))
      else if 0xF0 \<le> b \<and> b \<le> 0xF4 then
        (case rest of
           c # rest' \<Rightarrow>
             if \<not> second_ok b c then (0xFFFD, 1)
             else (case rest' of
                 d # rest'' \<Rightarrow>
                   if \<not> cont_byte d then (0xFFFD, 2)
                   else (case rest'' of
                       e # _ \<Rightarrow> if cont_byte e
                         then ((b - 0xF0) * 262144 + (c - 0x80) * 4096 + (d - 0x80) * 64 + (e - 0x80), 4)
                         else (0xFFFD, 3)
                     | [] \<Rightarrow> (0xFFFD, 3))
               | [] \<Rightarrow> (0xFFFD, 2))
         | [] \<Rightarrow> (0xFFFD, 1))
      else (0xFFFD, 1))"

fun lossy_from :: "nat list \<Rightarrow> rstr" where
  "lossy_from [] = []"
| "lossy_from (b # rest) = (case lossy_char b rest of (c, n) \<Rightarrow> c # lossy_from (drop (n - 1) rest))"

definition from_utf8_lossy :: "bytes \<Rightarrow> rstr" where
  "from_utf8_lossy bs = lossy_from (map unat bs)"

text \<open>Unicode scalar values, and the round trip.\<close>

definition scalar :: "rchar \<Rightarrow> bool" where
  "scalar c \<longleftrightarrow> c < 0xD800 \<or> (0xE000 \<le> c \<and> c < 0x110000)"

lemma unat_utf8_char:
  assumes "c < 0x110000"
  shows "map unat (utf8_char c) =
     (if c < 0x80 then [c]
      else if c < 0x800 then [0xC0 + c div 64, 0x80 + c mod 64]
      else if c < 0x10000 then [0xE0 + c div 4096, 0x80 + c div 64 mod 64, 0x80 + c mod 64]
      else [0xF0 + c div 262144, 0x80 + c div 4096 mod 64, 0x80 + c div 64 mod 64, 0x80 + c mod 64])"
proof -
  have u: "unat (of_nat n :: u8) = n" if "n < 256" for n using that by (simp add: unat_of_nat)
  have r: "0x80 + n mod 64 < 256" for n :: nat
  proof -
    have "n mod 64 < 64" by simp
    then show ?thesis by linarith
  qed
  have q: "c < 0x800 \<Longrightarrow> 0xC0 + c div 64 < 256" "c < 0x10000 \<Longrightarrow> 0xE0 + c div 4096 < 256"
    "0xF0 + c div 262144 < 256" using assms by linarith+
  show ?thesis using q r [of c] r [of "c div 64"] r [of "c div 4096"]
    by (simp add: utf8_char_def u del: of_nat_add)
qed

text \<open>The sequences of two, three and four bytes.\<close>

lemma lossy_sequences:
  assumes "y < 64" "z < 64" "v < 64"
  shows "2 \<le> x \<Longrightarrow> x < 32 \<Longrightarrow> lossy_from ((0xC0 + x) # (0x80 + y) # rest) = (x * 64 + y) # lossy_from rest"
    and "x < 16 \<Longrightarrow> second_ok (0xE0 + x) (0x80 + y) \<Longrightarrow>
      lossy_from ((0xE0 + x) # (0x80 + y) # (0x80 + z) # rest) = (x * 4096 + y * 64 + z) # lossy_from rest"
    and "x < 5 \<Longrightarrow> second_ok (0xF0 + x) (0x80 + y) \<Longrightarrow>
      lossy_from ((0xF0 + x) # (0x80 + y) # (0x80 + z) # (0x80 + v) # rest) =
        (x * 262144 + y * 4096 + z * 64 + v) # lossy_from rest"
  using assms by (simp_all add: cont_byte_def)

lemma lossy_utf8_char:
  assumes "scalar c"
  shows "lossy_from (map unat (utf8_char c) @ rest) = c # lossy_from rest"
proof -
  have c2: "c = c div 64 * 64 + c mod 64" by simp
  have c3: "c div 64 = c div 4096 * 64 + c div 64 mod 64" by (simp add: div_mult2_eq [of c 64 64, simplified])
  have c4: "c div 4096 = c div 262144 * 64 + c div 4096 mod 64" by (simp add: div_mult2_eq [of c 4096 64, simplified])
  have top: "c < 0x110000" using assms by (auto simp: scalar_def)
  consider "c < 0x80" | "0x80 \<le> c" "c < 0x800" | "0x800 \<le> c" "c < 0x10000" | "0x10000 \<le> c" by linarith
  then show ?thesis
  proof cases
    case 1
    then show ?thesis by (simp add: unat_utf8_char [OF top])
  next
    case 2
    then have x: "2 \<le> c div 64" "c div 64 < 32" by linarith+
    with 2 lossy_sequences(1) [of "c mod 64" 0 0 "c div 64" rest] show ?thesis
      by (simp add: unat_utf8_char [OF top] del: lossy_from.simps)
  next
    case 3
    define x y z where "x = c div 4096" and "y = c div 64 mod 64" and "z = c mod 64"
    have c: "c = x * 4096 + y * 64 + z" unfolding x_def y_def z_def using c2 c3 by linarith
    have yz: "y < 64" "z < 64" "x < 16" using 3 by (simp_all add: x_def y_def z_def less_mult_imp_div_less)
    have "second_ok (0xE0 + x) (0x80 + y)"
      using 3 c yz assms by (auto simp: second_ok_def cont_byte_def scalar_def)
    from lossy_sequences(2) [OF yz(1,2) _ yz(3) this, of 0 rest] show ?thesis
      using 3 by (simp add: unat_utf8_char [OF top] c [symmetric] x_def [symmetric] y_def [symmetric]
          z_def [symmetric] del: lossy_from.simps)
  next
    case 4
    define x y z v where "x = c div 262144" and "y = c div 4096 mod 64" and "z = c div 64 mod 64" and "v = c mod 64"
    have c: "c = x * 262144 + y * 4096 + z * 64 + v" unfolding x_def y_def z_def v_def using c2 c3 c4 by linarith
    have yz: "y < 64" "z < 64" "v < 64" "x < 5"
      using top by (simp_all add: x_def y_def z_def v_def less_mult_imp_div_less)
    have "second_ok (0xF0 + x) (0x80 + y)"
      using 4 c yz top by (auto simp: second_ok_def cont_byte_def)
    from lossy_sequences(3) [OF yz this, of rest] show ?thesis
      using 4 by (simp add: unat_utf8_char [OF top] c [symmetric] x_def [symmetric] y_def [symmetric]
          z_def [symmetric] v_def [symmetric] del: lossy_from.simps)
  qed
qed

lemma from_utf8_lossy_as_bytes: "list_all scalar s \<Longrightarrow> from_utf8_lossy (as_bytes s) = s"
  by (induction s) (simp_all add: from_utf8_lossy_def as_bytes_def lossy_utf8_char)

end
