(* ===== verification/Rust_Time.thy ===== *)
theory Rust_Time
  imports Prelude
begin

text \<open>
  \<open>std::time::Duration\<close> with its seconds and sub-second nanoseconds, its derived
  (lexicographic) order as an instance of \<open>linorder\<close>, the conversions the crate uses, and
  \<open>Instant\<close> as nanoseconds since the platform's origin with the panic of an addition that
  overflows it.
\<close>

section \<open>Durations\<close>

datatype duration = Duration (dur_secs: u64) (dur_subsec: u32)

definition dur_wf :: "duration \<Rightarrow> bool" where
  "dur_wf d \<longleftrightarrow> unat (dur_subsec d) < 1000000000"

text \<open>The length in nanoseconds: the abstraction all order and arithmetic facts go through.\<close>

definition dur_nanos :: "duration \<Rightarrow> nat" where
  "dur_nanos d = unat (dur_secs d) * 1000000000 + unat (dur_subsec d)"

definition dur_zero :: duration where
  "dur_zero = Duration 0 0"

definition from_secs :: "u64 \<Rightarrow> duration" where
  "from_secs s = Duration s 0"

definition from_millis :: "u64 \<Rightarrow> duration" where
  "from_millis ms = Duration (ms div 1000) (ucast (ms mod 1000) * 1000000)"

text \<open>\<open>as_millis\<close> returns a \<open>u128\<close>; \<open>as u64\<close> keeps its low 64 bits.\<close>

definition as_millis :: "duration \<Rightarrow> nat" where
  "as_millis d = unat (dur_secs d) * 1000 + unat (dur_subsec d) div 1000000"

definition as_millis_u64 :: "duration \<Rightarrow> u64" where
  "as_millis_u64 d = of_nat (as_millis d)"

instantiation duration :: linorder
begin

definition less_eq_duration :: "duration \<Rightarrow> duration \<Rightarrow> bool" where
  "less_eq_duration d e \<longleftrightarrow>
     dur_secs d < dur_secs e \<or> (dur_secs d = dur_secs e \<and> dur_subsec d \<le> dur_subsec e)"

definition less_duration :: "duration \<Rightarrow> duration \<Rightarrow> bool" where
  "less_duration d e \<longleftrightarrow>
     dur_secs d < dur_secs e \<or> (dur_secs d = dur_secs e \<and> dur_subsec d < dur_subsec e)"

instance
  by standard (auto simp: less_eq_duration_def less_duration_def duration.expand)

end

lemma dur_wf_zero [simp, wf_intros]: "dur_wf dur_zero"
  by (simp add: dur_wf_def dur_zero_def)

lemma dur_wf_from_secs [simp, wf_intros]: "dur_wf (from_secs s)"
  by (simp add: dur_wf_def from_secs_def)

lemma dur_nanos_from_secs [simp]: "dur_nanos (from_secs s) = unat s * 1000000000"
  by (simp add: dur_nanos_def from_secs_def)

lemma unat_from_millis_subsec:
  "unat (dur_subsec (from_millis ms)) = (unat ms mod 1000) * 1000000"
proof -
  have small: "unat ms mod 1000 < 1000" by simp
  have "unat (ucast (ms mod 1000) :: u32) = unat ms mod 1000"
    using small by (simp add: unat_mod_distrib unsigned_ucast_eq take_bit_eq_mod)
  with small show ?thesis by (simp add: from_millis_def unat_word_ariths)
qed

lemma dur_wf_from_millis [simp, wf_intros]: "dur_wf (from_millis ms)"
proof -
  have "unat ms mod 1000 < 1000" by simp
  then show ?thesis by (simp add: dur_wf_def unat_from_millis_subsec)
qed

lemma dur_nanos_from_millis [simp]: "dur_nanos (from_millis ms) = unat ms * 1000000"
proof -
  have "unat ms div 1000 * 1000 + unat ms mod 1000 = unat ms" by simp
  then have "unat ms div 1000 * 1000000000 + unat ms mod 1000 * 1000000 = unat ms * 1000000"
    by linarith
  then show ?thesis by (simp add: dur_nanos_def unat_from_millis_subsec)
     (simp add: from_millis_def unat_div_distrib)
qed

lemma as_millis_nanos: "dur_wf d \<Longrightarrow> as_millis d = dur_nanos d div 1000000"
  by (simp add: as_millis_def dur_nanos_def dur_wf_def)

lemma as_millis_from_millis [simp]: "as_millis (from_millis ms) = unat ms"
  by (simp add: as_millis_nanos)

lemma as_millis_u64_from_millis [simp]: "as_millis_u64 (from_millis ms) = ms"
  by (simp add: as_millis_u64_def)

text \<open>On well-formed durations the derived order is the order of the nanosecond counts.\<close>

lemma dur_less_iff_nanos:
  assumes "dur_wf d" "dur_wf e"
  shows "d < e \<longleftrightarrow> dur_nanos d < dur_nanos e"
proof -
  have "unat (dur_secs d) < unat (dur_secs e) \<longleftrightarrow> dur_secs d < dur_secs e"
    "unat (dur_subsec d) < unat (dur_subsec e) \<longleftrightarrow> dur_subsec d < dur_subsec e"
    "unat (dur_secs d) = unat (dur_secs e) \<longleftrightarrow> dur_secs d = dur_secs e"
    by (simp_all add: word_less_nat_alt word_unat_eq_iff)
  with assms show ?thesis
    unfolding less_duration_def dur_nanos_def dur_wf_def by auto
qed

lemma dur_le_iff_nanos:
  assumes "dur_wf d" "dur_wf e"
  shows "d \<le> e \<longleftrightarrow> dur_nanos d \<le> dur_nanos e"
  using dur_less_iff_nanos [OF assms(2,1)] by (simp add: not_less [symmetric])

section \<open>Instants\<close>

text \<open>
  \<open>Instant\<close> is a monotonic clock reading.  On the Unix targets of the crate it holds an
  \<open>i64\<close> of seconds, and \<open>+\<close> panics when that overflows.
\<close>

type_synonym instant = nat

definition instant_limit :: nat where
  "instant_limit = 2 ^ 63 * 1000000000"

definition instant_add :: "instant \<Rightarrow> duration \<Rightarrow> instant outcome" where
  "instant_add t d = (if t + dur_nanos d < instant_limit then Val (t + dur_nanos d) else Panic)"

text \<open>\<open>later.duration_since(earlier)\<close> and \<open>elapsed()\<close> saturate at zero.\<close>

definition instant_since :: "instant \<Rightarrow> instant \<Rightarrow> duration" where
  "instant_since later earlier =
     Duration (of_nat ((later - earlier) div 1000000000)) (of_nat ((later - earlier) mod 1000000000))"

lemma dur_wf_instant_since [simp, wf_intros]: "dur_wf (instant_since t u)"
proof -
  have "(t - u) mod 1000000000 < 1000000000" by simp
  then show ?thesis by (simp add: dur_wf_def instant_since_def unat_of_nat)
qed

end
