(* ===== verification/Rust_F64.thy ===== *)
theory Rust_F64
  imports Rust_Time
begin

text \<open>
  The 64-bit floating point numbers the crates use for elapsed times and for the timeouts
  that come from Python: a sign, a significand below \<open>2 ^ 53\<close> and an exponent, with the
  results of addition, multiplication and division rounded to the nearest number, ties to
  even.  \<open>from_secs_f64\<close> panics like \<open>Duration::from_secs_f64\<close>.
\<close>

section \<open>Numbers\<close>

text \<open>\<open>Fin neg m e\<close> stands for \<open>m * 2 ^ e\<close>, negated when \<open>neg\<close>.\<close>

datatype f64 = NaN | Infinite bool | Fin bool nat int

definition f64_zero :: f64 where
  "f64_zero = Fin False 0 0"

definition pow2 :: "int \<Rightarrow> nat" where
  "pow2 e = 2 ^ nat e"

text \<open>The quotient \<open>n / d\<close> rounded to an integer, ties to even.\<close>

definition div_half_even :: "nat \<Rightarrow> nat \<Rightarrow> nat" where
  "div_half_even n d =
     (let q = n div d; r = n mod d
      in if 2 * r < d \<or> (2 * r = d \<and> even q) then q else Suc q)"

text \<open>The number of binary digits.\<close>

fun bit_len :: "nat \<Rightarrow> int" where
  "bit_len n = (if n = 0 then 0 else bit_len (n div 2) + 1)"

declare bit_len.simps [simp del]

text \<open>\<open>n / d\<close> scaled by \<open>2 ^ - e\<close> and rounded.\<close>

definition scaled :: "nat \<Rightarrow> nat \<Rightarrow> int \<Rightarrow> nat" where
  "scaled n d e = div_half_even (n * pow2 (- e)) (d * pow2 e)"

text \<open>
  The number nearest to \<open>n / d\<close>: the exponent leaves 53 bits, or is the one of the subnormal
  numbers; a significand that rounds up to \<open>2 ^ 53\<close> moves to the next exponent.
\<close>

definition f64_round :: "bool \<Rightarrow> nat \<Rightarrow> nat \<Rightarrow> f64" where
  "f64_round neg n d =
     (if n = 0 then Fin neg 0 0
      else
        (let e0 = bit_len n - bit_len d - 53;
             e1 = (if d * pow2 (e0 + 53) \<le> n * pow2 (- (e0 + 53)) then e0 + 1 else e0);
             e = max (- 1074) e1;
             q = scaled n d e;
             (m, e') = (if q = 2 ^ 53 then (2 ^ 52, e + 1) else (q, e))
         in if m = 0 then Fin neg 0 0
            else if 971 < e' then Infinite neg
            else Fin neg m e'))"

definition f64_of_nat :: "nat \<Rightarrow> f64" where
  "f64_of_nat n = f64_round False n 1"

section \<open>Comparison\<close>

text \<open>The integer \<open>m * 2 ^ (e - c)\<close> for an exponent \<open>c \<le> e\<close>, with its sign.\<close>

definition signed_at :: "int \<Rightarrow> bool \<Rightarrow> nat \<Rightarrow> int \<Rightarrow> int" where
  "signed_at c neg m e = (if neg then - 1 else 1) * int (m * pow2 (e - c))"

fun f64_less :: "f64 \<Rightarrow> f64 \<Rightarrow> bool" where
  "f64_less NaN y = False"
| "f64_less x NaN = False"
| "f64_less (Infinite s) (Infinite t) = (s \<and> \<not> t)"
| "f64_less (Infinite s) (Fin t m e) = s"
| "f64_less (Fin s m e) (Infinite t) = (\<not> t)"
| "f64_less (Fin s m e) (Fin t n f) = (signed_at (min e f) s m e < signed_at (min e f) t n f)"

fun f64_eq :: "f64 \<Rightarrow> f64 \<Rightarrow> bool" where
  "f64_eq NaN y = False"
| "f64_eq x NaN = False"
| "f64_eq (Infinite s) (Infinite t) = (s = t)"
| "f64_eq (Infinite s) (Fin t m e) = False"
| "f64_eq (Fin s m e) (Infinite t) = False"
| "f64_eq (Fin s m e) (Fin t n f) = (signed_at (min e f) s m e = signed_at (min e f) t n f)"

definition f64_le :: "f64 \<Rightarrow> f64 \<Rightarrow> bool" where
  "f64_le x y \<longleftrightarrow> f64_less x y \<or> f64_eq x y"

section \<open>Arithmetic\<close>

definition f64_round_int :: "bool \<Rightarrow> int \<Rightarrow> int \<Rightarrow> f64" where
  "f64_round_int zero_sign z e =
     (if z = 0 then Fin zero_sign 0 0
      else f64_round (z < 0) (nat \<bar>z\<bar> * pow2 e) (pow2 (- e)))"

fun f64_add :: "f64 \<Rightarrow> f64 \<Rightarrow> f64" where
  "f64_add NaN y = NaN"
| "f64_add x NaN = NaN"
| "f64_add (Infinite s) (Infinite t) = (if s = t then Infinite s else NaN)"
| "f64_add (Infinite s) (Fin t m e) = Infinite s"
| "f64_add (Fin s m e) (Infinite t) = Infinite t"
| "f64_add (Fin s m e) (Fin t n f) =
     (let c = min e f in f64_round_int (s \<and> t) (signed_at c s m e + signed_at c t n f) c)"

fun f64_mul :: "f64 \<Rightarrow> f64 \<Rightarrow> f64" where
  "f64_mul NaN y = NaN"
| "f64_mul x NaN = NaN"
| "f64_mul (Infinite s) (Infinite t) = Infinite (s \<noteq> t)"
| "f64_mul (Infinite s) (Fin t m e) = (if m = 0 then NaN else Infinite (s \<noteq> t))"
| "f64_mul (Fin s m e) (Infinite t) = (if m = 0 then NaN else Infinite (s \<noteq> t))"
| "f64_mul (Fin s m e) (Fin t n f) =
     f64_round (s \<noteq> t) (m * n * pow2 (e + f)) (pow2 (- (e + f)))"

fun f64_div :: "f64 \<Rightarrow> f64 \<Rightarrow> f64" where
  "f64_div NaN y = NaN"
| "f64_div x NaN = NaN"
| "f64_div (Infinite s) (Infinite t) = NaN"
| "f64_div (Infinite s) (Fin t m e) = Infinite (s \<noteq> t)"
| "f64_div (Fin s m e) (Infinite t) = Fin (s \<noteq> t) 0 0"
| "f64_div (Fin s m e) (Fin t n f) =
     (if n = 0 then (if m = 0 then NaN else Infinite (s \<noteq> t))
      else f64_round (s \<noteq> t) (m * pow2 (e - f)) (n * pow2 (f - e)))"

text \<open>\<open>iter().sum::<f64>()\<close>.\<close>

definition f64_sum :: "f64 list \<Rightarrow> f64" where
  "f64_sum xs = fold (\<lambda>x acc. f64_add acc x) xs f64_zero"

section \<open>Durations\<close>

definition as_secs_f64 :: "duration \<Rightarrow> f64" where
  "as_secs_f64 d =
     f64_add (f64_of_nat (unat (dur_secs d)))
       (f64_div (f64_of_nat (unat (dur_subsec d))) (f64_of_nat 1000000000))"

definition elapsed_ms_f64 :: "duration \<Rightarrow> f64" where
  "elapsed_ms_f64 d = f64_mul (as_secs_f64 d) (f64_of_nat 1000)"

text \<open>
  The nanoseconds of \<open>m * 2 ^ e\<close> seconds, rounded to the nearest, ties to even.  The second
  count of a duration is a \<open>u64\<close>: anything larger panics, like a negative number and one
  that is not finite.
\<close>

definition secs_to_nanos :: "nat \<Rightarrow> int \<Rightarrow> nat" where
  "secs_to_nanos m e = div_half_even (m * 1000000000 * pow2 e) (pow2 (- e))"

fun from_secs_f64 :: "f64 \<Rightarrow> duration outcome" where
  "from_secs_f64 NaN = Panic"
| "from_secs_f64 (Infinite s) = Panic"
| "from_secs_f64 (Fin neg m e) =
     (if neg \<and> m \<noteq> 0 then Panic
      else
        (let n = secs_to_nanos m e
         in if n < 2 ^ 64 * 1000000000
            then Val (Duration (of_nat (n div 1000000000)) (of_nat (n mod 1000000000)))
            else Panic))"

section \<open>Lemmas\<close>

lemma bit_len_eval [simp]:
  "bit_len 0 = 0" "bit_len (Suc 0) = 1" "bit_len 1 = 1"
  "bit_len (numeral (Num.Bit0 k)) = bit_len (numeral k) + 1"
  "bit_len (numeral (Num.Bit1 k)) = bit_len (numeral k) + 1"
  by (subst bit_len.simps, simp add: bit_len.simps [of 0])+

lemmas f64_eval = f64_round_def f64_of_nat_def pow2_def scaled_def div_half_even_def
  f64_round_int_def signed_at_def

lemma pow2_pos [simp]: "0 < pow2 e"
  by (simp add: pow2_def)

lemma div_half_even_exact: "0 < d \<Longrightarrow> div_half_even (q * d) d = q"
  by (simp add: div_half_even_def)

text \<open>The rounded quotient is within one half.\<close>

lemma div_half_even_near:
  assumes "0 < d"
  shows "2 * (div_half_even n d * d) \<le> 2 * n + d" and "2 * n \<le> 2 * (div_half_even n d * d) + d"
proof -
  have n: "n = n div d * d + n mod d" and r: "n mod d < d" using assms by simp_all
  define q r where "q = n div d" and "r = n mod d"
  have *: "n = q * d + r" "r < d" using n r by (simp_all add: q_def r_def)
  show "2 * (div_half_even n d * d) \<le> 2 * n + d" "2 * n \<le> 2 * (div_half_even n d * d) + d"
    using * by (auto simp: div_half_even_def Let_def q_def [symmetric] r_def [symmetric] algebra_simps)
qed

lemma dur_wf_from_secs_f64: "from_secs_f64 x = Val d \<Longrightarrow> dur_wf d"
proof (cases x)
  case (Fin neg m e)
  have "secs_to_nanos m e mod 1000000000 < 1000000000" by simp
  then show "from_secs_f64 x = Val d \<Longrightarrow> dur_wf d"
    using Fin by (auto simp: dur_wf_def unat_of_nat Let_def split: if_splits)
qed simp_all

lemma from_secs_f64_nanos:
  assumes "from_secs_f64 (Fin neg m e) = Val d"
  shows "dur_nanos d = secs_to_nanos m e"
proof -
  have less: "secs_to_nanos m e < 2 ^ 64 * 1000000000"
    and d: "d = Duration (of_nat (secs_to_nanos m e div 1000000000)) (of_nat (secs_to_nanos m e mod 1000000000))"
    using assms by (auto simp: Let_def split: if_splits)
  then have "secs_to_nanos m e div 1000000000 < 2 ^ 64"
    by (simp add: less_mult_imp_div_less)
  then show ?thesis by (simp add: d dur_nanos_def unat_of_nat)
qed

text \<open>Integers below \<open>2 ^ 53\<close> are exact.\<close>

lemma from_secs_f64_not_panic:
  "\<not> (neg \<and> m \<noteq> 0) \<Longrightarrow> secs_to_nanos m e < 2 ^ 64 * 1000000000 \<Longrightarrow> \<exists>d. from_secs_f64 (Fin neg m e) = Val d"
  by (auto simp: Let_def)

end
