(* ===== verification/Types_Config.thy ===== *)
theory Types_Config
  imports Rust_Str Rust_Time
begin

text \<open>
  \<open>types.rs\<close> and \<open>config.rs\<close>: the result of a download, its error type with the \<open>Display\<close>
  text of every variant, and the downloader's configuration with its defaults.
\<close>

section \<open>Errors and results (types.rs)\<close>

type_synonym path = rstr

datatype download_error =
    HttpStatus (status_code: u16) (status_message: rstr) (retry_after: "duration option")
  | Timeout
  | ConnectionFailed rstr
  | TlsError rstr
  | WriteError rstr
  | ValidationFailed rstr
  | DnsResolutionFailed rstr
  | TooManyRedirects rstr

datatype download_outcome =
    Success (out_path: path) (size_bytes: u64) (content_hash: "rstr option") (elapsed: duration)
  | Failure (out_error: download_error) (elapsed: duration) (retries_attempted: u32)

record download_result =
  url :: rstr
  outcome :: download_outcome

fun error_display :: "download_error \<Rightarrow> rstr" where
  "error_display (HttpStatus code msg ra) =
     lit ''HTTP error '' @ show_nat (unat code) @ lit '': '' @ msg"
| "error_display Timeout = lit ''request timed out''"
| "error_display (ConnectionFailed msg) = lit ''connection failed: '' @ msg"
| "error_display (TlsError msg) = lit ''TLS error: '' @ msg"
| "error_display (WriteError msg) = lit ''write error: '' @ msg"
| "error_display (ValidationFailed msg) = lit ''validation failed: '' @ msg"
| "error_display (DnsResolutionFailed msg) = lit ''DNS resolution failed: '' @ msg"
| "error_display (TooManyRedirects msg) = lit ''too many redirects: '' @ msg"

definition is_success :: "download_result \<Rightarrow> bool" where
  "is_success r = (case outcome r of Success _ _ _ _ \<Rightarrow> True | Failure _ _ _ \<Rightarrow> False)"

text \<open>
  The fields of an error that its \<open>Display\<close> shows: everything but the parsed Retry-After,
  which \<open>types.rs\<close> also leaves out of the serialised form.
\<close>

fun without_retry_after :: "download_error \<Rightarrow> download_error" where
  "without_retry_after (HttpStatus code msg ra) = HttpStatus code msg None"
| "without_retry_after e = e"

text \<open>\<open>map_err\<close> with a message in front.\<close>

definition map_err :: "(rstr \<Rightarrow> download_error) \<Rightarrow> rstr + 'a \<Rightarrow> download_error + 'a" where
  "map_err f r = (case r of Inl e \<Rightarrow> Inl (f e) | Inr x \<Rightarrow> Inr x)"

definition try_map_err ::
    "('w, rstr + 'a) prog \<Rightarrow> (rstr \<Rightarrow> download_error) \<Rightarrow> ('w, download_error + 'a) prog" where
  "try_map_err m f = and_then m (\<lambda>r. ret (map_err f r))"

lemma try_map_err_eq_Val:
  "try_map_err m f s = (Val r, s') \<longleftrightarrow> (\<exists>q. m s = (Val q, s') \<and> r = map_err f q)"
  by (auto simp: try_map_err_def and_then_eq_Val)

lemma map_err_eq [simp]:
  "map_err f q = Inr x \<longleftrightarrow> q = Inr x" "map_err f q = Inl e \<longleftrightarrow> (\<exists>m. q = Inl m \<and> e = f m)"
  "Inr x = map_err f q \<longleftrightarrow> q = Inr x" "Inl e = map_err f q \<longleftrightarrow> (\<exists>m. q = Inl m \<and> e = f m)"
  by (auto simp: map_err_def split: sum.splits)

section \<open>Configuration (config.rs)\<close>

datatype naming_strategy = UrlBased | Sequential | ContentHash | FileHeader

definition naming_strategy_default :: naming_strategy where
  "naming_strategy_default = UrlBased"

record config =
  stream_window_size :: u32
  connections_per_host :: usize
  dns_cache_ttl :: duration
  user_agent :: rstr
  max_redirects :: u8
  max_concurrent_global :: usize
  max_concurrent_per_host :: usize
  max_retries :: u32
  retry_base_delay :: duration
  connect_timeout :: duration
  request_timeout :: duration
  batch_timeout :: "duration option"
  naming_strategy :: naming_strategy
  write_metadata :: bool
  write_summary :: bool

definition config_default :: config where
  "config_default = \<lparr>
     stream_window_size = 524288,
     connections_per_host = 1,
     dns_cache_ttl = from_secs 300,
     user_agent = lit ''imgdl/0.1'',
     max_redirects = 5,
     max_concurrent_global = 200,
     max_concurrent_per_host = 100,
     max_retries = 3,
     retry_base_delay = from_millis 100,
     connect_timeout = from_secs 10,
     request_timeout = from_secs 30,
     batch_timeout = None,
     naming_strategy = naming_strategy_default,
     write_metadata = False,
     write_summary = False\<rparr>"

section \<open>The Display text identifies the error\<close>

lemma show_nat_colon_inj:
  "show_nat m @ 58 # s = show_nat n @ 58 # t \<Longrightarrow> m = n \<and> s = t"
proof -
  assume eq: "show_nat m @ 58 # s = show_nat n @ 58 # t"
  have colon: "58 \<notin> set (show_nat k)" for k
    using show_nat_digits [of 58 k] by (auto simp: is_ascii_digit_def)
  from arg_cong [OF eq, of "split_on 58"] have "show_nat m = show_nat n"
    by (simp add: split_on_append colon)
  with eq show ?thesis using show_nat_inj by auto
qed

lemma error_display_without: "error_display (without_retry_after e) = error_display e"
  by (cases e) simp_all

lemma error_display_inj:
  "error_display e = error_display f \<Longrightarrow> without_retry_after e = without_retry_after f"
  by (cases e; cases f) (auto dest!: show_nat_colon_inj simp: word_unat_eq_iff)

end
