(* ===== verification/Retry.thy ===== *)
theory Retry
  imports Types_Config
begin

text \<open>
  \<open>retry.rs\<close>: which errors are retried, the exponential backoff with its jitter in the
  64-bit arithmetic of the code, and the retry loop as a recursion over the world.  The
  system clock (read for the jitter) and the sleep are the two operations of the
  environment.  The loop is related to the sequence of calls it makes: \<open>world_before k\<close> is
  the world in which the \<open>k\<close>-th call starts, and \<open>call k\<close> is what that call returns.
\<close>

section \<open>Which errors are transient\<close>

fun is_retryable :: "download_error \<Rightarrow> bool" where
  "is_retryable (HttpStatus code msg ra) = (code = 429 \<or> code = 503)"
| "is_retryable Timeout = True"
| "is_retryable (ConnectionFailed msg) = True"
| "is_retryable e = False"

section \<open>Backoff\<close>

definition backoff_base_ms :: "u32 \<Rightarrow> duration \<Rightarrow> u64" where
  "backoff_base_ms attempt base_delay =
     (let multiplier = (case u64_checked_shl 1 attempt of Some m \<Rightarrow> m | None \<Rightarrow> u64_max)
      in u64_saturating_mul (as_millis_u64 base_delay) multiplier)"

text \<open>\<open>nanos\<close> is the sub-second part of the system time.\<close>

definition backoff_jitter :: "u32 \<Rightarrow> u64 \<Rightarrow> u32 \<Rightarrow> u64" where
  "backoff_jitter attempt base_ms nanos =
     (let jitter_range = base_ms div 2
      in if jitter_range > 0
         then (let seed = ucast nanos * 6364136223846793005 + ucast attempt in seed mod jitter_range)
         else 0)"

definition compute_backoff :: "u32 \<Rightarrow> duration \<Rightarrow> duration option \<Rightarrow> u32 \<Rightarrow> duration" where
  "compute_backoff attempt base_delay after nanos = (case after of
      Some ra \<Rightarrow> ra
    | None \<Rightarrow>
        (let base_ms = backoff_base_ms attempt base_delay;
             jitter = backoff_jitter attempt base_ms nanos
         in from_millis (u64_saturating_add base_ms jitter)))"

lemma unat_backoff_base_ms:
  "unat (backoff_base_ms attempt base) = min (unat (as_millis_u64 base) * 2 ^ unat attempt) (2 ^ 64 - 1)"
proof (cases "unat attempt < 64")
  case True
  then show ?thesis
    by (simp add: backoff_base_ms_def u64_checked_shl_def unat_u64_saturating_mul
        unat_two_power_u64)
next
  case False
  define m where "m = unat (as_millis_u64 base)"
  have big: "(2 :: nat) ^ 64 \<le> 2 ^ unat attempt" using False by (intro power_increasing) auto
  have "min (m * (2 ^ 64 - 1)) (2 ^ 64 - 1) = min (m * 2 ^ unat attempt) (2 ^ 64 - 1)"
  proof (cases "m = 0")
    case False
    then have "2 ^ 64 - 1 \<le> m * (2 ^ 64 - 1)" "2 ^ unat attempt \<le> m * 2 ^ unat attempt" by simp_all
    with big show ?thesis by linarith
  qed simp
  with False show ?thesis
    by (simp add: backoff_base_ms_def u64_checked_shl_def unat_u64_saturating_mul m_def)
qed

lemma backoff_jitter_bound: "2 * unat (backoff_jitter attempt b nanos) \<le> unat b"
proof (cases "b div 2 > 0")
  case True
  define s :: u64 where "s = ucast nanos * 6364136223846793005 + ucast attempt"
  have "unat (s mod (b div 2)) < unat (b div 2)"
    using True by (simp add: unat_mod_distrib word_less_nat_alt)
  moreover have "unat (b div 2) = unat b div 2" by (simp add: unat_div_distrib)
  ultimately show ?thesis using True by (simp add: backoff_jitter_def s_def Let_def)
next
  case False
  then show ?thesis by (simp add: backoff_jitter_def)
qed

lemma as_millis_compute_backoff:
  "as_millis (compute_backoff attempt base None nanos) =
     min (unat (backoff_base_ms attempt base)
          + unat (backoff_jitter attempt (backoff_base_ms attempt base) nanos)) (2 ^ 64 - 1)"
  by (simp add: compute_backoff_def Let_def unat_u64_saturating_add)

text \<open>The delay lies between the base of the attempt and one and a half times that base.\<close>

lemma compute_backoff_range:
  fixes attempt :: u32 and base :: duration
  defines "b \<equiv> min (unat (as_millis_u64 base) * 2 ^ unat attempt) (2 ^ 64 - 1)"
  shows "b \<le> as_millis (compute_backoff attempt base None nanos)"
    and "2 * as_millis (compute_backoff attempt base None nanos) \<le> 3 * b"
proof -
  define j where "j = unat (backoff_jitter attempt (backoff_base_ms attempt base) nanos)"
  have j: "2 * j \<le> b" and le: "b \<le> 2 ^ 64 - 1"
    using backoff_jitter_bound [of attempt "backoff_base_ms attempt base" nanos]
    by (simp_all add: j_def b_def unat_backoff_base_ms)
  have d: "as_millis (compute_backoff attempt base None nanos) = min (b + j) (2 ^ 64 - 1)"
    by (simp add: as_millis_compute_backoff unat_backoff_base_ms j_def b_def)
  show "b \<le> as_millis (compute_backoff attempt base None nanos)"
    using le unfolding d by simp
  show "2 * as_millis (compute_backoff attempt base None nanos) \<le> 3 * b"
  proof -
    have "as_millis (compute_backoff attempt base None nanos) \<le> b + j" unfolding d by simp
    with j show ?thesis by linarith
  qed
qed

text \<open>Without saturation every delay is strictly below the next one, whatever the clock shows.\<close>

lemma compute_backoff_grows:
  assumes pos: "0 < unat (as_millis_u64 base)" and n: "unat next = Suc (unat attempt)"
    and fits: "unat (as_millis_u64 base) * 2 ^ Suc (unat attempt) < 2 ^ 64"
  shows "as_millis (compute_backoff attempt base None n1) < as_millis (compute_backoff next base None n2)"
proof -
  define b where "b = unat (as_millis_u64 base) * 2 ^ unat attempt"
  have b: "0 < b" "2 * b < 2 ^ 64" using pos fits by (simp_all add: b_def)
  have "2 * as_millis (compute_backoff attempt base None n1) \<le> 3 * min b (2 ^ 64 - 1)"
    using compute_backoff_range(2) [of attempt base n1] by (simp add: b_def)
  moreover have "min (2 * b) (2 ^ 64 - 1) \<le> as_millis (compute_backoff next base None n2)"
    using compute_backoff_range(1) [of base "next" n2] by (simp add: b_def n mult.left_commute)
  moreover have "min b (2 ^ 64 - 1) = b" "min (2 * b) (2 ^ 64 - 1) = 2 * b" using b(2) by simp_all
  ultimately show ?thesis using b(1) by linarith
qed

section \<open>The retry loop\<close>

record 'w retry_env =
  subsec_nanos :: "'w \<Rightarrow> u32"
  sleep :: "duration \<Rightarrow> 'w \<Rightarrow> 'w"

fun error_retry_after :: "download_error \<Rightarrow> duration option" where
  "error_retry_after (HttpStatus code msg ra) = ra"
| "error_retry_after e = None"

lemma u32_add_one:
  assumes "attempt < (maxr :: u32)"
  shows "u32_add oc attempt 1 = Val (attempt + 1)" and "unat (attempt + 1) = Suc (unat attempt)"
proof -
  have less: "unat attempt < unat maxr" using assms by (simp add: word_less_nat_alt)
  moreover have max: "unat maxr < 2 ^ 32" using unsigned_less [of maxr, where 'a = nat] by simp
  ultimately show "u32_add oc attempt 1 = Val (attempt + 1)" by (simp add: u32_add_def)
  from less max show "unat (attempt + 1) = Suc (unat attempt)" by (simp add: unat_word_ariths)
qed

lemma u32_next_closer: "attempt < (maxr :: u32) \<Longrightarrow> unat maxr - unat (attempt + 1) < unat maxr - unat attempt"
  using u32_add_one(2) [of attempt maxr] by (simp add: word_less_nat_alt)

function with_retry_from ::
    "bool \<Rightarrow> 'w retry_env \<Rightarrow> u32 \<Rightarrow> duration \<Rightarrow> ('w, download_error + 'a) prog \<Rightarrow> u32 \<Rightarrow>
     ('w, (download_error + 'a) \<times> u32) prog" where
  "with_retry_from oc env maxr base_delay operation attempt w =
     (case operation w of
        (Panic, w1) \<Rightarrow> (Panic, w1)
      | (Diverges, w1) \<Rightarrow> (Diverges, w1)
      | (Val (Inr data), w1) \<Rightarrow> (Val (Inr data, attempt), w1)
      | (Val (Inl e), w1) \<Rightarrow>
          if \<not> is_retryable e then (Val (Inl e, attempt), w1)
          else if attempt \<ge> maxr then (Val (Inl e, attempt), w1)
          else
            (let delay = compute_backoff attempt base_delay (error_retry_after e) (subsec_nanos env w1);
                 w2 = sleep env delay w1
             in case u32_add oc attempt 1 of
                  Val attempt' \<Rightarrow> with_retry_from oc env maxr base_delay operation attempt' w2
                | Panic \<Rightarrow> (Panic, w2)
                | Diverges \<Rightarrow> (Diverges, w2)))"
  by pat_completeness auto

termination
proof (relation "measure (\<lambda>(oc, env, maxr, base, op, attempt, w). unat maxr - unat attempt)", goal_cases)
  case 1
  show ?case by simp
next
  case (2 oc env maxr base op attempt w r w1 x e xa w2 attempt')
  then have less: "attempt < maxr" by simp
  with 2 u32_add_one(1) [OF less, of oc] u32_next_closer [OF less] show ?case by auto
qed

declare with_retry_from.simps [simp del]

definition with_retry ::
    "bool \<Rightarrow> 'w retry_env \<Rightarrow> u32 \<Rightarrow> duration \<Rightarrow> ('w, download_error + 'a) prog \<Rightarrow>
     ('w, (download_error + 'a) \<times> u32) prog" where
  "with_retry oc env maxr base_delay operation = with_retry_from oc env maxr base_delay operation 0"

section \<open>The calls the loop makes\<close>

text \<open>
  \<open>world_before k\<close> is the world in which call number \<open>k\<close> starts when every call before it
  failed and was followed by its backoff delay.
\<close>

fun world_before ::
    "'w retry_env \<Rightarrow> duration \<Rightarrow> ('w, download_error + 'a) prog \<Rightarrow> 'w \<Rightarrow> nat \<Rightarrow> 'w" where
  "world_before env base_delay operation w 0 = w"
| "world_before env base_delay operation w (Suc k) =
     (case operation (world_before env base_delay operation w k) of
        (Val (Inl e), w1) \<Rightarrow>
          sleep env (compute_backoff (of_nat k) base_delay (error_retry_after e) (subsec_nanos env w1)) w1
      | (r, w1) \<Rightarrow> w1)"

abbreviation call ::
    "'w retry_env \<Rightarrow> duration \<Rightarrow> ('w, download_error + 'a) prog \<Rightarrow> 'w \<Rightarrow> nat \<Rightarrow>
     (download_error + 'a) outcome \<times> 'w" where
  "call env base_delay operation w k \<equiv> operation (world_before env base_delay operation w k)"

definition retried :: "(download_error + 'a) outcome \<Rightarrow> bool" where
  "retried r \<longleftrightarrow> (\<exists>e. r = Val (Inl e) \<and> is_retryable e)"

text \<open>One unfolding of the loop, by the number of the call it makes.\<close>

lemma with_retry_from_step:
  fixes maxr :: u32
  assumes k: "k \<le> unat maxr"
  shows "with_retry_from oc env maxr base op (of_nat k) (world_before env base op w k) =
     (case call env base op w k of
        (Val r, w1) \<Rightarrow>
          if retried (Val r) \<and> k < unat maxr
          then with_retry_from oc env maxr base op (of_nat (Suc k)) (world_before env base op w (Suc k))
          else (Val (r, of_nat k), w1)
      | (Panic, w1) \<Rightarrow> (Panic, w1)
      | (Diverges, w1) \<Rightarrow> (Diverges, w1))"
proof -
  have max: "unat maxr < 2 ^ 32" using unsigned_less [of maxr, where 'a = nat] by simp
  then have le: "maxr \<le> of_nat k \<longleftrightarrow> unat maxr \<le> k"
    using k by (simp add: word_le_nat_alt unat_of_nat)
  have k32: "unat (of_nat k :: u32) = k"
    using max k by (simp add: unat_of_nat)
  have add: "u32_add oc (of_nat k) 1 = Val (of_nat (Suc k))" if "k < unat maxr"
  proof -
    have "(of_nat k :: u32) < maxr" using that k32 by (simp add: word_less_nat_alt)
    then have "u32_add oc (of_nat k) 1 = Val (of_nat k + 1)" by (rule u32_add_one)
    then show ?thesis by (simp only: of_nat_Suc add.commute)
  qed
  obtain x w1 where c: "call env base op w k = (x, w1)" by fastforce
  show ?thesis
  proof (cases x)
    case (Val r)
    show ?thesis
    proof (cases r)
      case (Inl e)
      show ?thesis
        by (subst with_retry_from.simps) (simp add: c Val Inl le add retried_def Let_def not_le)
    next
      case (Inr a)
      show ?thesis by (subst with_retry_from.simps) (simp add: c Val Inr retried_def)
    qed
  qed (subst with_retry_from.simps, simp add: c)+
qed

text \<open>
  The result of the loop is the result of one call, every earlier call failed with a
  transient error, and the loop stopped there because the call did not, or because it was
  the last one allowed.
\<close>

lemma with_retry_from_iff:
  fixes maxr :: u32
  assumes "k \<le> unat maxr"
  shows "with_retry_from oc env maxr base op (of_nat k) (world_before env base op w k) = (Val (r, n), w') \<longleftrightarrow>
     k \<le> unat n \<and> unat n \<le> unat maxr \<and> call env base op w (unat n) = (Val r, w') \<and>
     (\<forall>j. k \<le> j \<and> j < unat n \<longrightarrow> retried (fst (call env base op w j))) \<and>
     (\<not> retried (Val r) \<or> unat n = unat maxr)"
  using assms
proof (induction "unat maxr - k" arbitrary: k)
  case 0
  then have k: "k = unat maxr" by simp
  obtain x w1 where c: "call env base op w k = (x, w1)" by fastforce
  have "unat (of_nat k :: u32) = k" using k by simp
  then have "n = of_nat k \<longleftrightarrow> unat n = k" by (auto simp: word_unat_eq_iff)
  then show ?case
    using c k by (subst with_retry_from_step) (cases x; auto)+
next
  case (Suc d)
  then have less: "k < unat maxr" and d: "d = unat maxr - Suc k" "Suc k \<le> unat maxr" by simp_all
  have max: "unat maxr < 2 ^ 32" using unsigned_less [of maxr, where 'a = nat] by simp
  obtain x w1 where c: "call env base op w k = (x, w1)" by fastforce
  have "unat (of_nat k :: u32) = k" using less max by (simp add: unat_of_nat)
  then have nk: "n = of_nat k \<longleftrightarrow> unat n = k" by (auto simp: word_unat_eq_iff)
  note IH = Suc.hyps(1) [OF d]
  show ?case
  proof (cases "retried x")
    case True
    then obtain r0 where x: "x = Val r0" by (auto simp: retried_def)
    have step: "with_retry_from oc env maxr base op (of_nat k) (world_before env base op w k) =
        with_retry_from oc env maxr base op (of_nat (Suc k)) (world_before env base op w (Suc k))"
      using True x c less
      by (subst with_retry_from_step) (simp_all del: world_before.simps of_nat_Suc)
    have later: "Suc k \<le> unat n"
      if "k \<le> unat n" "call env base op w (unat n) = (Val r, w')" "\<not> retried (Val r) \<or> unat n = unat maxr"
      using that True x c less by (cases "unat n = k") auto
    have here: "retried (fst (call env base op w j)) \<or> Suc k \<le> j" if "k \<le> j" for j
      using that True c by (cases "j = k") auto
    show ?thesis unfolding step IH using later here by (meson Suc_leD)
  next
    case False
    with c less nk show ?thesis
      by (subst with_retry_from_step) (cases x; auto)+
  qed
qed

lemma with_retry_iff:
  "with_retry oc env maxr base op w = (Val (r, n), w') \<longleftrightarrow>
     unat n \<le> unat maxr \<and> call env base op w (unat n) = (Val r, w') \<and>
     (\<forall>j < unat n. retried (fst (call env base op w j))) \<and>
     (\<not> retried (Val r) \<or> unat n = unat maxr)"
  using with_retry_from_iff [of 0 maxr oc env base op w r n w'] by (simp add: with_retry_def)

text \<open>The loop returns whenever every call does.\<close>

lemma with_retry_from_total:
  assumes total: "\<And>v. \<exists>r v'. op v = (Val r, v')"
  shows "\<exists>r n w'. with_retry_from oc env maxr base op attempt w = (Val (r, n), w')"
proof (induction "unat maxr - unat attempt" arbitrary: attempt w rule: less_induct)
  case less
  obtain r w1 where call: "op w = (Val r, w1)" using total by blast
  show ?case
  proof (cases "retried (Val r) \<and> attempt < maxr")
    case True
    then obtain e where r: "r = Inl e" "is_retryable e" by (auto simp: retried_def)
    have "unat maxr - unat (attempt + 1) < unat maxr - unat attempt"
      using True by (simp add: u32_next_closer)
    from less.hyps [OF this] show ?thesis
      using True r u32_add_one(1) [of attempt maxr oc]
      by (subst with_retry_from.simps) (simp add: call Let_def not_le)
  next
    case False
    then show ?thesis
      by (subst with_retry_from.simps) (cases r; auto simp: call retried_def)
  qed
qed

lemma with_retry_total:
  assumes "\<And>v. \<exists>r v'. op v = (Val r, v')"
  shows "\<exists>r n w'. with_retry oc env maxr base op w = (Val (r, n), w')"
  using with_retry_from_total [OF assms] by (simp add: with_retry_def)

text \<open>It never runs out of fuel when no call does.\<close>

lemma with_retry_from_ends:
  assumes "ends op"
  shows "ends (with_retry_from oc env maxr base op attempt)"
proof -
  have "fst (with_retry_from oc env maxr base op attempt w) \<noteq> Diverges" for attempt w
  proof (induction "unat maxr - unat attempt" arbitrary: attempt w rule: less_induct)
    case less
    obtain x w1 where call: "op w = (x, w1)" by fastforce
    then have x: "x \<noteq> Diverges" using assms by (metis ends_def fst_conv)
    show ?case
    proof (cases "retried x \<and> attempt < maxr")
      case True
      then obtain e where e: "x = Val (Inl e)" "is_retryable e" by (auto simp: retried_def)
      have "unat maxr - unat (attempt + 1) < unat maxr - unat attempt" using True by (simp add: u32_next_closer)
      from less.hyps [OF this] show ?thesis
        using True e u32_add_one(1) [of attempt maxr oc]
        by (subst with_retry_from.simps) (simp add: call Let_def not_le)
    next
      case False
      with x show ?thesis
        by (subst with_retry_from.simps) (auto simp: call retried_def split: prog_cases)
    qed
  qed
  then show ?thesis by (simp add: ends_def)
qed

lemma with_retry_ends: "ends op \<Longrightarrow> ends (with_retry oc env maxr base op)"
  unfolding with_retry_def by (rule with_retry_from_ends)

section \<open>What a retried operation keeps\<close>

text \<open>
  The contract of an operation that is retried: an invariant of the world that the
  operation and the sleep between two attempts keep, whatever the operation returns.
\<close>

locale retried_operation =
  fixes inv :: "'w \<Rightarrow> bool"
    and op :: "('w, download_error + 'a) prog"
    and env :: "'w retry_env"
  assumes op_inv: "inv w \<Longrightarrow> inv (snd (op w))"
    and sleep_inv: "inv w \<Longrightarrow> inv (sleep env d w)"
begin

lemma retry_from_inv: "inv w \<Longrightarrow> inv (snd (with_retry_from oc env maxr base op attempt w))"
proof (induction "unat maxr - unat attempt" arbitrary: attempt w rule: less_induct)
  case less
  obtain x w1 where call: "op w = (x, w1)" by fastforce
  then have w1: "inv w1" using op_inv [OF less.prems] by simp
  show ?case
  proof (cases "retried x \<and> attempt < maxr")
    case True
    then obtain e where x: "x = Val (Inl e)" "is_retryable e" by (auto simp: retried_def)
    have "unat maxr - unat (attempt + 1) < unat maxr - unat attempt"
      using True by (simp add: u32_next_closer)
    from less.hyps [OF this sleep_inv [OF w1]] show ?thesis
      using True x w1 u32_add_one(1) [of attempt maxr oc]
      by (subst with_retry_from.simps) (simp add: call Let_def not_le)
  next
    case False
    with w1 show ?thesis
      by (subst with_retry_from.simps) (auto simp: call retried_def split: prog_cases)
  qed
qed

lemma retry_inv: "inv w \<Longrightarrow> inv (snd (with_retry oc env maxr base op w))"
  by (simp add: with_retry_def retry_from_inv)

end

section \<open>Properties\<close>

text \<open>
  C17.  The retry loop returns the result of one call: the call whose number it reports as
  the retries attempted, at most \<open>max_retries\<close>; every earlier call failed with a
  retryable error and was followed by its backoff delay, and the loop stopped at this one
  because its result is not a retryable error or because it was the last one allowed.
\<close>
theorem with_retry_trace:
  "with_retry oc env maxr base op w = (Val (r, n), w') \<longleftrightarrow>
     unat n \<le> unat maxr \<and> op (world_before env base op w (unat n)) = (Val r, w') \<and>
     (\<forall>j < unat n. retried (fst (op (world_before env base op w j)))) \<and>
     (\<not> retried (Val r) \<or> unat n = unat maxr)"
  by (rule with_retry_iff)

text \<open>
  A server that answers twice with 503 and then with a body: the world counts the calls
  and collects the delays slept.
\<close>

definition demo_op :: "(nat \<times> duration list, download_error + bytes) prog" where
  "demo_op = (\<lambda>(n, ds). if n < 2 then (Val (Inl (HttpStatus 503 [] (Some (from_secs 1)))), (Suc n, ds))
                      else (Val (Inr [1, 2]), (Suc n, ds)))"

definition demo_env :: "(nat \<times> duration list) retry_env" where
  "demo_env = \<lparr>subsec_nanos = (\<lambda>_. 5), sleep = (\<lambda>d (n, ds). (n, ds @ [d]))\<rparr>"

lemma demo_calls:
  "demo_op (0, ds) = (Val (Inl (HttpStatus 503 [] (Some (from_secs 1)))), (1, ds))"
  "demo_op (Suc 0, ds) = (Val (Inl (HttpStatus 503 [] (Some (from_secs 1)))), (2, ds))"
  "demo_op (2, ds) = (Val (Inr [1, 2]), (3, ds))"
  by (simp_all add: demo_op_def)

lemma demo_worlds:
  "world_before demo_env base demo_op (0, []) 0 = (0, [])"
  "world_before demo_env base demo_op (0, []) (Suc 0) = (1, [from_secs 1])"
  "world_before demo_env base demo_op (0, []) (Suc (Suc 0)) = (2, [from_secs 1, from_secs 1])"
  by (simp_all add: demo_calls demo_env_def compute_backoff_def)

theorem with_retry_trace_witness:
  "with_retry True demo_env 3 (from_millis 100) demo_op (0, []) =
     (Val (Inr [1, 2], 2), (3, [from_secs 1, from_secs 1]))"
proof -
  have two: "unat (2 :: u32) = Suc (Suc 0)" by simp
  show ?thesis
    unfolding with_retry_trace two
    by (auto simp: less_Suc_eq demo_worlds demo_calls retried_def simp del: world_before.simps)
qed

text \<open>
  The retry loop terminates: if every call of the operation returns, so does the loop,
  with at most \<open>max_retries\<close> retries, for every limit up to \<open>u32::MAX\<close> and with overflow
  checks on or off.
\<close>
theorem with_retry_terminates:
  assumes "\<And>v. \<exists>r v'. op v = (Val r, v')"
  shows "\<exists>r n w'. with_retry oc env maxr base op w = (Val (r, n), w') \<and> unat n \<le> unat maxr"
proof -
  obtain r n w' where run: "with_retry oc env maxr base op w = (Val (r, n), w')"
    using with_retry_total [of op, OF assms] by blast
  then have "unat n \<le> unat maxr" by (simp add: with_retry_iff)
  with run show ?thesis by (intro exI conjI)
qed

theorem with_retry_terminates_witness:
  "\<exists>r n w'. with_retry True demo_env (- 1) (from_millis 100) demo_op (0, []) = (Val (r, n), w') \<and>
     unat n \<le> unat (- 1 :: u32)"
  by (rule with_retry_terminates) (simp add: demo_op_def split_beta)

text \<open>
  C31.  The backoff delay of attempt \<open>n\<close>, in milliseconds, lies between \<open>base * 2^n\<close>
  (saturated at \<open>u64::MAX\<close>, also where the shift is out of range) and one and a half times
  that, whatever the clock shows.
\<close>
theorem backoff_within_jitter:
  "min (unat (as_millis_u64 base) * 2 ^ unat attempt) (2 ^ 64 - 1)
     \<le> as_millis (compute_backoff attempt base None nanos) \<and>
   2 * as_millis (compute_backoff attempt base None nanos)
     \<le> 3 * min (unat (as_millis_u64 base) * 2 ^ unat attempt) (2 ^ 64 - 1)"
  using compute_backoff_range by blast

text \<open>
  Delays grow strictly from one attempt to the next while nothing saturates: the
  largest delay of an attempt is below the smallest delay of the next one.
\<close>
theorem backoff_strictly_grows:
  assumes "0 < unat (as_millis_u64 base)" and "unat next_attempt = Suc (unat attempt)"
    and "unat (as_millis_u64 base) * 2 ^ Suc (unat attempt) < 2 ^ 64"
  shows "compute_backoff attempt base None n1 < compute_backoff next_attempt base None n2"
proof -
  have wf: "dur_wf (compute_backoff a base None n)" for a n by (simp add: compute_backoff_def Let_def)
  have "as_millis (compute_backoff attempt base None n1) < as_millis (compute_backoff next_attempt base None n2)"
    using compute_backoff_grows [OF assms] .
  then have "dur_nanos (compute_backoff attempt base None n1) < dur_nanos (compute_backoff next_attempt base None n2)"
    by (simp add: as_millis_nanos wf)
  then show ?thesis by (simp add: dur_less_iff_nanos wf)
qed

theorem backoff_strictly_grows_witness:
  "compute_backoff 2 (from_millis 20) None 999999999 < compute_backoff 3 (from_millis 20) None 0"
  by (rule backoff_strictly_grows) simp_all

end
