(* ===== verification/Naming.thy ===== *)
theory Naming
  imports Types_Config
begin

text \<open>
  \<open>output/naming.rs\<close>: the four naming strategies, the detection of the image format from
  magic bytes, the sanitizing of URL segments and the truncation to 200 characters, with
  the byte offsets, slices and the \<open>usize\<close> subtraction of the code.  SHA-256 is the \<open>sha2\<close>
  crate and is a parameter \<open>sha\<close>.  The contract of a naming strategy is the locale
  \<open>name_source\<close>, and \<open>short_ext_source\<close> for those whose extension is bounded; the lemmas
  about truncation are proved in them once and interpreted on the strategies.
\<close>

section \<open>Magic bytes\<close>

definition detect_extension_from_magic_bytes :: "bytes \<Rightarrow> rstr" where
  "detect_extension_from_magic_bytes bs =
     (if length bs \<ge> 3 \<and> bs ! 0 = 0xFF \<and> bs ! 1 = 0xD8 \<and> bs ! 2 = 0xFF then lit ''.jpg''
      else if length bs \<ge> 4 \<and> take 4 bs = [0x89, 0x50, 0x4E, 0x47] then lit ''.png''
      else if length bs \<ge> 4 \<and> take 4 bs = [0x47, 0x49, 0x46, 0x38] then lit ''.gif''
      else if length bs \<ge> 12 \<and> take 4 bs = [0x52, 0x49, 0x46, 0x46]
              \<and> take 4 (drop 8 bs) = [0x57, 0x45, 0x42, 0x50] then lit ''.webp''
      else if length bs \<ge> 8 \<and> take 4 (drop 4 bs) = [0x66, 0x74, 0x79, 0x70] then lit ''.avif''
      else lit ''.bin'')"

section \<open>URL segments\<close>

text \<open>The characters the code names: slash, dot, question mark, hash, dash, underscore.\<close>

abbreviation "ch_slash \<equiv> (47 :: rchar)"
abbreviation "ch_dot \<equiv> (46 :: rchar)"
abbreviation "ch_question \<equiv> (63 :: rchar)"
abbreviation "ch_hash \<equiv> (35 :: rchar)"
abbreviation "ch_dash \<equiv> (45 :: rchar)"
abbreviation "ch_underscore \<equiv> (95 :: rchar)"

definition strip_url_query_and_fragment :: "rstr \<Rightarrow> rstr" where
  "strip_url_query_and_fragment u =
     (let without_query = (case split_first ch_question u of Some p \<Rightarrow> p | None \<Rightarrow> u)
      in case split_first ch_hash without_query of Some p \<Rightarrow> p | None \<Rightarrow> without_query)"

text \<open>
  \<open>to_lowercase\<close> is only reached for extensions of ASCII letters and digits, where it is
  \<open>ascii_lower\<close> on every character.
\<close>

definition extension_from_url :: "rstr \<Rightarrow> rstr option outcome" where
  "extension_from_url u =
     (let path = strip_url_query_and_fragment u
      in case rsplit_first ch_slash path of
           None \<Rightarrow> Val None
         | Some last_segment \<Rightarrow>
             (case rfind ch_dot last_segment of
                None \<Rightarrow> Val None
              | Some dot_pos \<Rightarrow>
                  bind_outcome (slice_from (dot_pos + 1) last_segment) (\<lambda>ext.
                    if ext = [] \<or> byte_len ext > 10 then Val None
                    else if list_all is_ascii_alphanumeric ext then Val (Some (map ascii_lower ext))
                    else Val None)))"

definition sanitize_char :: "rchar \<Rightarrow> rchar" where
  "sanitize_char c = (if is_ascii_alphanumeric c \<or> c = ch_dot \<or> c = ch_dash then c else ch_underscore)"

definition sanitize :: "rstr \<Rightarrow> rstr" where
  "sanitize name = map sanitize_char name"

section \<open>Truncation\<close>

definition truncate_chars :: "rstr \<Rightarrow> rstr outcome" where
  "truncate_chars name =
     (let end_pos = (case iter_nth (char_indices name) 200 of Some (i, _) \<Rightarrow> i | None \<Rightarrow> byte_len name)
      in slice_to end_pos name)"

definition truncate_filename :: "bool \<Rightarrow> rstr \<Rightarrow> rstr outcome" where
  "truncate_filename oc name =
     (if length name \<le> 200 then Val name
      else case rfind ch_dot name of
        Some dot_pos \<Rightarrow>
          bind_outcome (slice_from dot_pos name) (\<lambda>ext.
          bind_outcome (usize_sub oc 200 (length ext)) (\<lambda>max_stem_chars.
            if max_stem_chars > 0 then
              (let stem_end = (case iter_nth (char_indices name) max_stem_chars of
                                 Some (i, _) \<Rightarrow> i | None \<Rightarrow> dot_pos);
                   stem_end = min stem_end dot_pos
               in bind_outcome (slice_to stem_end name) (\<lambda>stem. Val (stem @ ext)))
            else truncate_chars name))
      | None \<Rightarrow> truncate_chars name)"

section \<open>The strategies\<close>

definition hex_prefix :: "nat \<Rightarrow> bytes \<Rightarrow> rstr" where
  "hex_prefix n hash = concat (map hex_byte (take n hash))"

definition last_segment_of :: "rstr \<Rightarrow> rstr" where
  "last_segment_of u =
     (case rsplit_first ch_slash (strip_url_query_and_fragment u) of Some s \<Rightarrow> s | None \<Rightarrow> [])"

definition url_based_name :: "(bytes \<Rightarrow> bytes) \<Rightarrow> rstr \<Rightarrow> rstr outcome" where
  "url_based_name sha u =
     (let segment = last_segment_of u
      in if segment = [] \<or> ch_dot \<notin> set segment
         then Val (hex_prefix 16 (sha (as_bytes u)) @ lit ''.bin'')
         else Val (sanitize segment))"

text \<open>The extension of the URL, or the detected one without its dot.\<close>

definition url_or_magic_ext :: "rstr \<Rightarrow> bytes \<Rightarrow> rstr outcome" where
  "url_or_magic_ext u bs =
     bind_outcome (extension_from_url u) (\<lambda>ext. Val (case ext of
         Some e \<Rightarrow> e
       | None \<Rightarrow> dropWhile (\<lambda>c. c = ch_dot) (detect_extension_from_magic_bytes bs)))"

definition sequential_name :: "nat \<Rightarrow> rstr \<Rightarrow> bytes \<Rightarrow> rstr outcome" where
  "sequential_name index u bs =
     bind_outcome (url_or_magic_ext u bs) (\<lambda>ext. Val (show_nat_pad3 index @ ch_dot # ext))"

definition content_hash_name :: "(bytes \<Rightarrow> bytes) \<Rightarrow> bytes \<Rightarrow> rstr \<Rightarrow> rstr outcome" where
  "content_hash_name sha bs u =
     (let hex = hex_prefix 16 (sha bs)
      in bind_outcome (url_or_magic_ext u bs) (\<lambda>ext. Val (hex @ ch_dot # ext)))"

definition file_header_name :: "(bytes \<Rightarrow> bytes) \<Rightarrow> rstr \<Rightarrow> bytes \<Rightarrow> rstr outcome" where
  "file_header_name sha u bs =
     (let detected_ext = detect_extension_from_magic_bytes bs;
          segment = last_segment_of u
      in if segment = [] \<or> ch_dot \<notin> set segment
         then Val (hex_prefix 8 (sha (as_bytes u)) @ detected_ext)
         else
           (let sanitized = sanitize segment
            in case rfind ch_dot sanitized of
                 Some dot_pos \<Rightarrow> bind_outcome (slice_to dot_pos sanitized) (\<lambda>stem. Val (stem @ detected_ext))
               | None \<Rightarrow> Val (sanitized @ detected_ext)))"

definition generate_filename ::
    "bool \<Rightarrow> (bytes \<Rightarrow> bytes) \<Rightarrow> rstr \<Rightarrow> nat \<Rightarrow> bytes \<Rightarrow> naming_strategy \<Rightarrow> rstr outcome" where
  "generate_filename oc sha u index bs strategy =
     bind_outcome
       (case strategy of
          UrlBased \<Rightarrow> url_based_name sha u
        | Sequential \<Rightarrow> sequential_name index u bs
        | ContentHash \<Rightarrow> content_hash_name sha bs u
        | FileHeader \<Rightarrow> file_header_name sha u bs)
       (truncate_filename oc)"

section \<open>Lemmas: truncation\<close>

lemma char_index_take:
  "n < length s \<Longrightarrow> (case iter_nth (char_indices s) n of Some (i, _) \<Rightarrow> i | None \<Rightarrow> d) = byte_len (take n s)"
  by (simp add: iter_nth_char_indices)

lemma truncate_chars_long: "200 < length name \<Longrightarrow> truncate_chars name = Val (take 200 name)"
  by (simp add: truncate_chars_def char_index_take Let_def)

lemma truncate_short [simp]: "length name \<le> 200 \<Longrightarrow> truncate_filename oc name = Val name"
  by (simp add: truncate_filename_def)

lemma truncate_no_dot: "ch_dot \<notin> set name \<Longrightarrow> truncate_filename oc name = Val (take 200 name)"
  by (cases "length name \<le> 200") (simp_all add: truncate_filename_def truncate_chars_long)

text \<open>A name whose last dot is followed by \<open>t\<close>: the extension \<open>.t\<close> is kept and the stem is cut.\<close>

lemma truncate_keeps_ext:
  assumes name: "name = u @ ch_dot # t" "ch_dot \<notin> set t" and long: "200 < length name"
    and ext: "Suc (length t) < 200"
  shows "truncate_filename oc name = Val (take (199 - length t) u @ ch_dot # t)"
proof -
  define k where "k = 199 - length t"
  have k: "0 < k" "k < length name" "k \<le> length u" using long ext by (simp_all add: k_def name)
  have take_k: "take k name = take k u" using k(3) by (simp add: name)
  have "byte_len (take k u) \<le> byte_len u"
    using byte_len_take_mono [of k "length u" u] k(3) by simp
  then have stem: "min (byte_len (take k u)) (byte_len u) = byte_len (take k u)" by simp
  have cut: "slice_to (byte_len (take k u)) name = Val (take k u)"
    using slice_to_take [of k name] by (simp add: take_k)
  have dot: "rfind ch_dot name = Some (byte_len u)" using name by (simp add: rfind_split)
  have tail: "slice_from (byte_len u) name = Val (ch_dot # t)" by (simp add: name)
  have sub: "usize_sub oc 200 (Suc (length t)) = Val k" using ext by (simp add: k_def)
  show ?thesis
    unfolding truncate_filename_def dot
    using long k(1) by (simp add: tail sub char_index_take [OF k(2)] take_k Let_def stem cut)
      (simp add: k_def)
qed

lemma truncate_ext_200:
  assumes name: "name = u @ ch_dot # t" "ch_dot \<notin> set t" and long: "200 < length name"
    and ext: "Suc (length t) = 200"
  shows "truncate_filename oc name = Val (take 200 name)"
  using long ext unfolding truncate_filename_def
  by (simp add: name rfind_split truncate_chars_long [unfolded name] del: length_append)

text \<open>
  An extension longer than 200 characters makes \<open>200 - ext_chars\<close> underflow: a panic with
  overflow checks, and without them the name is returned as it is.
\<close>

lemma truncate_long_ext:
  assumes name: "name = u @ ch_dot # t" "ch_dot \<notin> set t" and ext: "200 < Suc (length t)"
    and fits: "length name < 2 ^ 63"
  shows "truncate_filename True name = Panic" and "truncate_filename False name = Val name"
proof -
  have dot: "rfind ch_dot name = Some (byte_len u)" using name by (simp add: rfind_split)
  have tail: "slice_from (byte_len u) name = Val (ch_dot # t)" by (simp add: name)
  have long: "\<not> length name \<le> 200" using ext by (simp add: name)
  show "truncate_filename True name = Panic"
    unfolding truncate_filename_def dot using ext long by (simp add: tail usize_sub_def)
  define k where "k = 200 + 2 ^ 64 - Suc (length t)"
  have k: "0 < k" "\<not> k < length name" using fits by (simp_all add: k_def name)
  have sub: "usize_sub False 200 (Suc (length t)) = Val k"
    using ext by (simp add: usize_sub_def k_def)
  have none: "iter_nth (char_indices name) k = None" using k(2) by (simp add: iter_nth_char_indices)
  have stem: "slice_to (byte_len u) name = Val u" by (simp add: name)
  show "truncate_filename False name = Val name"
    unfolding truncate_filename_def dot using long k(1)
    by (simp add: tail sub none stem Let_def) (simp add: name)
qed

text \<open>The reference: the same truncation on characters, without byte offsets.\<close>

definition ext_chars :: "rstr \<Rightarrow> nat" where
  "ext_chars name = Suc (length (takeWhile (\<lambda>c. c \<noteq> ch_dot) (rev name)))"

definition truncate_ref :: "rstr \<Rightarrow> rstr" where
  "truncate_ref name =
     (if length name \<le> 200 then name
      else if ch_dot \<in> set name \<and> ext_chars name < 200
      then take (200 - ext_chars name) name @ drop (length name - ext_chars name) name
      else take 200 name)"

lemma ext_chars_split: "ch_dot \<notin> set t \<Longrightarrow> ext_chars (u @ ch_dot # t) = Suc (length t)"
proof -
  assume "ch_dot \<notin> set t"
  then have "takeWhile (\<lambda>c. c \<noteq> ch_dot) (rev t @ ch_dot # rev u) = rev t"
    by (subst takeWhile_append2) auto
  then show ?thesis by (simp add: ext_chars_def)
qed

lemma truncate_eq_ref:
  assumes "ch_dot \<in> set name \<Longrightarrow> ext_chars name \<le> 200"
  shows "truncate_filename oc name = Val (truncate_ref name)"
proof (cases "length name \<le> 200 \<or> ch_dot \<notin> set name")
  case True
  then show ?thesis by (auto simp: truncate_ref_def truncate_no_dot)
next
  case False
  then obtain u t where name: "name = u @ ch_dot # t" "ch_dot \<notin> set t"
    using split_list_last by metis
  then have ext: "ext_chars name = Suc (length t)" by (simp add: ext_chars_split)
  have long: "200 < length name" using False by simp
  show ?thesis
  proof (cases "Suc (length t) < 200")
    case True
    then have "200 - Suc (length t) \<le> length u" using long by (simp add: name)
    with True long show ?thesis
      using truncate_keeps_ext [OF name long True, of oc] ext
      by (simp add: truncate_ref_def) (simp add: name)
  next
    case short: False
    with assms name ext have "Suc (length t) = 200" by simp
    with truncate_ext_200 [OF name long this, of oc] long show ?thesis
      by (simp add: truncate_ref_def ext)
  qed
qed

lemma set_truncate: "truncate_filename oc name = Val r \<Longrightarrow> length name < 2 ^ 63 \<Longrightarrow> set r \<subseteq> set name"
proof (cases "ch_dot \<in> set name \<and> 200 < ext_chars name")
  case True
  assume run: "truncate_filename oc name = Val r" and fits: "length name < 2 ^ 63"
  from True obtain u t where name: "name = u @ ch_dot # t" "ch_dot \<notin> set t"
    using split_list_last by metis
  then have "200 < Suc (length t)" using True by (simp add: ext_chars_split)
  from truncate_long_ext [OF name this fits] run show ?thesis by (cases oc) simp_all
next
  case False
  assume "truncate_filename oc name = Val r"
  with False truncate_eq_ref [of name oc] have "r = truncate_ref name" by (simp add: not_less)
  then show ?thesis by (auto simp: truncate_ref_def dest: in_set_takeD in_set_dropD)
qed

section \<open>The contract of a naming strategy\<close>

definition safe_char :: "rchar \<Rightarrow> bool" where
  "safe_char c \<longleftrightarrow> is_ascii_alphanumeric c \<or> c = ch_dot \<or> c = ch_dash \<or> c = ch_underscore"

text \<open>A single path component: not empty, no separator, nothing but the safe characters.\<close>

definition name_ok :: "rstr \<Rightarrow> bool" where
  "name_ok n \<longleftrightarrow> n \<noteq> [] \<and> list_all safe_char n"

lemma safe_char_not_slash: "safe_char c \<Longrightarrow> c \<noteq> ch_slash"
  by (auto simp: safe_char_def is_ascii_alphanumeric_def is_ascii_digit_def)

lemma safe_char_digit: "is_ascii_digit c \<Longrightarrow> safe_char c"
  by (simp add: safe_char_def is_ascii_alphanumeric_def)

lemma safe_char_sanitize [simp]: "safe_char (sanitize_char c)"
  by (simp add: safe_char_def sanitize_char_def)

lemma truncate_nonempty:
  assumes "truncate_filename oc n = Val r" "n \<noteq> []" "length n < 2 ^ 63"
  shows "r \<noteq> []"
proof (cases "ch_dot \<in> set n \<and> 200 < ext_chars n")
  case True
  then obtain u t where n: "n = u @ ch_dot # t" "ch_dot \<notin> set t" using split_list_last by metis
  then have "200 < Suc (length t)" using True by (simp add: ext_chars_split)
  from truncate_long_ext [OF n this assms(3)] assms show ?thesis by (cases oc) auto
next
  case False
  then have "r = truncate_ref n" using assms(1) truncate_eq_ref [of n oc] by (simp add: not_less)
  moreover have "ext_chars n \<le> length n" if "ch_dot \<in> set n"
    using that split_list_last [of ch_dot n] by (auto simp: ext_chars_split)
  moreover have "0 < ext_chars n" by (simp add: ext_chars_def)
  ultimately show ?thesis using assms(2) by (auto simp: truncate_ref_def)
qed

locale name_source =
  fixes source :: "'i \<Rightarrow> rstr outcome"
    and fits :: "'i \<Rightarrow> bool"
  assumes source_returns: "\<exists>n. source i = Val n"
    and source_ok: "source i = Val n \<Longrightarrow> name_ok n"
    and source_fits: "fits i \<Longrightarrow> source i = Val n \<Longrightarrow> length n < 2 ^ 63"
begin

lemma truncated_ok:
  assumes "fits i" "bind_outcome (source i) (truncate_filename oc) = Val r"
  shows "name_ok r"
proof -
  from assms(2) obtain n where n: "source i = Val n" "truncate_filename oc n = Val r" by auto
  have "length n < 2 ^ 63" using source_fits [OF assms(1) n(1)] .
  with n source_ok [OF n(1)] set_truncate [of oc n r] truncate_nonempty [of oc n r]
  show ?thesis by (auto simp: name_ok_def list_all_iff)
qed

end

locale short_ext_source = name_source +
  assumes short_ext: "source i = Val n \<Longrightarrow> \<exists>u t. n = u @ ch_dot # t \<and> ch_dot \<notin> set t \<and> length t \<le> 10"
begin

lemma truncated_bounded:
  "\<exists>n u k t. source i = Val n \<and> n = u @ ch_dot # t \<and> ch_dot \<notin> set t \<and> length t \<le> 10 \<and>
     bind_outcome (source i) (truncate_filename oc) = Val (take k u @ ch_dot # t) \<and>
     length (take k u @ ch_dot # t) \<le> 200"
proof -
  obtain n where n: "source i = Val n" using source_returns by blast
  from short_ext [OF n] obtain u t where ut: "n = u @ ch_dot # t" "ch_dot \<notin> set t" "length t \<le> 10"
    by blast
  show ?thesis
  proof (cases "length n \<le> 200")
    case True
    with n ut show ?thesis by (intro exI [of _ n] exI [of _ u] exI [of _ "length u"] exI [of _ t]) simp
  next
    case False
    then have "truncate_filename oc n = Val (take (199 - length t) u @ ch_dot # t)"
      using ut truncate_keeps_ext [of n u t oc] by simp
    with n ut show ?thesis
      by (intro exI [of _ n] exI [of _ u] exI [of _ "199 - length t"] exI [of _ t]) auto
  qed
qed

lemma truncated_returns: "\<exists>r. bind_outcome (source i) (truncate_filename oc) = Val r \<and> length r \<le> 200"
  using truncated_bounded [of i oc] by metis

end

section \<open>The strategies meet it\<close>

lemma last_segment_of_split:
  "ch_slash \<notin> set (last_segment_of u)" "length (last_segment_of u) \<le> length u"
proof -
  have le: "length (strip_url_query_and_fragment u) \<le> length u"
    by (simp add: strip_url_query_and_fragment_def split_first_takeWhile)
      (meson length_takeWhile_le order_trans)
  obtain t where "rsplit_first ch_slash (strip_url_query_and_fragment u) = Some t"
    "ch_slash \<notin> set t" "length t \<le> length (strip_url_query_and_fragment u)"
    using rsplit_first_Some by blast
  with le show "ch_slash \<notin> set (last_segment_of u)" "length (last_segment_of u) \<le> length u"
    by (auto simp: last_segment_of_def)
qed

lemma last_segment_of_append:
  assumes "ch_question \<notin> set (s @ ch_slash # t)" "ch_hash \<notin> set (s @ ch_slash # t)" "ch_slash \<notin> set t"
  shows "last_segment_of (s @ ch_slash # t) = t"
proof -
  have id: "takeWhile (\<lambda>d. d \<noteq> c) v = v" if "c \<notin> set v" for c :: rchar and v
    using that by (induction v) auto
  show ?thesis
    unfolding last_segment_of_def strip_url_query_and_fragment_def split_first_takeWhile
      id [OF assms(1)] option.case Let_def id [OF assms(2)] rsplit_first_append [OF assms(3)] by simp
qed

lemma hex_prefix_alnum: "c \<in> set (hex_prefix n h) \<Longrightarrow> is_ascii_alphanumeric c"
  by (auto simp: hex_prefix_def dest: hex_byte_alnum)

lemma length_hex_prefix: "length (hex_prefix n h) = 2 * min n (length h)"
proof -
  have "length (concat (map hex_byte bs)) = 2 * length bs" for bs by (induction bs) simp_all
  then show ?thesis by (simp add: hex_prefix_def)
qed

lemma detect_shape:
  "\<exists>e. detect_extension_from_magic_bytes bs = ch_dot # e \<and> e \<noteq> [] \<and> length e \<le> 4 \<and> list_all is_ascii_alphanumeric e"
  by (simp add: detect_extension_from_magic_bytes_def is_ascii_alphanumeric_def is_ascii_digit_def)

lemma extension_from_url_returns:
  "\<exists>e. extension_from_url u = Val e \<and> (\<forall>x. e = Some x \<longrightarrow> x \<noteq> [] \<and> length x \<le> 10 \<and> list_all is_ascii_alphanumeric x)"
proof (cases "rsplit_first ch_slash (strip_url_query_and_fragment u)")
  case None
  then show ?thesis by (simp add: extension_from_url_def)
next
  case (Some seg)
  show ?thesis
  proof (cases "rfind ch_dot seg")
    case None
    with Some show ?thesis by (simp add: extension_from_url_def)
  next
    case (Some p)
    then obtain a b where seg: "seg = a @ ch_dot # b" "ch_dot \<notin> set b" "p = byte_len a"
      by (auto simp: rfind_Some)
    have "slice_from (byte_len (a @ [ch_dot])) ((a @ [ch_dot]) @ b) = Val b"
      by (rule slice_from_byte_len)
    then have "slice_from (p + 1) seg = Val b" by (simp add: seg utf8_len_def)
    then show ?thesis
      using \<open>rsplit_first ch_slash (strip_url_query_and_fragment u) = Some seg\<close> Some
        length_le_byte_len [of b]
      by (auto simp: extension_from_url_def list_all_iff)
  qed
qed

lemma alnum_not_dot: "is_ascii_alphanumeric c \<Longrightarrow> c \<noteq> ch_dot"
  by (auto simp: is_ascii_alphanumeric_def is_ascii_digit_def)

lemma url_or_magic_ext_shape:
  "\<exists>e. url_or_magic_ext u bs = Val e \<and> e \<noteq> [] \<and> length e \<le> 10 \<and> list_all is_ascii_alphanumeric e"
proof -
  obtain e where e: "extension_from_url u = Val e"
    "\<And>x. e = Some x \<Longrightarrow> x \<noteq> [] \<and> length x \<le> 10 \<and> list_all is_ascii_alphanumeric x"
    using extension_from_url_returns [of u] by auto
  obtain d where d: "detect_extension_from_magic_bytes bs = ch_dot # d" "d \<noteq> []" "length d \<le> 4"
    "list_all is_ascii_alphanumeric d" using detect_shape by metis
  have "dropWhile (\<lambda>c. c = ch_dot) d = d"
    using d(2,4) by (cases d) (auto dest: alnum_not_dot)
  then show ?thesis using e d by (cases e) (simp_all add: url_or_magic_ext_def)
qed

lemma list_all_no_dot: "list_all is_ascii_alphanumeric e \<Longrightarrow> ch_dot \<notin> set e"
  by (auto simp: list_all_iff dest: alnum_not_dot)

lemma list_all_alnum_safe [simp]: "list_all is_ascii_alphanumeric e \<Longrightarrow> list_all safe_char e"
  by (auto simp: list_all_iff safe_char_def)

lemma safe_dot [simp]: "safe_char ch_dot"
  by (simp add: safe_char_def)

lemma safe_hex [simp]: "list_all safe_char (hex_prefix n h)"
  by (simp add: list_all_iff safe_char_def hex_prefix_alnum)

lemma safe_sanitize [simp]: "list_all safe_char (sanitize s)"
  by (simp add: list_all_iff sanitize_def)

lemma safe_pad3 [simp]: "list_all safe_char (show_nat_pad3 i)"
  by (auto simp: list_all_iff intro: safe_char_digit show_nat_pad3_digits)

lemma safe_detect [simp]: "list_all safe_char (detect_extension_from_magic_bytes bs)"
  using detect_shape [of bs] by auto

lemma safe_lower [simp]: "97 \<le> c \<Longrightarrow> c \<le> 122 \<Longrightarrow> safe_char c"
  by (simp add: safe_char_def is_ascii_alphanumeric_def)

lemma sanitize_simps [simp]:
  "sanitize s = [] \<longleftrightarrow> s = []" "length (sanitize s) = length s"
  by (simp_all add: sanitize_def)

lemma sanitize_dot [simp]: "ch_dot \<in> set (sanitize s) \<longleftrightarrow> ch_dot \<in> set s"
  by (auto simp: sanitize_def sanitize_char_def is_ascii_alphanumeric_def is_ascii_digit_def image_iff
      split: if_splits intro: rev_bexI)

text \<open>The raw name of each strategy.\<close>

lemma url_based_name_eq:
  "url_based_name sha u = Val (if last_segment_of u = [] \<or> ch_dot \<notin> set (last_segment_of u)
     then hex_prefix 16 (sha (as_bytes u)) @ lit ''.bin'' else sanitize (last_segment_of u))"
  by (simp add: url_based_name_def Let_def)

lemma file_header_name_eq:
  "\<exists>stem. file_header_name sha u bs = Val (stem @ detect_extension_from_magic_bytes bs) \<and>
     list_all safe_char stem \<and> (length stem \<le> length u \<or> length stem \<le> 16)"
proof (cases "last_segment_of u = [] \<or> ch_dot \<notin> set (last_segment_of u)")
  case True
  then show ?thesis by (auto simp: file_header_name_def Let_def length_hex_prefix)
next
  case False
  then have "ch_dot \<in> set (sanitize (last_segment_of u))" by simp
  then obtain a b where ab: "sanitize (last_segment_of u) = a @ ch_dot # b" "ch_dot \<notin> set b"
    using split_list_last by metis
  have "length a \<le> length u"
    using last_segment_of_split(2) [of u] arg_cong [OF ab(1), of length] by simp
  moreover have "list_all safe_char a"
    using safe_sanitize [of "last_segment_of u"] by (simp add: ab(1))
  ultimately show ?thesis
    using False by (simp add: file_header_name_def Let_def ab rfind_split)
qed

lemma sequential_name_eq:
  "\<exists>e. sequential_name i u bs = Val (show_nat_pad3 i @ ch_dot # e) \<and> length e \<le> 10 \<and>
     ch_dot \<notin> set e \<and> list_all safe_char e"
  using url_or_magic_ext_shape [of u bs] by (auto simp: sequential_name_def list_all_no_dot)

lemma content_hash_name_eq:
  "\<exists>e. content_hash_name sha bs u = Val (hex_prefix 16 (sha bs) @ ch_dot # e) \<and> length e \<le> 10 \<and>
     ch_dot \<notin> set e \<and> list_all safe_char e"
  using url_or_magic_ext_shape [of u bs] by (auto simp: content_hash_name_def list_all_no_dot)

lemma name_okI: "list_all safe_char n \<Longrightarrow> n \<noteq> [] \<Longrightarrow> name_ok n"
  by (simp add: name_ok_def)

interpretation url_names: name_source "url_based_name sha" "\<lambda>u. length u < 2 ^ 62" for sha
proof unfold_locales
  fix u :: rstr and n
  show "\<exists>n. url_based_name sha u = Val n" by (simp add: url_based_name_eq)
  assume run: "url_based_name sha u = Val n"
  then show "name_ok n" by (simp add: url_based_name_eq name_ok_def) (auto split: if_splits)
  assume "length u < 2 ^ 62"
  with run last_segment_of_split(2) [of u] show "length n < 2 ^ 63"
    by (auto simp: url_based_name_eq length_hex_prefix split: if_splits)
qed

lemma length_show_nat_u64: "i < 2 ^ 64 \<Longrightarrow> length (show_nat_pad3 i) \<le> 20"
  using length_show_nat_bound [of i 20] by (simp add: show_nat_pad3_def)

lemma sequential_generated:
  assumes "generate_filename oc sha u i bs Sequential = Val n" "i < 2 ^ 64"
  shows "\<exists>e. n = show_nat_pad3 i @ ch_dot # e"
proof -
  obtain e where "sequential_name i u bs = Val (show_nat_pad3 i @ ch_dot # e)" "length e \<le> 10"
    using sequential_name_eq by blast
  with assms(1) length_show_nat_u64 [OF assms(2)] show ?thesis by (auto simp: generate_filename_def)
qed

interpretation seq_names: short_ext_source "\<lambda>(i, u, bs). sequential_name i u bs" "\<lambda>(i, u, bs). i < 2 ^ 64"
proof (unfold_locales, safe, goal_cases)
  case (1 i u bs)
  then show ?case using sequential_name_eq [of i u bs] by auto
next
  case (2 i u bs n)
  then show ?case using sequential_name_eq [of i u bs] by (auto intro!: name_okI)
next
  case (3 i u bs n)
  then show ?case using sequential_name_eq [of i u bs] length_show_nat_u64 [of i] by auto
next
  case (4 i u bs n)
  then show ?case using sequential_name_eq [of i u bs] by auto
qed

interpretation hash_names: short_ext_source "\<lambda>(bs, u). content_hash_name sha bs u" "\<lambda>_. True" for sha
proof (unfold_locales, safe, goal_cases)
  case (1 bs u)
  then show ?case using content_hash_name_eq [of sha bs u] by auto
next
  case (2 bs u n)
  then show ?case using content_hash_name_eq [of sha bs u] by (auto intro!: name_okI)
next
  case (3 bs u n)
  then show ?case using content_hash_name_eq [of sha bs u] by (auto simp: length_hex_prefix)
next
  case (4 bs u n)
  then show ?case using content_hash_name_eq [of sha bs u] by auto
qed

lemma file_header_ext:
  "\<exists>stem e. file_header_name sha u bs = Val (stem @ ch_dot # e) \<and> list_all safe_char (stem @ ch_dot # e) \<and>
     (length stem \<le> length u \<or> length stem \<le> 16) \<and> length e \<le> 4 \<and> ch_dot \<notin> set e \<and>
     detect_extension_from_magic_bytes bs = ch_dot # e"
proof -
  obtain e where "detect_extension_from_magic_bytes bs = ch_dot # e" "length e \<le> 4" "list_all is_ascii_alphanumeric e"
    using detect_shape [of bs] by auto
  with file_header_name_eq [of sha u bs] show ?thesis by (auto simp: list_all_no_dot)
qed

interpretation header_names: short_ext_source "\<lambda>(u, bs). file_header_name sha u bs" "\<lambda>(u, bs). length u < 2 ^ 62" for sha
proof (unfold_locales, safe, goal_cases)
  case (1 u bs)
  then show ?case using file_header_ext [of sha u bs] by auto
next
  case (2 u bs n)
  then show ?case using file_header_ext [of sha u bs] by (auto intro!: name_okI)
next
  case (3 u bs n)
  then show ?case using file_header_ext [of sha u bs] by auto
next
  case (4 u bs n)
  then obtain stem e where "n = stem @ ch_dot # e" "length e \<le> 4" "ch_dot \<notin> set e"
    using file_header_ext [of sha u bs] by auto
  then show ?case by (intro exI [of _ stem] exI [of _ e]) simp
qed

section \<open>Properties\<close>

lemma ext_chars_le: "ch_dot \<in> set n \<Longrightarrow> ext_chars n \<le> length n"
  using split_list_last [of ch_dot n] by (auto simp: ext_chars_split)

lemma length_truncate_ref: "200 < length n \<Longrightarrow> length (truncate_ref n) = 200"
  using ext_chars_le [of n] by (auto simp: truncate_ref_def)

lemma truncate_long_length:
  assumes "truncate_filename oc n = Val r" "200 < length n" "length n < 2 ^ 63"
  shows "200 \<le> length r"
proof (cases "ch_dot \<in> set n \<and> 200 < ext_chars n")
  case True
  then obtain u t where n: "n = u @ ch_dot # t" "ch_dot \<notin> set t" using split_list_last by metis
  then have "200 < Suc (length t)" using True by (simp add: ext_chars_split)
  from truncate_long_ext [OF n this assms(3)] assms show ?thesis by (cases oc) auto
next
  case False
  then have "r = truncate_ref n" using assms(1) truncate_eq_ref [of n oc] by (simp add: not_less)
  with assms(2) show ?thesis by (simp add: length_truncate_ref)
qed

text \<open>The names of the current and of the parent directory.\<close>

definition dot_name :: "rstr \<Rightarrow> bool" where
  "dot_name n \<longleftrightarrow> n = lit ''.'' \<or> n = lit ''..''"

lemma dot_name_short: "dot_name n \<Longrightarrow> length n \<le> 2"
  by (auto simp: dot_name_def)

lemma truncate_dot_name:
  "truncate_filename oc n = Val r \<Longrightarrow> dot_name r \<Longrightarrow> length n < 2 ^ 63 \<Longrightarrow> n = r"
  using truncate_long_length [of oc n r] dot_name_short [of r] by (cases "length n \<le> 200") auto

lemma dot_name_append: "dot_name (s @ ch_dot # e) \<Longrightarrow> list_all is_ascii_alphanumeric e \<Longrightarrow> e = []"
  by (cases s; cases e) (auto simp: dot_name_def is_ascii_alphanumeric_def is_ascii_digit_def)

lemma sanitize_char_dot: "sanitize_char c = ch_dot \<longleftrightarrow> c = ch_dot"
  by (auto simp: sanitize_char_def is_ascii_alphanumeric_def is_ascii_digit_def)

lemma dot_name_sanitize: "dot_name (sanitize s) \<Longrightarrow> sanitize s = s"
  by (auto simp: dot_name_def sanitize_def sanitize_char_dot)

text \<open>The name a strategy returns before the truncation.\<close>

definition raw_name :: "(bytes \<Rightarrow> bytes) \<Rightarrow> rstr \<Rightarrow> nat \<Rightarrow> bytes \<Rightarrow> naming_strategy \<Rightarrow> rstr outcome" where
  "raw_name sha u index bs strategy = (case strategy of
      UrlBased \<Rightarrow> url_based_name sha u
    | Sequential \<Rightarrow> sequential_name index u bs
    | ContentHash \<Rightarrow> content_hash_name sha bs u
    | FileHeader \<Rightarrow> file_header_name sha u bs)"

lemma generate_raw: "generate_filename oc sha u i bs st = bind_outcome (raw_name sha u i bs st) (truncate_filename oc)"
  by (simp add: generate_filename_def raw_name_def)

lemma generate_ok:
  assumes "length u < 2 ^ 62" "i < 2 ^ 64" "generate_filename oc sha u i bs st = Val n"
  shows "name_ok n"
proof (cases st)
  case UrlBased
  with assms show ?thesis using url_names.truncated_ok [of u sha oc n] by (simp add: generate_filename_def)
next
  case Sequential
  with assms show ?thesis using seq_names.truncated_ok [of "(i, u, bs)" oc n] by (simp add: generate_filename_def)
next
  case ContentHash
  with assms show ?thesis using hash_names.truncated_ok [where i = "(bs, u)" and sha = sha and oc = oc and r = n] by (simp add: generate_filename_def)
next
  case FileHeader
  with assms show ?thesis using header_names.truncated_ok [of "(u, bs)" sha oc n] by (simp add: generate_filename_def)
qed


lemma alnum_suffix_dot_name:
  assumes "truncate_filename oc (s @ ch_dot # e) = Val n" "dot_name n" "length (s @ ch_dot # e) < 2 ^ 63"
    and "list_all is_ascii_alphanumeric e"
  shows "e = []"
proof -
  have "s @ ch_dot # e = n" using assms(1-3) by (rule truncate_dot_name)
  with assms(2,4) show ?thesis using dot_name_append by blast
qed

text \<open>
  C22.  A generated name is a single path component made of ASCII letters, digits, dots,
  dashes and underscores, whatever the URL, the bytes and the strategy are; and it is
  \<open>.\<close> or \<open>..\<close> only under the \<open>UrlBased\<close> strategy, for a URL whose last segment is
  exactly that.
\<close>
theorem generated_name_safe:
  assumes "length u < 2 ^ 62" and "i < 2 ^ 64"
    and "generate_filename oc sha u i bs st = Val n"
  shows "name_ok n \<and> ch_slash \<notin> set n \<and> (dot_name n \<longrightarrow> st = UrlBased \<and> last_segment_of u = n)"
proof (intro conjI impI)
  show ok: "name_ok n" using assms by (rule generate_ok)
  then show "ch_slash \<notin> set n" by (auto simp: name_ok_def list_all_iff dest: safe_char_not_slash)
  assume dots: "dot_name n"
  show "st = UrlBased"
  proof (cases st)
    case Sequential
    obtain e where "url_or_magic_ext u bs = Val e" "e \<noteq> []" "length e \<le> 10" "list_all is_ascii_alphanumeric e"
      using url_or_magic_ext_shape [of u bs] by blast
    with assms dots Sequential length_show_nat_u64 [of i]
      alnum_suffix_dot_name [of oc "show_nat_pad3 i" e n] show ?thesis
      by (simp add: generate_filename_def sequential_name_def)
  next
    case ContentHash
    obtain e where "url_or_magic_ext u bs = Val e" "e \<noteq> []" "length e \<le> 10" "list_all is_ascii_alphanumeric e"
      using url_or_magic_ext_shape [of u bs] by blast
    moreover from this have "length (hex_prefix 16 (sha bs) @ ch_dot # e) < 2 ^ 63"
      by (simp add: length_hex_prefix)
    ultimately show ?thesis
      using assms(3) dots ContentHash alnum_suffix_dot_name [of oc "hex_prefix 16 (sha bs)" e n]
      by (simp add: generate_filename_def content_hash_name_def Let_def del: length_append)
  next
    case FileHeader
    obtain e where e: "detect_extension_from_magic_bytes bs = ch_dot # e" "e \<noteq> []" "length e \<le> 4"
      "list_all is_ascii_alphanumeric e" using detect_shape [of bs] by auto
    obtain s where s: "file_header_name sha u bs = Val (s @ ch_dot # e)" "length s \<le> length u \<or> length s \<le> 16"
      using file_header_name_eq [of sha u bs] e(1) by auto
    with assms(1) e(3) have "length (s @ ch_dot # e) < 2 ^ 63" by auto
    with assms(3) dots FileHeader s(1) e alnum_suffix_dot_name [of oc s e n] show ?thesis
      by (simp add: generate_filename_def)
  qed simp
  then obtain raw where raw: "url_based_name sha u = Val raw" "truncate_filename oc raw = Val n"
    using assms(3) by (auto simp: generate_filename_def)
  have "length raw < 2 ^ 63" using url_names.source_fits [OF _ raw(1)] assms(1) by simp
  with raw(2) dots have eq: "raw = n" by (rule truncate_dot_name)
  have hash: "\<not> dot_name (h @ lit ''.bin'')" for h
    using dot_name_append [of h "lit ''bin''"] by (auto simp: is_ascii_alphanumeric_def)
  from raw(1) eq dots hash have "n = sanitize (last_segment_of u)"
    by (auto simp: url_based_name_eq split: if_splits)
  with dots dot_name_sanitize [of "last_segment_of u"] show "last_segment_of u = n" by simp
qed

theorem generated_name_safe_witness:
  "name_ok (lit ''..'') \<and> ch_slash \<notin> set (lit ''..'') \<and> last_segment_of (lit ''http://h/..'') = lit ''..''"
proof -
  have "generate_filename True (\<lambda>_. []) (lit ''http://h/..'') 0 [] UrlBased = Val (lit ''..'')"
    by code_simp
  moreover have "dot_name (lit ''..'')" by (simp add: dot_name_def)
  ultimately show ?thesis
    using generated_name_safe [of "lit ''http://h/..''" 0 True "\<lambda>_. []" "[]" UrlBased "lit ''..''"] by simp
qed

text \<open>
  C23.  With every strategy a name is generated without a panic and has at most 200
  characters; for \<open>UrlBased\<close> this needs the part of the last segment from its last dot to be
  at most 200 characters long.
\<close>
theorem generated_name_bounded:
  assumes "st = UrlBased \<Longrightarrow> ch_dot \<in> set (last_segment_of u) \<Longrightarrow> ext_chars (last_segment_of u) \<le> 200"
  shows "\<exists>n. generate_filename oc sha u i bs st = Val n \<and> length n \<le> 200"
proof (cases st)
  case UrlBased
  define raw where "raw = (if last_segment_of u = [] \<or> ch_dot \<notin> set (last_segment_of u)
     then hex_prefix 16 (sha (as_bytes u)) @ lit ''.bin'' else sanitize (last_segment_of u))"
  have "ext_chars (sanitize s) = ext_chars s" for s
    by (simp add: ext_chars_def sanitize_def rev_map takeWhile_map comp_def sanitize_char_dot)
  moreover have "ext_chars (h @ lit ''.bin'') = 4" for h
    using ext_chars_split [of "lit ''bin''" h] by simp
  ultimately have "ch_dot \<in> set raw \<Longrightarrow> ext_chars raw \<le> 200"
    using assms UrlBased by (simp add: raw_def)
  then have "generate_filename oc sha u i bs st = Val (truncate_ref raw)"
    using truncate_eq_ref [of raw oc] by (simp add: UrlBased generate_filename_def url_based_name_eq raw_def)
  then show ?thesis
    using length_truncate_ref [of raw] by (cases "length raw \<le> 200") (simp_all add: truncate_ref_def)
next
  case Sequential
  with seq_names.truncated_returns [where i = "(i, u, bs)" and oc = oc] show ?thesis
    by (simp add: generate_filename_def)
next
  case ContentHash
  with hash_names.truncated_returns [where i = "(bs, u)" and sha = sha and oc = oc] show ?thesis
    by (simp add: generate_filename_def)
next
  case FileHeader
  with header_names.truncated_returns [where i = "(u, bs)" and sha = sha and oc = oc] show ?thesis
    by (simp add: generate_filename_def)
qed

theorem generated_name_bounded_witness:
  "\<exists>n. generate_filename True (\<lambda>b. b) (lit ''https://h/a b.jpeg?size=2'') 0 [] UrlBased = Val n \<and> length n \<le> 200"
proof (rule generated_name_bounded)
  have "ext_chars (last_segment_of (lit ''https://h/a b.jpeg?size=2'')) = 5" by code_simp
  then show "ext_chars (last_segment_of (lit ''https://h/a b.jpeg?size=2'')) \<le> 200" by simp
qed



text \<open>
  C32.  Where the extension is longer than 200 characters the subtraction \<open>200 - ext_chars\<close>
  underflows: naming such a URL panics with overflow checks on, and without them the name is
  not truncated at all.
\<close>
theorem long_extension_underflows:
  assumes "last_segment_of u = s @ ch_dot # t" and "ch_dot \<notin> set t" and "200 \<le> length t"
    and "length u < 2 ^ 62"
  shows "generate_filename True sha u i bs UrlBased = Panic \<and>
     generate_filename False sha u i bs UrlBased = Val (sanitize (last_segment_of u)) \<and>
     200 < length (sanitize (last_segment_of u))"
proof -
  have name: "sanitize (last_segment_of u) = sanitize s @ ch_dot # sanitize t" "ch_dot \<notin> set (sanitize t)"
    using assms(1,2) sanitize_dot [of t] by (simp_all add: sanitize_def sanitize_char_def)
  have fits: "length (sanitize (last_segment_of u)) < 2 ^ 63"
    using last_segment_of_split(2) [of u] assms(4) by simp
  have "200 < Suc (length (sanitize t))" using assms(3) by simp
  from truncate_long_ext [OF name this fits] assms(1,3) show ?thesis
    by (simp add: generate_filename_def url_based_name_eq)
qed

theorem long_extension_underflows_witness:
  "generate_filename True (\<lambda>b. b) (lit ''http://h/a'' @ ch_dot # replicate 200 98) 0 [] UrlBased = Panic"
proof -
  have "last_segment_of (lit ''http://h'' @ ch_slash # (lit ''a'' @ ch_dot # replicate 200 98))
      = lit ''a'' @ ch_dot # replicate 200 98"
    by (rule last_segment_of_append) auto
  then show ?thesis
    using long_extension_underflows [of "lit ''http://h/a'' @ ch_dot # replicate 200 98" "lit ''a''" "replicate 200 98"
      "\<lambda>b. b" 0 "[]"] by simp
qed

text \<open>
  Sequential names do not collide: two downloads of a batch with different indices get
  different names, whatever their URLs and bytes are.
\<close>
theorem sequential_names_injective:
  assumes "i < 2 ^ 64" "j < 2 ^ 64"
    and "generate_filename oc sha u i bs Sequential = Val n"
    and "generate_filename oc' sha' u' j bs' Sequential = Val n"
  shows "i = j"
proof -
  have digits: "takeWhile (\<lambda>c. c \<noteq> ch_dot) (show_nat_pad3 k @ ch_dot # e) = show_nat_pad3 k" for k e
    using show_nat_pad3_digits [of ch_dot k]
    by (subst takeWhile_append2) (auto simp: is_ascii_digit_def)
  obtain e e' where "n = show_nat_pad3 i @ ch_dot # e" "n = show_nat_pad3 j @ ch_dot # e'"
    using sequential_generated [OF assms(3,1)] sequential_generated [OF assms(4,2)] by blast
  then have "show_nat_pad3 i = show_nat_pad3 j" using digits [of i e] digits [of j e'] by simp
  then show ?thesis by (rule show_nat_pad3_inj)
qed

theorem sequential_names_injective_witness:
  "generate_filename True (\<lambda>b. b) (lit ''http://a/x.png'') 7 [] Sequential = Val (lit ''007.png'') \<and>
   (7 :: nat) = 7"
proof
  show run: "generate_filename True (\<lambda>b. b) (lit ''http://a/x.png'') 7 [] Sequential = Val (lit ''007.png'')"
    by code_simp
  show "(7 :: nat) = 7"
    by (rule sequential_names_injective [OF _ _ run run]) simp_all
qed

text \<open>
  A \<open>FileHeader\<close> name ends with the extension detected in the bytes, also when the
  stem had to be truncated.
\<close>
theorem file_header_keeps_extension:
  "\<exists>stem. generate_filename oc sha u i bs FileHeader = Val (stem @ detect_extension_from_magic_bytes bs)"
proof -
  obtain n v k t where t: "file_header_name sha u bs = Val n" "n = v @ ch_dot # t" "ch_dot \<notin> set t"
    "bind_outcome (file_header_name sha u bs) (truncate_filename oc) = Val (take k v @ ch_dot # t)"
    using header_names.truncated_bounded [where i = "(u, bs)" and sha = sha and oc = oc] by auto
  obtain s e where e: "file_header_name sha u bs = Val (s @ ch_dot # e)" "ch_dot \<notin> set e"
    "detect_extension_from_magic_bytes bs = ch_dot # e"
    using file_header_ext [of sha u bs] by auto
  have "n = s @ ch_dot # e" using t(1) e(1) by simp
  with rsplit_first_append [OF t(3), of v] rsplit_first_append [OF e(2), of s] t(2) have "t = e" by simp
  with t(4) e(3) show ?thesis by (auto simp: generate_filename_def)
qed

end
