(* ===== verification/Pool.thy ===== *)
theory Pool
  imports Types_Config "HOL-Library.Sublist"
begin

text \<open>
  \<open>pool.rs\<close>: the per-host connection pools and every operation on them.  Each section of
  code that runs under the lock \<open>host_pools\<close> is a program over the pools and the world of
  the other tasks; \<open>acquire\<close> and \<open>open_and_insert\<close> compose them, with a point of
  interference wherever the code awaits.  The senders of \<open>hyper\<close>, \<open>tokio\<close>'s \<open>Notify\<close> and the
  polling of an HTTP/2 sender are parameters, the types \<open>'h2\<close>, \<open>'h1\<close>, \<open>'n\<close> and the record
  \<open>pool_env\<close>.  The section under the lock is the atomic step of \<open>Pool_System\<close>.
\<close>

text \<open>Keys are pairs that are never taken apart: their quantifiers stay whole.\<close>

declare split_paired_All [simp del] split_paired_Ex [simp del]

section \<open>Data\<close>

type_synonym host_key = "rstr \<times> u16"

definition max_acquire_attempts :: usize where
  "max_acquire_attempts = 32"

definition notify_wait_timeout :: duration where
  "notify_wait_timeout = from_millis 250"

datatype negotiated_protocol = Http2 | Http1

text \<open>An HTTP/1.1 sender is \<open>None\<close> while it is checked out.\<close>

datatype ('h2, 'h1) connection_sender = ConnH2 'h2 | ConnH1 "'h1 option"

record ('h2, 'h1) pooled_connection =
  conn_id :: usize
  conn_sender :: "('h2, 'h1) connection_sender"

record ('h2, 'h1, 'n) host_pool =
  protocol :: negotiated_protocol
  connections :: "('h2, 'h1) pooled_connection list"
  notify :: 'n
  opening_count :: usize
  next_id :: usize

datatype ('h2, 'h1) pool_handle_sender = HandleH2 'h2 | HandleH1 'h1

record ('h2, 'h1) pool_handle =
  handle_sender :: "('h2, 'h1) pool_handle_sender"
  connection_id :: usize

datatype ('h2, 'h1) opened_connection = OpenedH2 'h2 | OpenedH1 'h1

datatype ('h2, 'h1, 'n) acquire_action =
    ReturnExisting "('h2, 'h1) pool_handle"
  | OpenNew bool
  | Wait 'n

datatype h2_status = Ready | AtCapacity | Dead

text \<open>What \<open>poll_ready\<close> of a sender returns.\<close>

datatype poll_result = PollReadyOk | PollReadyErr | PollPending

type_synonym ('h2, 'h1, 'n) host_pools = "host_key \<rightharpoonup> ('h2, 'h1, 'n) host_pool"

type_synonym ('h2, 'h1, 'n, 'w) pool_world = "('h2, 'h1, 'n) host_pools \<times> 'w"

text \<open>
  The operations of \<open>hyper\<close> and \<open>tokio\<close> the pool calls.  \<open>lock_point\<close> and \<open>wait_notified\<close>
  are awaits: other tasks may change the pools there.
\<close>

record ('h2, 'h1, 'n, 'w) pool_env =
  poll_ready :: "'h2 \<Rightarrow> 'w \<Rightarrow> poll_result \<times> 'w"
  new_notify :: "'w \<Rightarrow> 'n \<times> 'w"
  notify_one :: "'n \<Rightarrow> 'w \<Rightarrow> 'w"
  lock_point :: "('h2, 'h1, 'n, 'w) pool_world \<Rightarrow> ('h2, 'h1, 'n, 'w) pool_world"
  wait_notified :: "duration \<Rightarrow> 'n \<Rightarrow> ('h2, 'h1, 'n, 'w) pool_world \<Rightarrow> ('h2, 'h1, 'n, 'w) pool_world"
  open_connection :: "rstr \<Rightarrow> u16 \<Rightarrow>
    (('h2, 'h1, 'n, 'w) pool_world, download_error + ('h2, 'h1) opened_connection) prog"

section \<open>Programs on one entry\<close>

text \<open>A program of the outer world run beside a host's entry, and one of the entry beside it.\<close>

definition on_env :: "('w, 'a) prog \<Rightarrow> ('p \<times> 'w, 'a) prog" where
  "on_env m = (\<lambda>(p, w). case m w of (r, w') \<Rightarrow> (r, (p, w')))"

definition modify :: "('p \<Rightarrow> 'p) \<Rightarrow> ('p \<times> 'w, unit) prog" where
  "modify f = effect (\<lambda>(p, w). (f p, w))"

text \<open>\<open>pools.get_mut(key)\<close>: the changes made to the entry stay, also when the program panics.\<close>

definition on_entry ::
    "host_key \<Rightarrow> (('h2, 'h1, 'n) host_pool \<times> 'w, 'a) prog \<Rightarrow> (('h2, 'h1, 'n, 'w) pool_world, 'a) prog \<Rightarrow>
     (('h2, 'h1, 'n, 'w) pool_world, 'a) prog" where
  "on_entry key m absent = (\<lambda>(pools, w). case pools key of
      None \<Rightarrow> absent (pools, w)
    | Some hp \<Rightarrow> (case m (hp, w) of (r, (hp', w')) \<Rightarrow> (r, (pools(key \<mapsto> hp'), w'))))"

section \<open>HostPool\<close>

definition total_count :: "bool \<Rightarrow> ('h2, 'h1, 'n) host_pool \<Rightarrow> usize outcome" where
  "total_count oc hp = usize_add oc (length (connections hp)) (opening_count hp)"

definition allocate_id :: "bool \<Rightarrow> (('h2, 'h1, 'n) host_pool \<times> 'w, usize) prog" where
  "allocate_id oc =
     and_then (reads (\<lambda>(hp, w). next_id hp)) (\<lambda>i.
     and_then (lift_outcome (usize_add oc i 1)) (\<lambda>i'.
     and_then (modify (\<lambda>hp. hp\<lparr>next_id := i'\<rparr>)) (\<lambda>_. ret i)))"

definition dec_opening :: "bool \<Rightarrow> (('h2, 'h1, 'n) host_pool \<times> 'w, unit) prog" where
  "dec_opening oc =
     and_then (reads (\<lambda>(hp, w). opening_count hp)) (\<lambda>n.
     and_then (lift_outcome (usize_sub oc n 1)) (\<lambda>n'.
     modify (\<lambda>hp. hp\<lparr>opening_count := n'\<rparr>)))"

definition notify_waiter ::
    "('h2, 'h1, 'n, 'w) pool_env \<Rightarrow> (('h2, 'h1, 'n) host_pool \<times> 'w, unit) prog" where
  "notify_waiter env = effect (\<lambda>(hp, w). (hp, notify_one env (notify hp) w))"

section \<open>What an acquirer does next\<close>

definition check_h2_ready :: "('h2, 'h1, 'n, 'w) pool_env \<Rightarrow> 'h2 \<Rightarrow> ('w, h2_status) prog" where
  "check_h2_ready env s = (\<lambda>w. case poll_ready env s w of
      (PollReadyOk, w') \<Rightarrow> (Val Ready, w')
    | (PollReadyErr, w') \<Rightarrow> (Val Dead, w')
    | (PollPending, w') \<Rightarrow> (Val AtCapacity, w'))"

text \<open>The first pass of \<open>h2_action\<close>: \<open>retain\<close> the connections that are not dead.\<close>

fun retain_live ::
    "('h2, 'h1, 'n, 'w) pool_env \<Rightarrow> ('h2, 'h1) pooled_connection list \<Rightarrow>
     ('w, ('h2, 'h1) pooled_connection list) prog" where
  "retain_live env [] = ret []"
| "retain_live env (c # cs) = (case conn_sender c of
      ConnH2 s \<Rightarrow> and_then (check_h2_ready env s) (\<lambda>st.
                  and_then (retain_live env cs) (\<lambda>live. ret (if st = Dead then live else c # live)))
    | ConnH1 _ \<Rightarrow> and_then (retain_live env cs) (\<lambda>live. ret (c # live)))"

text \<open>The second pass: the first HTTP/2 connection that is ready.\<close>

fun find_ready ::
    "('h2, 'h1, 'n, 'w) pool_env \<Rightarrow> ('h2, 'h1) pooled_connection list \<Rightarrow>
     ('w, ('h2, 'h1) pool_handle option) prog" where
  "find_ready env [] = ret None"
| "find_ready env (c # cs) = (case conn_sender c of
      ConnH2 s \<Rightarrow> and_then (check_h2_ready env s) (\<lambda>st.
                  if st = Ready then ret (Some \<lparr>handle_sender = HandleH2 s, connection_id = conn_id c\<rparr>)
                  else find_ready env cs)
    | ConnH1 _ \<Rightarrow> find_ready env cs)"

definition scale_or_wait ::
    "bool \<Rightarrow> config \<Rightarrow> (('h2, 'h1, 'n) host_pool \<times> 'w, ('h2, 'h1, 'n) acquire_action) prog" where
  "scale_or_wait oc cfg =
     and_then (reads fst) (\<lambda>hp.
     and_then (lift_outcome (total_count oc hp)) (\<lambda>total.
     if total < connections_per_host cfg then
       and_then (lift_outcome (usize_add oc (opening_count hp) 1)) (\<lambda>n.
       and_then (modify (\<lambda>hp. hp\<lparr>opening_count := n\<rparr>)) (\<lambda>_. ret (OpenNew False)))
     else ret (Wait (notify hp))))"

definition h2_action ::
    "bool \<Rightarrow> ('h2, 'h1, 'n, 'w) pool_env \<Rightarrow> config \<Rightarrow>
     (('h2, 'h1, 'n) host_pool \<times> 'w, ('h2, 'h1, 'n) acquire_action) prog" where
  "h2_action oc env cfg =
     and_then (reads (\<lambda>(hp, w). connections hp)) (\<lambda>cs.
     and_then (on_env (retain_live env cs)) (\<lambda>live.
     and_then (modify (\<lambda>hp. hp\<lparr>connections := live\<rparr>)) (\<lambda>_.
     and_then (on_env (find_ready env live)) (\<lambda>found. case found of
         Some h \<Rightarrow> ret (ReturnExisting h)
       | None \<Rightarrow> scale_or_wait oc cfg))))"

text \<open>\<open>opt.take()\<close> on the first idle HTTP/1.1 connection.\<close>

fun take_idle ::
    "('h2, 'h1) pooled_connection list \<Rightarrow>
     (('h2, 'h1) pool_handle \<times> ('h2, 'h1) pooled_connection list) option" where
  "take_idle [] = None"
| "take_idle (c # cs) = (case conn_sender c of
      ConnH1 (Some s) \<Rightarrow> Some (\<lparr>handle_sender = HandleH1 s, connection_id = conn_id c\<rparr>,
                              c\<lparr>conn_sender := ConnH1 None\<rparr> # cs)
    | _ \<Rightarrow> (case take_idle cs of None \<Rightarrow> None | Some (h, cs') \<Rightarrow> Some (h, c # cs')))"

definition h1_action ::
    "bool \<Rightarrow> config \<Rightarrow> (('h2, 'h1, 'n) host_pool \<times> 'w, ('h2, 'h1, 'n) acquire_action) prog" where
  "h1_action oc cfg =
     and_then (reads (\<lambda>(hp, w). connections hp)) (\<lambda>cs. case take_idle cs of
         Some (h, cs') \<Rightarrow>
           and_then (modify (\<lambda>hp. hp\<lparr>connections := cs'\<rparr>)) (\<lambda>_. ret (ReturnExisting h))
       | None \<Rightarrow> scale_or_wait oc cfg)"

definition new_host_pool :: "'n \<Rightarrow> ('h2, 'h1, 'n) host_pool" where
  "new_host_pool n =
     \<lparr>protocol = Http2, connections = [], notify = n, opening_count = 1, next_id = 0\<rparr>"

definition determine_action ::
    "bool \<Rightarrow> ('h2, 'h1, 'n, 'w) pool_env \<Rightarrow> config \<Rightarrow> host_key \<Rightarrow>
     (('h2, 'h1, 'n, 'w) pool_world, ('h2, 'h1, 'n) acquire_action) prog" where
  "determine_action oc env cfg key =
     on_entry key
       (and_then (reads (\<lambda>(hp, w). protocol hp)) (\<lambda>p. case p of
            Http2 \<Rightarrow> h2_action oc env cfg
          | Http1 \<Rightarrow> h1_action oc cfg))
       (\<lambda>(pools, w). case new_notify env w of
          (n, w') \<Rightarrow> (Val (OpenNew True), (pools(key \<mapsto> new_host_pool n), w')))"

section \<open>Opening a connection\<close>

definition host_port :: "host_key \<Rightarrow> rstr" where
  "host_port key = fst key @ lit '':'' @ show_nat (unat (snd key))"

definition disappeared_error :: "host_key \<Rightarrow> download_error" where
  "disappeared_error key = ConnectionFailed
     (lit ''pool entry for '' @ host_port key @ lit '' disappeared during connection'')"

definition opened_protocol :: "('h2, 'h1) opened_connection \<Rightarrow> negotiated_protocol" where
  "opened_protocol opened = (case opened of OpenedH2 _ \<Rightarrow> Http2 | OpenedH1 _ \<Rightarrow> Http1)"

definition split_opened ::
    "('h2, 'h1) opened_connection \<Rightarrow> ('h2, 'h1) pool_handle_sender \<times> ('h2, 'h1) connection_sender" where
  "split_opened opened = (case opened of
      OpenedH2 s \<Rightarrow> (HandleH2 s, ConnH2 s)
    | OpenedH1 s \<Rightarrow> (HandleH1 s, ConnH1 None))"

text \<open>The section under the lock after a connection was opened.\<close>

definition insert_opened ::
    "bool \<Rightarrow> host_key \<Rightarrow> bool \<Rightarrow> ('h2, 'h1) opened_connection \<Rightarrow>
     (('h2, 'h1, 'n, 'w) pool_world, download_error + ('h2, 'h1) pool_handle) prog" where
  "insert_opened oc key is_first opened =
     on_entry key
       (and_then (dec_opening oc) (\<lambda>_.
        and_then (modify (\<lambda>hp. if is_first then hp\<lparr>protocol := opened_protocol opened\<rparr> else hp)) (\<lambda>_.
        and_then (allocate_id oc) (\<lambda>i.
        case split_opened opened of (handle_s, pool_s) \<Rightarrow>
        and_then (modify (\<lambda>hp. hp\<lparr>connections :=
            connections hp @ [\<lparr>conn_id = i, conn_sender = pool_s\<rparr>]\<rparr>)) (\<lambda>_.
        ret (Inr \<lparr>handle_sender = handle_s, connection_id = i\<rparr>))))))
       (ret (Inl (disappeared_error key)))"

text \<open>The section under the lock after it could not be opened.\<close>

definition fail_opened ::
    "bool \<Rightarrow> ('h2, 'h1, 'n, 'w) pool_env \<Rightarrow> host_key \<Rightarrow> (('h2, 'h1, 'n, 'w) pool_world, unit) prog" where
  "fail_opened oc env key =
     and_then (on_entry key (dec_opening oc) (ret ())) (\<lambda>_ (pools, w). case pools key of
         None \<Rightarrow> (Val (), (pools, w))
       | Some hp \<Rightarrow>
           if connections hp = [] \<and> opening_count hp = 0
           then (Val (), (pools(key := None), w))
           else on_entry key (notify_waiter env) (ret ()) (pools, w))"

definition open_and_insert ::
    "bool \<Rightarrow> ('h2, 'h1, 'n, 'w) pool_env \<Rightarrow> host_key \<Rightarrow> bool \<Rightarrow>
     (('h2, 'h1, 'n, 'w) pool_world, download_error + ('h2, 'h1) pool_handle) prog" where
  "open_and_insert oc env key is_first =
     and_then (open_connection env (fst key) (snd key)) (\<lambda>r. case r of
         Inr opened \<Rightarrow>
           and_then (effect (lock_point env)) (\<lambda>_. insert_opened oc key is_first opened)
       | Inl e \<Rightarrow>
           and_then (effect (lock_point env)) (\<lambda>_.
           and_then (fail_opened oc env key) (\<lambda>_. ret (Inl e))))"

section \<open>acquire\<close>

definition acquire_timeout_error :: "host_key \<Rightarrow> download_error" where
  "acquire_timeout_error key = ConnectionFailed
     (lit ''pool acquire timeout for '' @ host_port key @ lit '' after '' @
      show_nat max_acquire_attempts @ lit '' attempts'')"

fun acquire_loop ::
    "bool \<Rightarrow> ('h2, 'h1, 'n, 'w) pool_env \<Rightarrow> config \<Rightarrow> host_key \<Rightarrow> nat \<Rightarrow>
     (('h2, 'h1, 'n, 'w) pool_world, download_error + ('h2, 'h1) pool_handle) prog" where
  "acquire_loop oc env cfg key 0 = ret (Inl (acquire_timeout_error key))"
| "acquire_loop oc env cfg key (Suc n) =
     and_then (effect (lock_point env)) (\<lambda>_.
     and_then (determine_action oc env cfg key) (\<lambda>action. case action of
         ReturnExisting h \<Rightarrow> ret (Inr h)
       | OpenNew is_first \<Rightarrow> open_and_insert oc env key is_first
       | Wait nt \<Rightarrow> and_then (effect (wait_notified env notify_wait_timeout nt)) (\<lambda>_.
                    acquire_loop oc env cfg key n)))"

definition acquire ::
    "bool \<Rightarrow> ('h2, 'h1, 'n, 'w) pool_env \<Rightarrow> config \<Rightarrow> rstr \<Rightarrow> u16 \<Rightarrow>
     (('h2, 'h1, 'n, 'w) pool_world, download_error + ('h2, 'h1) pool_handle) prog" where
  "acquire oc env cfg host port = acquire_loop oc env cfg (host, port) max_acquire_attempts"

section \<open>Giving a connection back\<close>

definition notify_h2_complete ::
    "('h2, 'h1, 'n, 'w) pool_env \<Rightarrow> host_key \<Rightarrow> (('h2, 'h1, 'n, 'w) pool_world, unit) prog" where
  "notify_h2_complete env key = on_entry key (notify_waiter env) (ret ())"

fun put_back ::
    "usize \<Rightarrow> 'h1 \<Rightarrow> ('h2, 'h1) pooled_connection list \<Rightarrow> ('h2, 'h1) pooled_connection list" where
  "put_back i s [] = []"
| "put_back i s (c # cs) =
     (if conn_id c = i
      then (case conn_sender c of ConnH1 _ \<Rightarrow> c\<lparr>conn_sender := ConnH1 (Some s)\<rparr> | ConnH2 _ \<Rightarrow> c) # cs
      else c # put_back i s cs)"

definition return_h1_connection ::
    "('h2, 'h1, 'n, 'w) pool_env \<Rightarrow> host_key \<Rightarrow> usize \<Rightarrow> 'h1 \<Rightarrow>
     (('h2, 'h1, 'n, 'w) pool_world, unit) prog" where
  "return_h1_connection env key i s =
     on_entry key
       (and_then (modify (\<lambda>hp. hp\<lparr>connections := put_back i s (connections hp)\<rparr>)) (\<lambda>_.
        notify_waiter env))
       (ret ())"

definition remove_dead_connection ::
    "('h2, 'h1, 'n, 'w) pool_env \<Rightarrow> host_key \<Rightarrow> usize \<Rightarrow> (('h2, 'h1, 'n, 'w) pool_world, unit) prog" where
  "remove_dead_connection env key i =
     on_entry key
       (and_then (modify (\<lambda>hp. hp\<lparr>connections := filter (\<lambda>c. conn_id c \<noteq> i) (connections hp)\<rparr>)) (\<lambda>_.
        notify_waiter env))
       (ret ())"

text \<open>
  \<open>finish_connection\<close> of \<open>orchestrator.rs\<close>, in one section under the lock: what a task does
  with its handle when its request is over.
\<close>

definition give_back ::
    "('h2, 'h1, 'n, 'w) pool_env \<Rightarrow> host_key \<Rightarrow> ('h2, 'h1) pool_handle \<Rightarrow> bool \<Rightarrow>
     (('h2, 'h1, 'n, 'w) pool_world, unit) prog" where
  "give_back env key h usable =
     (if usable then
        (case handle_sender h of
           HandleH1 s \<Rightarrow> return_h1_connection env key (connection_id h) s
         | HandleH2 _ \<Rightarrow> notify_h2_complete env key)
      else
        (case handle_sender h of
           HandleH1 _ \<Rightarrow> remove_dead_connection env key (connection_id h)
         | HandleH2 _ \<Rightarrow> notify_h2_complete env key))"

definition finish_connection ::
    "('h2, 'h1, 'n, 'w) pool_env \<Rightarrow> host_key \<Rightarrow> ('h2, 'h1) pool_handle \<Rightarrow> bool \<Rightarrow>
     (('h2, 'h1, 'n, 'w) pool_world, unit) prog" where
  "finish_connection env key h usable =
     and_then (effect (lock_point env)) (\<lambda>_. give_back env key h usable)"

section \<open>The passes over the connections\<close>

lemma on_env_apply: "on_env m (p, w) = (case m w of (r, w') \<Rightarrow> (r, (p, w')))"
  by (simp add: on_env_def)

lemma modify_apply [simp, prog_simps]: "modify f (p, w) = (Val (), (f p, w))"
  by (simp add: modify_def)

definition is_h1 :: "('h2, 'h1) pooled_connection \<Rightarrow> bool" where
  "is_h1 c = (case conn_sender c of ConnH1 _ \<Rightarrow> True | ConnH2 _ \<Rightarrow> False)"

text \<open>The connection numbered \<open>i\<close>, when an HTTP/1.1 connection that is checked out.\<close>

definition checked_out :: "usize \<Rightarrow> ('h2, 'h1) pooled_connection \<Rightarrow> bool" where
  "checked_out i c \<longleftrightarrow> conn_id c = i \<and> conn_sender c = ConnH1 None"

lemma is_h1_cases [simp]:
  "conn_sender c = ConnH2 s \<Longrightarrow> \<not> is_h1 c" "conn_sender c = ConnH1 x \<Longrightarrow> is_h1 c"
  by (simp_all add: is_h1_def)

lemma checked_out_is_h1: "checked_out i c \<Longrightarrow> is_h1 c"
  by (simp add: checked_out_def is_h1_def)

lemma check_h2_ready_returns: "\<exists>st w'. check_h2_ready env s w = (Val st, w')"
  by (auto simp: check_h2_ready_def split: prod.splits poll_result.splits)

text \<open>
  The first pass always ends, keeps a subsequence of the connections, and drops no
  HTTP/1.1 connection.
\<close>

lemma retain_live_returns:
  "\<exists>live w'. retain_live env cs w = (Val live, w') \<and> subseq live cs \<and> filter is_h1 live = filter is_h1 cs"
proof (induction cs arbitrary: w)
  case Nil
  then show ?case by simp
next
  case (Cons c cs)
  show ?case
  proof (cases "conn_sender c")
    case (ConnH2 s)
    obtain st w1 where st: "check_h2_ready env s w = (Val st, w1)" using check_h2_ready_returns [of env s w] by auto
    obtain live w' where "retain_live env cs w1 = (Val live, w')" "subseq live cs"
      "filter is_h1 live = filter is_h1 cs" using Cons.IH by blast
    with st ConnH2 show ?thesis by (auto simp: and_then_def intro: subseq_Cons')
  next
    case (ConnH1 x)
    obtain live w' where "retain_live env cs w = (Val live, w')" "subseq live cs"
      "filter is_h1 live = filter is_h1 cs" using Cons.IH by blast
    with ConnH1 show ?thesis by (auto simp: and_then_def)
  qed
qed

lemma find_ready_returns:
  "\<exists>r w'. find_ready env cs w = (Val r, w') \<and>
     (\<forall>h. r = Some h \<longrightarrow> (\<exists>c s. c \<in> set cs \<and> conn_sender c = ConnH2 s \<and>
        h = \<lparr>handle_sender = HandleH2 s, connection_id = conn_id c\<rparr>))"
proof (induction cs arbitrary: w)
  case Nil
  then show ?case by simp
next
  case (Cons c cs)
  show ?case
  proof (cases "conn_sender c")
    case (ConnH2 s)
    obtain st w1 where st: "check_h2_ready env s w = (Val st, w1)" using check_h2_ready_returns [of env s w] by auto
    show ?thesis
    proof (cases "st = Ready")
      case True
      with st ConnH2 show ?thesis by (auto simp: and_then_def)
    next
      case False
      with st ConnH2 Cons.IH [of w1] show ?thesis by (auto simp: and_then_def)
    qed
  next
    case (ConnH1 x)
    with Cons.IH [of w] show ?thesis by auto
  qed
qed

lemma count_if_filter: "(\<And>c. P c \<Longrightarrow> Q c) \<Longrightarrow> count_if P (filter Q cs) = count_if P cs"
  by (induction cs) auto

lemma retain_live_checked_out:
  assumes "filter is_h1 live = filter is_h1 cs"
  shows "count_if (checked_out i) live = count_if (checked_out i) cs"
  using count_if_filter [where P = "checked_out i" and Q = is_h1 and cs = live, OF checked_out_is_h1]
    count_if_filter [where P = "checked_out i" and Q = is_h1 and cs = cs, OF checked_out_is_h1] assms by simp

lemma checked_out_cons:
  "count_if (checked_out i) (c # cs) =
     (if conn_id c = i \<and> conn_sender c = ConnH1 None then Suc (count_if (checked_out i) cs)
      else count_if (checked_out i) cs)"
  by (simp add: checked_out_def)

lemma checked_out_absent: "i \<notin> conn_id ` set cs \<Longrightarrow> count_if (checked_out i) cs = 0"
  by (auto simp: count_if_zero checked_out_def)

lemma take_idle_Some:
  "take_idle cs = Some (h, cs') \<Longrightarrow>
     (\<exists>s. handle_sender h = HandleH1 s) \<and> map conn_id cs' = map conn_id cs \<and>
     connection_id h \<in> set (map conn_id cs) \<and>
     (\<forall>i. count_if (checked_out i) cs' = count_if (checked_out i) cs + (if i = connection_id h then 1 else 0))"
proof (induction cs arbitrary: h cs')
  case Nil
  then show ?case by simp
next
  case (Cons c cs)
  then show ?case
    by (auto simp: checked_out_cons simp del: count_if_simps(2)
        split: connection_sender.splits option.splits prod.splits)
qed

lemma take_idle_None: "take_idle cs = None \<longleftrightarrow> (\<forall>c \<in> set cs. \<forall>s. conn_sender c \<noteq> ConnH1 (Some s))"
  by (induction cs) (auto split: connection_sender.splits option.splits)

lemma put_back_ids [simp]: "map conn_id (put_back i s cs) = map conn_id cs"
  by (induction cs) (auto split: connection_sender.splits)

lemma put_back_checked_out:
  "distinct (map conn_id cs) \<Longrightarrow>
     count_if (checked_out j) (put_back i s cs) = (if j = i then 0 else count_if (checked_out j) cs)"
proof (induction cs)
  case Nil
  then show ?case by simp
next
  case (Cons c cs)
  then have "count_if (checked_out (conn_id c)) cs = 0" by (simp add: checked_out_absent)
  with Cons show ?case
    by (auto simp: checked_out_cons simp del: count_if_simps(2) split: connection_sender.splits)
qed

lemma remove_checked_out:
  "count_if (checked_out j) (filter (\<lambda>c. conn_id c \<noteq> i) cs) = (if j = i then 0 else count_if (checked_out j) cs)"
proof (induction cs)
  case Nil
  then show ?case by simp
next
  case (Cons c cs)
  then show ?case by (auto simp: checked_out_cons simp del: count_if_simps(2))
qed

lemma checked_out_at_most_one:
  "distinct (map conn_id cs) \<Longrightarrow> count_if (checked_out i) cs \<le> 1"
proof (induction cs)
  case Nil
  then show ?case by simp
next
  case (Cons c cs)
  then have "count_if (checked_out (conn_id c)) cs = 0" by (simp add: checked_out_absent)
  with Cons show ?case by (auto simp: checked_out_cons simp del: count_if_simps(2))
qed

section \<open>The invariant of an entry\<close>

text \<open>
  The limit on connections, counting those being opened, and connection numbers that are
  distinct and were allocated.  \<open>max 1\<close>: the first connection to a host is opened without
  looking at \<open>connections_per_host\<close>.
\<close>

definition entry_ok :: "config \<Rightarrow> ('h2, 'h1, 'n) host_pool \<Rightarrow> bool" where
  "entry_ok cfg hp \<longleftrightarrow>
     length (connections hp) + opening_count hp \<le> max 1 (connections_per_host cfg) \<and>
     distinct (map conn_id (connections hp)) \<and>
     (\<forall>c \<in> set (connections hp). conn_id c < next_id hp) \<and>
     next_id hp < 2 ^ 64"

definition pools_ok :: "config \<Rightarrow> ('h2, 'h1, 'n) host_pools \<Rightarrow> bool" where
  "pools_ok cfg pools \<longleftrightarrow> (\<forall>key hp. pools key = Some hp \<longrightarrow> entry_ok cfg hp)"

lemma subseq_set: "subseq xs ys \<Longrightarrow> x \<in> set xs \<Longrightarrow> x \<in> set ys"
  by (erule list_emb_set) auto

lemma subseq_distinct_ids: "subseq cs ds \<Longrightarrow> distinct (map conn_id ds) \<Longrightarrow> distinct (map conn_id cs)"
proof (induction cs ds rule: list_emb.induct)
  case (list_emb_Cons2 c d cs ds)
  then show ?case by (auto dest: subseq_set)
qed simp_all

lemma entry_ok_subseq [wf_intros]:
  "entry_ok cfg hp \<Longrightarrow> subseq cs (connections hp) \<Longrightarrow> entry_ok cfg (hp\<lparr>connections := cs\<rparr>)"
  using subseq_distinct_ids [of cs "connections hp"] list_emb_length [of "(=)" cs "connections hp"]
  by (auto simp: entry_ok_def dest: subseq_set)

lemma entry_ok_same_ids [wf_intros]:
  assumes "entry_ok cfg hp" and ids: "map conn_id cs = map conn_id (connections hp)"
  shows "entry_ok cfg (hp\<lparr>connections := cs\<rparr>)"
proof -
  from ids have "length cs = length (connections hp)" by (rule map_eq_imp_length_eq)
  moreover have "conn_id ` set cs = conn_id ` set (connections hp)"
    using ids by (metis list.set_map)
  ultimately show ?thesis
    using assms by (simp add: entry_ok_def) (metis (no_types, lifting) image_iff)
qed

lemma entry_ok_new [simp, wf_intros]: "entry_ok cfg (new_host_pool n)"
  by (simp add: entry_ok_def new_host_pool_def)

lemma pools_ok_update [wf_intros]: "pools_ok cfg pools \<Longrightarrow> entry_ok cfg hp \<Longrightarrow> pools_ok cfg (pools(key \<mapsto> hp))"
  by (simp add: pools_ok_def)

lemma pools_ok_remove [wf_intros]: "pools_ok cfg pools \<Longrightarrow> pools_ok cfg (pools(key := None))"
  by (simp add: pools_ok_def)

lemma pools_okD: "pools_ok cfg pools \<Longrightarrow> pools key = Some hp \<Longrightarrow> entry_ok cfg hp"
  by (cases key) (simp add: pools_ok_def)

section \<open>The sections under the lock\<close>

text \<open>The number of openings of a host and of its connections numbered \<open>i\<close> that are checked out.\<close>

definition opening_of :: "('h2, 'h1, 'n) host_pools \<Rightarrow> host_key \<Rightarrow> nat" where
  "opening_of pools key = (case pools key of None \<Rightarrow> 0 | Some hp \<Rightarrow> opening_count hp)"

definition out_of :: "('h2, 'h1, 'n) host_pools \<Rightarrow> host_key \<Rightarrow> usize \<Rightarrow> nat" where
  "out_of pools key i = (case pools key of None \<Rightarrow> 0 | Some hp \<Rightarrow> count_if (checked_out i) (connections hp))"

text \<open>A handle that owns the HTTP/1.1 connection numbered \<open>i\<close>.\<close>

definition owns :: "('h2, 'h1) pool_handle \<Rightarrow> usize \<Rightarrow> bool" where
  "owns h i \<longleftrightarrow> connection_id h = i \<and> (case handle_sender h of HandleH1 _ \<Rightarrow> True | HandleH2 _ \<Rightarrow> False)"

definition action_owns :: "('h2, 'h1, 'n) acquire_action \<Rightarrow> usize \<Rightarrow> bool" where
  "action_owns a i \<longleftrightarrow> (case a of ReturnExisting h \<Rightarrow> owns h i | _ \<Rightarrow> False)"

definition action_opens :: "('h2, 'h1, 'n) acquire_action \<Rightarrow> bool" where
  "action_opens a \<longleftrightarrow> (case a of OpenNew _ \<Rightarrow> True | _ \<Rightarrow> False)"

lemma action_simps [simp]:
  "action_owns (ReturnExisting h) i = owns h i" "\<not> action_owns (OpenNew f) i" "\<not> action_owns (Wait n) i"
  "\<not> action_opens (ReturnExisting h)" "action_opens (OpenNew f)" "\<not> action_opens (Wait n)"
  by (simp_all add: action_owns_def action_opens_def)

lemma owns_simps [simp]:
  "\<not> owns \<lparr>handle_sender = HandleH2 s, connection_id = j\<rparr> i"
  "owns \<lparr>handle_sender = HandleH1 t, connection_id = j\<rparr> i \<longleftrightarrow> i = j"
  by (auto simp: owns_def)

lemma pools_of_update [simp]:
  "opening_of (pools(key \<mapsto> hp)) key' = (if key' = key then opening_count hp else opening_of pools key')"
  "out_of (pools(key \<mapsto> hp)) key' i =
     (if key' = key then count_if (checked_out i) (connections hp) else out_of pools key' i)"
  "opening_of (pools(key := None)) key' = (if key' = key then 0 else opening_of pools key')"
  "out_of (pools(key := None)) key' i = (if key' = key then 0 else out_of pools key' i)"
  by (simp_all add: opening_of_def out_of_def)

lemma pools_of_Some:
  "pools key = Some hp \<Longrightarrow> opening_of pools key = opening_count hp"
  "pools key = Some hp \<Longrightarrow> out_of pools key i = count_if (checked_out i) (connections hp)"
  by (simp_all add: opening_of_def out_of_def)

lemma pools_of_None:
  "pools key = None \<Longrightarrow> opening_of pools key = 0" "pools key = None \<Longrightarrow> out_of pools key i = 0"
  by (simp_all add: opening_of_def out_of_def)

text \<open>
  What an acquirer's section does to an entry: it ends, keeps the invariant, reserves one
  opening exactly for \<open>OpenNew\<close>, and checks out exactly the connection it returns.
\<close>

definition section_ok ::
    "config \<Rightarrow> ('h2, 'h1, 'n) host_pool \<Rightarrow>
     ('h2, 'h1, 'n) acquire_action outcome \<times> (('h2, 'h1, 'n) host_pool \<times> 'w) \<Rightarrow> bool" where
  "section_ok cfg hp res \<longleftrightarrow> (\<exists>a hp' w'. res = (Val a, (hp', w')) \<and> entry_ok cfg hp' \<and>
     opening_count hp' = opening_count hp + (if action_opens a then 1 else 0) \<and>
     (\<forall>i. count_if (checked_out i) (connections hp') =
        count_if (checked_out i) (connections hp) + (if action_owns a i then 1 else 0)))"

lemma scale_or_wait_eq:
  assumes "entry_ok cfg hp" "connections_per_host cfg < 2 ^ 64"
  shows "scale_or_wait oc cfg (hp, w) =
     (if length (connections hp) + opening_count hp < connections_per_host cfg
      then (Val (OpenNew False), (hp\<lparr>opening_count := Suc (opening_count hp)\<rparr>, w))
      else (Val (Wait (notify hp)), (hp, w)))"
proof -
  have small: "length (connections hp) + opening_count hp < 2 ^ 64"
    using assms by (auto simp: entry_ok_def max_def split: if_splits)
  then have "total_count oc hp = Val (length (connections hp) + opening_count hp)"
    by (simp add: total_count_def)
  moreover have "usize_add oc (opening_count hp) 1 = Val (Suc (opening_count hp))"
    if "length (connections hp) + opening_count hp < connections_per_host cfg"
    using that assms(2) by (subst usize_add_ok) simp_all
  ultimately show ?thesis by (simp add: scale_or_wait_def and_then_def)
qed

lemma scale_or_wait_ok:
  assumes "entry_ok cfg hp" "connections_per_host cfg < 2 ^ 64"
  shows "section_ok cfg hp (scale_or_wait oc cfg (hp, w))"
  using assms by (auto simp: section_ok_def scale_or_wait_eq) (auto simp: entry_ok_def)

lemma h1_action_ok:
  assumes "entry_ok cfg hp" "connections_per_host cfg < 2 ^ 64"
  shows "section_ok cfg hp (h1_action oc cfg (hp, w))"
proof (cases "take_idle (connections hp)")
  case None
  with scale_or_wait_ok [OF assms] show ?thesis by (simp add: h1_action_def)
next
  case (Some r)
  then obtain h cs where r: "take_idle (connections hp) = Some (h, cs)" by (cases r) simp
  from take_idle_Some [OF r] have "entry_ok cfg (hp\<lparr>connections := cs\<rparr>)"
    by (intro entry_ok_same_ids assms(1)) simp
  with take_idle_Some [OF r] r show ?thesis
    by (auto simp: section_ok_def h1_action_def and_then_def owns_def)
qed

lemma h2_action_ok:
  assumes "entry_ok cfg hp" "connections_per_host cfg < 2 ^ 64"
  shows "section_ok cfg hp (h2_action oc env cfg (hp, w))"
proof -
  obtain live w1 where live: "retain_live env (connections hp) w = (Val live, w1)"
    "subseq live (connections hp)" "filter is_h1 live = filter is_h1 (connections hp)"
    using retain_live_returns [of env "connections hp" w] by blast
  define hp1 where "hp1 = hp\<lparr>connections := live\<rparr>"
  have ok: "entry_ok cfg hp1" using assms(1) live(2) by (simp add: hp1_def entry_ok_subseq)
  have same: "opening_count hp1 = opening_count hp"
    "count_if (checked_out i) (connections hp1) = count_if (checked_out i) (connections hp)" for i
    using retain_live_checked_out [OF live(3)] by (simp_all add: hp1_def)
  obtain r w2 where r: "find_ready env live w1 = (Val r, w2)"
    "\<And>h. r = Some h \<Longrightarrow> \<exists>c s. c \<in> set live \<and> conn_sender c = ConnH2 s \<and>
        h = \<lparr>handle_sender = HandleH2 s, connection_id = conn_id c\<rparr>"
    using find_ready_returns [of env live w1] by blast
  have run: "h2_action oc env cfg (hp, w) = (case r of
      Some h \<Rightarrow> (Val (ReturnExisting h), (hp1, w2)) | None \<Rightarrow> scale_or_wait oc cfg (hp1, w2))"
    by (cases r) (simp_all add: h2_action_def on_env_def and_then_def live(1) r(1) hp1_def)
  show ?thesis
  proof (cases r)
    case None
    with scale_or_wait_ok [OF ok assms(2), of oc w2] show ?thesis by (simp add: run section_ok_def same)
  next
    case (Some h)
    then obtain s j where "h = \<lparr>handle_sender = HandleH2 s, connection_id = j\<rparr>" using r(2) by blast
    with Some ok show ?thesis by (simp add: run section_ok_def same)
  qed
qed

lemma determine_action_returns:
  assumes ok: "pools_ok cfg pools" and cph: "connections_per_host cfg < 2 ^ 64"
  shows "\<exists>a hp' w'. determine_action oc env cfg key (pools, w) = (Val a, (pools(key \<mapsto> hp'), w')) \<and>
     entry_ok cfg hp' \<and> opening_count hp' = opening_of pools key + (if action_opens a then 1 else 0) \<and>
     (\<forall>i. count_if (checked_out i) (connections hp') = out_of pools key i + (if action_owns a i then 1 else 0))"
proof (cases "pools key")
  case None
  obtain n w' where "new_notify env w = (n, w')" by fastforce
  with None show ?thesis
    by (intro exI [of _ "OpenNew True"] exI [of _ "new_host_pool n"] exI [of _ w'])
      (simp add: determine_action_def on_entry_def pools_of_None, simp add: new_host_pool_def)
next
  case (Some hp)
  have "section_ok cfg hp ((case protocol hp of Http2 \<Rightarrow> h2_action oc env cfg | Http1 \<Rightarrow> h1_action oc cfg) (hp, w))"
    using h1_action_ok [OF pools_okD [OF ok Some] cph] h2_action_ok [OF pools_okD [OF ok Some] cph]
    by (cases "protocol hp") simp_all
  then obtain a hp' w' where res:
    "(case protocol hp of Http2 \<Rightarrow> h2_action oc env cfg | Http1 \<Rightarrow> h1_action oc cfg) (hp, w) = (Val a, (hp', w'))"
    "entry_ok cfg hp'" "opening_count hp' = opening_count hp + (if action_opens a then 1 else 0)"
    "\<And>i. count_if (checked_out i) (connections hp') =
        count_if (checked_out i) (connections hp) + (if action_owns a i then 1 else 0)"
    by (auto simp: section_ok_def)
  show ?thesis
    by (intro exI [of _ a] exI [of _ hp'] exI [of _ w'])
      (simp add: determine_action_def on_entry_def Some pools_of_Some res(1), simp add: res(2-))
qed

lemma dec_opening_eq:
  "0 < opening_count hp \<Longrightarrow> dec_opening oc (hp, w) = (Val (), (hp\<lparr>opening_count := opening_count hp - 1\<rparr>, w))"
  by (simp add: dec_opening_def and_then_def)

lemma allocate_id_eq:
  "next_id hp + 1 < 2 ^ 64 \<Longrightarrow>
     allocate_id oc (hp, w) = (Val (next_id hp), (hp\<lparr>next_id := Suc (next_id hp)\<rparr>, w))"
  using usize_add_ok [of "next_id hp" 1 oc] by (simp add: allocate_id_def and_then_def)

lemma insert_opened_eq:
  assumes "pools key = Some hp" "0 < opening_count hp" "next_id hp + 1 < 2 ^ 64"
  shows "insert_opened oc key is_first opened (pools, w) =
     (Val (Inr \<lparr>handle_sender = fst (split_opened opened), connection_id = next_id hp\<rparr>),
      (pools(key \<mapsto> hp\<lparr>
         protocol := (if is_first then opened_protocol opened else protocol hp),
         connections := connections hp @ [\<lparr>conn_id = next_id hp, conn_sender = snd (split_opened opened)\<rparr>],
         opening_count := opening_count hp - 1,
         next_id := Suc (next_id hp)\<rparr>), w))"
proof -
  obtain hs ps where so: "split_opened opened = (hs, ps)" by (cases "split_opened opened")
  show ?thesis
    using assms
    by (cases is_first; cases hp) (simp_all add: insert_opened_def on_entry_def and_then_def dec_opening_eq allocate_id_eq so)
qed

lemma checked_out_snoc:
  "i < n \<or> i > n \<Longrightarrow> count_if (checked_out i) (cs @ [\<lparr>conn_id = n, conn_sender = s\<rparr>]) = count_if (checked_out i) cs"
  by (auto simp: checked_out_def)

lemma insert_opened_returns:
  assumes ok: "pools_ok cfg pools" and open_hp: "pools key = Some hp" "0 < opening_count hp"
    and ids: "next_id hp + 1 < 2 ^ 64"
  shows "\<exists>h hp'. insert_opened oc key is_first opened (pools, w) = (Val (Inr h), (pools(key \<mapsto> hp'), w)) \<and>
     entry_ok cfg hp' \<and> Suc (opening_count hp') = opening_of pools key \<and>
     (\<forall>i. count_if (checked_out i) (connections hp') = out_of pools key i + (if owns h i then 1 else 0))"
proof -
  note hp_ok = pools_okD [OF ok open_hp(1)]
  have fresh: "next_id hp \<notin> conn_id ` set (connections hp)" using hp_ok by (auto simp: entry_ok_def)
  define h where "h = \<lparr>handle_sender = fst (split_opened opened), connection_id = next_id hp\<rparr>"
  define hp' where "hp' = hp\<lparr>
         protocol := (if is_first then opened_protocol opened else protocol hp),
         connections := connections hp @ [\<lparr>conn_id = next_id hp, conn_sender = snd (split_opened opened)\<rparr>],
         opening_count := opening_count hp - 1,
         next_id := Suc (next_id hp)\<rparr>"
  have "insert_opened oc key is_first opened (pools, w) = (Val (Inr h), (pools(key \<mapsto> hp'), w))"
    unfolding h_def hp'_def by (rule insert_opened_eq [of pools key hp, OF open_hp ids])
  moreover have "entry_ok cfg hp'" "Suc (opening_count hp') = opening_of pools key"
    using hp_ok open_hp(2) ids fresh
    by (auto simp: hp'_def entry_ok_def pools_of_Some [of pools key hp, OF open_hp(1)] less_Suc_eq)
  moreover have "count_if (checked_out i) (connections hp') = out_of pools key i + (if owns h i then 1 else 0)" for i
    by (cases opened)
      (simp_all add: hp'_def h_def split_opened_def checked_out_def pools_of_Some [of pools key hp, OF open_hp(1)])
  ultimately show ?thesis by blast
qed

lemma notify_waiter_eq: "notify_waiter env (hp, w) = (Val (), (hp, notify_one env (notify hp) w))"
  by (simp add: notify_waiter_def)

lemma fail_opened_eq:
  assumes "pools key = Some hp" "0 < opening_count hp"
  shows "fail_opened oc env key (pools, w) =
     (if connections hp = [] \<and> opening_count hp = 1
      then (Val (), (pools(key := None), w))
      else (Val (), (pools(key \<mapsto> hp\<lparr>opening_count := opening_count hp - 1\<rparr>), notify_one env (notify hp) w)))"
  using assms by (auto simp: fail_opened_def on_entry_def and_then_def dec_opening_eq notify_waiter_eq)

lemma return_h1_eq:
  "return_h1_connection env key i s (pools, w) = (case pools key of
      None \<Rightarrow> (Val (), (pools, w))
    | Some hp \<Rightarrow> (Val (), (pools(key \<mapsto> hp\<lparr>connections := put_back i s (connections hp)\<rparr>),
                          notify_one env (notify hp) w)))"
  by (simp add: return_h1_connection_def on_entry_def and_then_def notify_waiter_eq split: option.splits)

lemma remove_dead_eq:
  "remove_dead_connection env key i (pools, w) = (case pools key of
      None \<Rightarrow> (Val (), (pools, w))
    | Some hp \<Rightarrow> (Val (), (pools(key \<mapsto> hp\<lparr>connections := filter (\<lambda>c. conn_id c \<noteq> i) (connections hp)\<rparr>),
                          notify_one env (notify hp) w)))"
  by (simp add: remove_dead_connection_def on_entry_def and_then_def notify_waiter_eq split: option.splits)

lemma notify_h2_eq:
  "notify_h2_complete env key (pools, w) = (case pools key of
      None \<Rightarrow> (Val (), (pools, w))
    | Some hp \<Rightarrow> (Val (), (pools, notify_one env (notify hp) w)))"
  by (auto simp: notify_h2_complete_def on_entry_def notify_waiter_eq split: option.splits)

lemmas give_back_eqs = return_h1_eq remove_dead_eq notify_h2_eq

lemma entry_ok_remove [wf_intros]:
  "entry_ok cfg hp \<Longrightarrow> entry_ok cfg (hp\<lparr>connections := filter P (connections hp)\<rparr>)"
  by (intro entry_ok_subseq) simp_all

text \<open>
  Giving a handle back always ends, keeps the invariant and every opening, and the
  connection the handle owns is no longer checked out; the others stay as they were.
\<close>

lemma give_back_returns:
  assumes "pools_ok cfg pools"
  shows "\<exists>pools' w'. give_back env key h usable (pools, w) = (Val (), (pools', w')) \<and> pools_ok cfg pools' \<and>
     opening_of pools' = opening_of pools \<and>
     (\<forall>k i. out_of pools' k i = (if k = key \<and> owns h i then 0 else out_of pools k i))"
proof (cases "pools key")
  case None
  then show ?thesis
    using assms by (auto simp: give_back_def give_back_eqs pools_of_None split: pool_handle_sender.split)
next
  case (Some hp)
  note hp_ok = pools_okD [OF assms Some]
  then have ids: "distinct (map conn_id (connections hp))" by (simp add: entry_ok_def)
  show ?thesis
  proof (cases "handle_sender h")
    case (HandleH2 s)
    with Some assms show ?thesis by (simp add: give_back_def give_back_eqs owns_def)
  next
    case (HandleH1 s)
    define cs where "cs = (if usable then put_back (connection_id h) s (connections hp)
      else filter (\<lambda>c. conn_id c \<noteq> connection_id h) (connections hp))"
    have ok: "entry_ok cfg (hp\<lparr>connections := cs\<rparr>)"
      using hp_ok by (simp add: cs_def entry_ok_same_ids entry_ok_remove)
    have out: "count_if (checked_out i) cs = (if i = connection_id h then 0 else out_of pools key i)" for i
      by (simp add: cs_def put_back_checked_out [OF ids] remove_checked_out pools_of_Some [of pools key hp, OF Some])
    show ?thesis
    proof (intro exI conjI)
      show "give_back env key h usable (pools, w) =
          (Val (), (pools(key \<mapsto> hp\<lparr>connections := cs\<rparr>), notify_one env (notify hp) w))"
        by (simp add: give_back_def give_back_eqs HandleH1 Some cs_def)
      show "pools_ok cfg (pools(key \<mapsto> hp\<lparr>connections := cs\<rparr>))" using assms ok by (rule pools_ok_update)
      show "opening_of (pools(key \<mapsto> hp\<lparr>connections := cs\<rparr>)) = opening_of pools"
        by (rule ext) (simp add: pools_of_Some [of pools key hp, OF Some])
    qed (auto simp: owns_def HandleH1 out)
  qed
qed

section \<open>The programs keep the invariant\<close>

text \<open>With overflow checks on, and tasks that keep it wherever the program awaits.\<close>

definition world_ok :: "config \<Rightarrow> ('h2, 'h1, 'n, 'w) pool_world \<Rightarrow> bool" where
  "world_ok cfg pw \<longleftrightarrow> connections_per_host cfg < 2 ^ 64 \<and> pools_ok cfg (fst pw)"

definition env_ok :: "config \<Rightarrow> ('h2, 'h1, 'n, 'w) pool_env \<Rightarrow> bool" where
  "env_ok cfg env \<longleftrightarrow> (\<forall>pw. world_ok cfg pw \<longrightarrow> world_ok cfg (lock_point env pw)) \<and>
     (\<forall>d n pw. world_ok cfg pw \<longrightarrow> world_ok cfg (wait_notified env d n pw)) \<and>
     (\<forall>host port. keeps (world_ok cfg) (open_connection env host port))"

lemma determine_keeps: "keeps (world_ok cfg) (determine_action oc env cfg key)"
proof (rule keepsI, goal_cases)
  case (1 pw)
  then show ?case
    using determine_action_returns [of cfg "fst pw" oc env key "snd pw"]
    by (auto simp: world_ok_def pools_ok_update)
qed

lemma insert_keeps: "keeps (world_ok cfg) (insert_opened True key is_first opened)"
proof (rule keepsI, goal_cases)
  case ok: (1 pw)
  obtain pools w where pw: "pw = (pools, w)" by (cases pw)
  show ?case
  proof (cases "pools key")
    case None
    with ok show ?thesis by (simp add: pw insert_opened_def on_entry_def)
  next
    case (Some hp)
    have hp_ok: "entry_ok cfg hp" using ok Some by (simp add: pw world_ok_def pools_okD [of cfg pools key])
    then have ok': "entry_ok cfg (hp\<lparr>opening_count := n, protocol := p\<rparr>)" if "n \<le> opening_count hp" for n p
      using that by (simp add: entry_ok_def)
    consider "opening_count hp = 0" | "0 < opening_count hp" "next_id hp + 1 < 2 ^ 64"
      | "0 < opening_count hp" "\<not> next_id hp + 1 < 2 ^ 64" by linarith
    then show ?thesis
    proof cases
      case 1
      with ok Some show ?thesis
        by (simp add: pw insert_opened_def on_entry_def dec_opening_def usize_sub_def and_then_def map_upd_triv)
    next
      case 2
      with ok insert_opened_returns [of cfg pools key hp True is_first opened w] Some show ?thesis
        by (auto simp: pw world_ok_def pools_ok_update)
    next
      case 3
      with ok Some ok' [of "opening_count hp - 1" "protocol hp"] ok' [of "opening_count hp - 1" "opened_protocol opened"]
      show ?thesis
        by (cases is_first)
          (simp_all add: pw insert_opened_def on_entry_def dec_opening_eq allocate_id_def usize_add_def
            and_then_def world_ok_def pools_ok_update)
    qed
  qed
qed

lemma fail_keeps: "keeps (world_ok cfg) (fail_opened True env key)"
proof (rule keepsI, goal_cases)
  case ok: (1 pw)
  obtain pools w where pw: "pw = (pools, w)" by (cases pw)
  show ?case
  proof (cases "pools key")
    case None
    with ok show ?thesis by (simp add: pw fail_opened_def on_entry_def and_then_def)
  next
    case (Some hp)
    have hp_ok: "entry_ok cfg hp" using ok Some by (simp add: pw world_ok_def pools_okD [of cfg pools key])
    then have "entry_ok cfg (hp\<lparr>opening_count := opening_count hp - 1\<rparr>)" by (auto simp: entry_ok_def)
    with ok Some fail_opened_eq [of pools key hp True env w] show ?thesis
      by (cases "opening_count hp = 0")
        (simp_all add: pw fail_opened_def on_entry_def dec_opening_def usize_sub_def and_then_def map_upd_triv
          world_ok_def pools_ok_update pools_ok_remove)
  qed
qed

lemma give_back_keeps: "keeps (world_ok cfg) (give_back env key h usable)"
proof (rule keepsI, goal_cases)
  case (1 pw)
  then show ?case
    using give_back_returns [of cfg "fst pw" env key h usable "snd pw"] by (auto simp: world_ok_def)
qed

lemma env_okD:
  assumes "env_ok cfg env"
  shows "keeps (world_ok cfg) (effect (lock_point env))"
    and "keeps (world_ok cfg) (effect (wait_notified env d n))"
    and "keeps (world_ok cfg) (open_connection env host port)"
  using assms by (simp_all add: env_ok_def keeps_effect)

lemma acquire_keeps:
  assumes "env_ok cfg env"
  shows "keeps (world_ok cfg) (acquire True env cfg host port)"
proof -
  note await = env_okD [OF assms]
  have opened: "keeps (world_ok cfg) (open_and_insert True env key f)" for key f
    unfolding open_and_insert_def
    by (intro keeps_and_then await) (auto simp del: and_then_effect split: sum.split intro!: keeps_and_then await insert_keeps fail_keeps)
  have "keeps (world_ok cfg) (acquire_loop True env cfg key n)" for key n
  proof (induction n)
    case 0
    show ?case by (simp only: acquire_loop.simps keeps_ret)
  next
    case (Suc n)
    then show ?case
      by (auto simp del: and_then_effect split: acquire_action.split intro!: keeps_and_then await determine_keeps opened)
  qed
  then show ?thesis by (simp add: acquire_def)
qed

lemma finish_connection_keeps:
  "env_ok cfg env \<Longrightarrow> keeps (world_ok cfg) (finish_connection env key h usable)"
  unfolding finish_connection_def by (intro keeps_and_then env_okD give_back_keeps)

section \<open>The pool as its client sees it\<close>

text \<open>
  A client borrows a connection, uses it, and gives it back with what became of it.  If the
  source and the use keep an invariant of the world, the whole does, also when no connection
  is to be had or the use panics.
\<close>

locale connection_source =
  fixes inv :: "'w \<Rightarrow> bool"
    and borrow :: "'key \<Rightarrow> ('w, download_error + 'handle) prog"
    and give :: "'key \<Rightarrow> 'handle \<Rightarrow> bool \<Rightarrow> ('w, unit) prog"
  assumes borrow_inv: "inv w \<Longrightarrow> inv (snd (borrow key w))"
    and give_inv: "inv w \<Longrightarrow> inv (snd (give key h usable w))"
begin

lemma borrowed_inv:
  assumes "\<And>h w. inv w \<Longrightarrow> inv (snd (use h w))" "inv w"
  shows "inv (snd (try_then (borrow key) (\<lambda>h. and_then (use h) (\<lambda>r. and_then (give key h (usable r)) (\<lambda>_. ret r))) w))"
proof -
  have "keeps inv (try_then (borrow key) (\<lambda>h. and_then (use h) (\<lambda>r. and_then (give key h (usable r)) (\<lambda>_. ret r))))"
    by (intro keeps_try_then keeps_and_then keeps_ret keepsI borrow_inv give_inv assms(1))
  then show ?thesis using assms(2) by (rule keepsD)
qed

end

interpretation pooled: connection_source "\<lambda>pw. env_ok cfg env \<and> world_ok cfg pw"
  "\<lambda>(host, port). acquire True env cfg host port" "finish_connection env"
  for cfg and env :: "('h2, 'h1, 'n, 'w) pool_env"
proof unfold_locales
  fix pw :: "('h2, 'h1, 'n, 'w) pool_world" and key assume ok: "env_ok cfg env \<and> world_ok cfg pw"
  show "env_ok cfg env \<and> world_ok cfg (snd ((case key of (host, port) \<Rightarrow> acquire True env cfg host port) pw))"
    using ok keepsD [where w = pw, OF acquire_keeps [where cfg = cfg and env = env]] by (cases key) simp
next
  fix pw :: "('h2, 'h1, 'n, 'w) pool_world" and key h usable assume ok: "env_ok cfg env \<and> world_ok cfg pw"
  show "env_ok cfg env \<and> world_ok cfg (snd (finish_connection env key h usable pw))"
    using ok keepsD [OF finish_connection_keeps] by blast
qed

section \<open>acquire ends\<close>

text \<open>No section under the lock loops: none of them runs out of fuel.\<close>

lemma ends_modify [simp]: "ends (modify h)"
  by (auto simp: ends_def modify_def)

lemma ends_on_env: "(\<And>w. \<exists>x w'. m w = (Val x, w')) \<Longrightarrow> ends (on_env m)"
  unfolding ends_def on_env_def by (auto split: prod.splits; metis Pair_inject outcome.distinct(3))

lemma ends_on_entry: "ends m \<Longrightarrow> ends absent \<Longrightarrow> ends (on_entry key m absent)"
  unfolding ends_def on_entry_def by (auto split: prod.splits option.splits; metis fst_conv)

lemma scale_ends: "ends (scale_or_wait oc cfg)"
  by (auto simp: scale_or_wait_def total_count_def simp del: and_then_reads intro!: ends_and_then)

lemma h1_action_ends: "ends (h1_action oc cfg)"
  by (auto simp: h1_action_def simp del: and_then_reads split: option.split intro!: ends_and_then scale_ends)

lemma determine_ends: "ends (determine_action oc env cfg key)"
proof -
  have passes: "\<exists>x w'. retain_live env cs w = (Val x, w')" "\<exists>x w'. find_ready env cs w = (Val x, w')" for cs w
    using retain_live_returns [of env cs w] find_ready_returns [of env cs w] by blast+
  moreover have "ends (h2_action oc env cfg)"
    unfolding h2_action_def
    by (intro ends_and_then ends_on_env ends_simps ends_modify passes) (auto split: option.split intro: scale_ends)
  moreover have "ends (\<lambda>(pools, w). case new_notify env w of
      (n, w') \<Rightarrow> (Val (OpenNew True), (pools(key \<mapsto> new_host_pool n), w')))"
    by (auto simp: ends_def split: prod.splits)
  ultimately show ?thesis
    unfolding determine_action_def
    by (intro ends_on_entry ends_and_then) (auto split: negotiated_protocol.split intro: h1_action_ends)
qed

lemma opened_ends:
  assumes "ends (open_connection env (fst key) (snd key))"
  shows "ends (open_and_insert oc env key is_first)"
proof -
  have dec: "ends (dec_opening oc)"
    by (auto simp: dec_opening_def simp del: and_then_reads intro!: ends_and_then)
  have "ends (insert_opened oc key is_first opened)" for opened
    by (auto simp: insert_opened_def allocate_id_def simp del: and_then_reads split: prod.split intro!: ends_on_entry ends_and_then dec)
  moreover have "ends (fail_opened oc env key)"
    unfolding fail_opened_def
    by (intro ends_and_then ends_on_entry dec)
      (auto simp: ends_def on_entry_def notify_waiter_def split: option.split prod.split)
  ultimately show ?thesis
    unfolding open_and_insert_def
    by (intro ends_and_then assms) (auto simp del: and_then_effect split: sum.split intro!: ends_and_then)
qed

lemma acquire_ends:
  assumes "\<And>host port. ends (open_connection env host port)"
  shows "ends (acquire oc env cfg host port)"
proof -
  have "ends (acquire_loop oc env cfg key n)" for key n
  proof (induction n)
    case 0
    show ?case by (simp only: acquire_loop.simps ends_simps)
  next
    case (Suc n)
    then show ?case
      by (auto simp del: and_then_effect split: acquire_action.split intro!: ends_and_then determine_ends opened_ends assms)
  qed
  then show ?thesis by (simp add: acquire_def)
qed

end
