(* ===== verification/Pool_System.thy ===== *)
theory Pool_System
  imports Pool
begin

text \<open>
  The pool shared by concurrent tasks.  A task is idle (or between two rounds of the loop in
  \<open>acquire\<close>), is opening a connection it reserved, or holds a handle; every step of the
  relation \<open>pool_step\<close> is one section of \<open>pool.rs\<close> under the lock, by any task, on any
  host.  The world of the environment (the state of the connections) may change between
  any two steps.  With \<open>cancels\<close> a task may also be dropped at any await, which is what
  the batch timeout of the orchestrator does.  The steps are those in which the 64-bit
  connection numbers of a host do not run out.
\<close>

section \<open>Tasks and steps\<close>

datatype ('h2, 'h1) task =
    Idle
  | Opening host_key bool
  | Holding host_key "('h2, 'h1) pool_handle"

datatype ('h2, 'h1, 'n, 'w) pool_system =
  System (sys_pools: "('h2, 'h1, 'n) host_pools") (sys_world: 'w) (sys_tasks: "('h2, 'h1) task list")

definition after_action :: "host_key \<Rightarrow> ('h2, 'h1, 'n) acquire_action \<Rightarrow> ('h2, 'h1) task" where
  "after_action key a = (case a of
      ReturnExisting h \<Rightarrow> Holding key h | OpenNew is_first \<Rightarrow> Opening key is_first | Wait _ \<Rightarrow> Idle)"

definition after_insert :: "host_key \<Rightarrow> download_error + ('h2, 'h1) pool_handle \<Rightarrow> ('h2, 'h1) task" where
  "after_insert key r = (case r of Inr h \<Rightarrow> Holding key h | Inl _ \<Rightarrow> Idle)"

definition ids_left :: "('h2, 'h1, 'n) host_pools \<Rightarrow> host_key \<Rightarrow> bool" where
  "ids_left pools key = (case pools key of None \<Rightarrow> True | Some hp \<Rightarrow> next_id hp + 1 < 2 ^ 64)"

inductive pool_step ::
    "bool \<Rightarrow> ('h2, 'h1, 'n, 'w) pool_env \<Rightarrow> config \<Rightarrow> bool \<Rightarrow>
     ('h2, 'h1, 'n, 'w) pool_system \<Rightarrow> ('h2, 'h1, 'n, 'w) pool_system \<Rightarrow> bool"
  for oc env cfg cancels where
  step_acquire:
    "i < length ts \<Longrightarrow> ts ! i = Idle \<Longrightarrow>
     determine_action oc env cfg key (pools, w) = (Val a, (pools', w')) \<Longrightarrow>
     pool_step oc env cfg cancels (System pools w ts) (System pools' w' (ts[i := after_action key a]))"
| step_opened:
    "i < length ts \<Longrightarrow> ts ! i = Opening key is_first \<Longrightarrow> ids_left pools key \<Longrightarrow>
     insert_opened oc key is_first opened (pools, w) = (Val r, (pools', w')) \<Longrightarrow>
     pool_step oc env cfg cancels (System pools w ts) (System pools' w' (ts[i := after_insert key r]))"
| step_open_failed:
    "i < length ts \<Longrightarrow> ts ! i = Opening key is_first \<Longrightarrow>
     fail_opened oc env key (pools, w) = (Val u, (pools', w')) \<Longrightarrow>
     pool_step oc env cfg cancels (System pools w ts) (System pools' w' (ts[i := Idle]))"
| step_give_back:
    "i < length ts \<Longrightarrow> ts ! i = Holding key h \<Longrightarrow>
     give_back env key h usable (pools, w) = (Val u, (pools', w')) \<Longrightarrow>
     pool_step oc env cfg cancels (System pools w ts) (System pools' w' (ts[i := Idle]))"
| step_cancel:
    "cancels \<Longrightarrow> i < length ts \<Longrightarrow>
     pool_step oc env cfg cancels (System pools w ts) (System pools w (ts[i := Idle]))"
| step_world:
    "pool_step oc env cfg cancels (System pools w ts) (System pools w' ts)"

inductive_cases pool_stepE: "pool_step oc env cfg cancels (System pools w ts) s'"

text \<open>At the start there is no entry and every task is idle; \<open>connections_per_host\<close> is a \<open>usize\<close>.\<close>

definition pool_init :: "config \<Rightarrow> ('h2, 'h1, 'n, 'w) pool_system \<Rightarrow> bool" where
  "pool_init cfg s \<longleftrightarrow> connections_per_host cfg < 2 ^ 64 \<and> sys_pools s = Map.empty \<and> (\<forall>t \<in> set (sys_tasks s). t = Idle)"

abbreviation pool_reachable where
  "pool_reachable oc env cfg cancels \<equiv> reachable (pool_init cfg) (pool_step oc env cfg cancels)"

section \<open>The invariant\<close>

definition is_opening :: "host_key \<Rightarrow> ('h2, 'h1) task \<Rightarrow> bool" where
  "is_opening key t \<longleftrightarrow> (case t of Opening k _ \<Rightarrow> k = key | _ \<Rightarrow> False)"

definition holds :: "host_key \<Rightarrow> usize \<Rightarrow> ('h2, 'h1) task \<Rightarrow> bool" where
  "holds key i t \<longleftrightarrow> (case t of Holding k h \<Rightarrow> k = key \<and> owns h i | _ \<Rightarrow> False)"

lemma task_simps [simp]:
  "\<not> is_opening key Idle" "is_opening key (Opening k f) \<longleftrightarrow> k = key" "\<not> is_opening key (Holding k h)"
  "\<not> holds key i Idle" "\<not> holds key i (Opening k f)" "holds key i (Holding k h) \<longleftrightarrow> k = key \<and> owns h i"
  by (simp_all add: is_opening_def holds_def)

lemma after_action_simps [simp]:
  "is_opening key (after_action k a) \<longleftrightarrow> k = key \<and> action_opens a"
  "holds key i (after_action k a) \<longleftrightarrow> k = key \<and> action_owns a i"
  by (cases a; simp add: after_action_def)+

text \<open>
  Every task that is opening a connection is counted in its host's \<open>opening_count\<close>, and
  every HTTP/1.1 handle a task holds is the checked-out connection of its number.  As long
  as no task is dropped, nothing else is counted or checked out.
\<close>

definition counts_agree :: "bool \<Rightarrow> nat \<Rightarrow> nat \<Rightarrow> bool" where
  "counts_agree cancels m n \<longleftrightarrow> m \<le> n \<and> (cancels \<or> m = n)"

fun pool_inv :: "config \<Rightarrow> bool \<Rightarrow> ('h2, 'h1, 'n, 'w) pool_system \<Rightarrow> bool" where
  "pool_inv cfg cancels (System pools w ts) \<longleftrightarrow>
     connections_per_host cfg < 2 ^ 64 \<and> pools_ok cfg pools \<and>
     (\<forall>key. counts_agree cancels (count_if (is_opening key) ts) (opening_of pools key)) \<and>
     (\<forall>key i. counts_agree cancels (count_if (holds key i) ts) (out_of pools key i))"

lemma pool_init_inv: "pool_init cfg s \<Longrightarrow> pool_inv cfg cancels s"
proof (cases s)
  case (System pools w ts)
  assume init: "pool_init cfg s"
  then have idle: "pools = Map.empty" "\<And>t. t \<in> set ts \<Longrightarrow> t = Idle" by (simp_all add: pool_init_def System)
  then have "count_if (is_opening key) ts = 0" "count_if (holds key i) ts = 0" for key i
    by (auto simp: count_if_zero dest!: idle(2))
  then show ?thesis
    using init by (simp add: System idle pool_init_def pools_ok_def counts_agree_def opening_of_def out_of_def)
qed

lemma pool_invD:
  assumes "pool_inv cfg cancels (System pools w ts)"
  shows "pools_ok cfg pools"
    and "counts_agree cancels (count_if (is_opening key) ts) (opening_of pools key)"
    and "counts_agree cancels (count_if (holds key i) ts) (out_of pools key i)"
    and "connections_per_host cfg < 2 ^ 64"
  using assms by simp_all

text \<open>One task changes: the counts change with it.\<close>

lemma task_counts:
  assumes "i < length ts"
  shows "count_if P (ts[i := t]) = count_if P ts + (if P t then 1 else 0) - (if P (ts ! i) then 1 else 0)"
    and "P (ts ! i) \<Longrightarrow> 0 < count_if P ts"
  using count_if_update [OF assms, of P t] count_if_nth_pos [OF assms, of P] by (auto split: if_splits)

lemma pool_step_inv_acquire:
  assumes inv: "pool_inv cfg cancels (System pools w ts)"
    and i: "i < length ts" "ts ! i = Idle"
    and run: "determine_action oc env cfg key (pools, w) = (Val a, (pools', w'))"
  shows "pool_inv cfg cancels (System pools' w' (ts[i := after_action key a]))"
proof -
  have ok: "pools_ok cfg pools" and cph: "connections_per_host cfg < 2 ^ 64"
    using inv by simp_all
  obtain hp' where hp': "pools' = pools(key \<mapsto> hp')" "entry_ok cfg hp'"
    "opening_count hp' = opening_of pools key + (if action_opens a then 1 else 0)"
    "\<And>i. count_if (checked_out i) (connections hp') = out_of pools key i + (if action_owns a i then 1 else 0)"
    using determine_action_returns [OF ok cph, of oc env key w] run by auto
  show ?thesis
    using inv ok hp' i by (simp add: task_counts pools_ok_update counts_agree_def)
qed

text \<open>The entry of a host stays as long as a task is opening a connection to it.\<close>

lemma opening_entry:
  assumes "pool_inv cfg cancels (System pools w ts)" "i < length ts" "ts ! i = Opening key is_first"
  shows "\<exists>hp. pools key = Some hp \<and> 0 < opening_count hp"
proof -
  have "0 < count_if (is_opening key) ts" using task_counts(2) [OF assms(2), of "is_opening key"] assms(3) by simp
  with pool_invD(2) [OF assms(1), of key] have "0 < opening_of pools key" by (simp add: counts_agree_def)
  then show ?thesis by (auto simp: opening_of_def split: option.splits)
qed

lemma pool_step_inv_opened:
  assumes inv: "pool_inv cfg cancels (System pools w ts)"
    and i: "i < length ts" "ts ! i = Opening key is_first" and ids: "ids_left pools key"
  shows "\<exists>h pools'. insert_opened oc key is_first opened (pools, w) = (Val (Inr h), (pools', w)) \<and>
     pool_inv cfg cancels (System pools' w (ts[i := Holding key h]))"
proof -
  have ok: "pools_ok cfg pools" using inv by simp
  have pos: "0 < count_if (is_opening key) ts" using task_counts(2) [OF i(1), of "is_opening key"] i(2) by simp
  obtain hp where hp: "pools key = Some hp" "0 < opening_count hp"
    using opening_entry [OF inv i(1,2)] by blast
  with ids have "next_id hp + 1 < 2 ^ 64" by (simp add: ids_left_def)
  from insert_opened_returns [OF ok hp this, of oc is_first opened w] obtain h hp' where
    run: "insert_opened oc key is_first opened (pools, w) = (Val (Inr h), (pools(key \<mapsto> hp'), w))"
    and hp': "entry_ok cfg hp'" "Suc (opening_count hp') = opening_of pools key"
    "\<And>i. count_if (checked_out i) (connections hp') = out_of pools key i + (if owns h i then 1 else 0)"
    by blast
  have "counts_agree cancels (count_if (is_opening key) ts) (Suc (opening_count hp'))"
    using inv hp'(2) by simp
  then have "counts_agree cancels (count_if (is_opening key) ts - 1) (opening_count hp')"
    using pos by (auto simp: counts_agree_def)
  then have "pool_inv cfg cancels (System (pools(key \<mapsto> hp')) w (ts[i := Holding key h]))"
    using inv ok hp' i by (simp add: task_counts pools_ok_update) (auto simp: counts_agree_def)
  with run show ?thesis by blast
qed

lemma pool_step_inv_failed:
  assumes inv: "pool_inv cfg cancels (System pools w ts)"
    and i: "i < length ts" "ts ! i = Opening key is_first"
  shows "\<exists>pools' w'. fail_opened oc env key (pools, w) = (Val (), (pools', w')) \<and>
     pool_inv cfg cancels (System pools' w' (ts[i := Idle]))"
proof -
  have ok: "pools_ok cfg pools" using inv by simp
  have pos: "0 < count_if (is_opening key) ts" using task_counts(2) [OF i(1), of "is_opening key"] i(2) by simp
  obtain hp where hp: "pools key = Some hp" "0 < opening_count hp"
    using opening_entry [OF inv i(1,2)] by blast
  have agree: "counts_agree cancels (count_if (is_opening key) ts) (opening_count hp)"
    "\<And>j. counts_agree cancels (count_if (holds key j) ts) (count_if (checked_out j) (connections hp))"
    using inv hp(1) by (simp_all add: pools_of_Some [of pools key hp, OF hp(1), symmetric])
  then have agree': "counts_agree cancels (count_if (is_opening key) ts - 1) (opening_count hp - 1)"
    using pos by (auto simp: counts_agree_def)
  have ok': "entry_ok cfg (hp\<lparr>opening_count := opening_count hp - 1\<rparr>)"
    using pools_okD [OF ok hp(1)] by (auto simp: entry_ok_def)
  show ?thesis
  proof (cases "connections hp = [] \<and> opening_count hp = 1")
    case True
    with agree agree' have "pool_inv cfg cancels (System (pools(key := None)) w (ts[i := Idle]))"
      using inv ok i by (simp add: task_counts pools_ok_remove)
    with True show ?thesis by (simp add: fail_opened_eq [of pools key hp, OF hp])
  next
    case False
    with agree agree' ok' have
      "pool_inv cfg cancels (System (pools(key \<mapsto> hp\<lparr>opening_count := opening_count hp - 1\<rparr>))
         (notify_one env (notify hp) w) (ts[i := Idle]))"
      using inv ok i by (simp add: task_counts pools_ok_update)
    with False show ?thesis by (auto simp: fail_opened_eq [of pools key hp, OF hp])
  qed
qed

lemma out_of_at_most_one: "pools_ok cfg pools \<Longrightarrow> out_of pools key i \<le> 1"
  using pools_okD [of cfg pools key]
  by (auto simp: out_of_def entry_ok_def intro: checked_out_at_most_one [simplified] split: option.splits)

lemma held_once:
  assumes "pool_inv cfg cancels (System pools w ts)"
  shows "count_if (holds key i) ts \<le> 1"
  using pool_invD(3) [OF assms, of key i] out_of_at_most_one [OF pool_invD(1) [OF assms], of key i]
  by (simp add: counts_agree_def)

lemma pool_step_inv_give_back:
  assumes inv: "pool_inv cfg cancels (System pools w ts)"
    and i: "i < length ts" "ts ! i = Holding key h"
  shows "\<exists>pools' w'. give_back env key h usable (pools, w) = (Val (), (pools', w')) \<and>
     pool_inv cfg cancels (System pools' w' (ts[i := Idle]))"
proof -
  obtain pools' w' where run: "give_back env key h usable (pools, w) = (Val (), (pools', w'))"
    and ok: "pools_ok cfg pools'" "opening_of pools' = opening_of pools"
    and out: "\<And>k j. out_of pools' k j = (if k = key \<and> owns h j then 0 else out_of pools k j)"
    using give_back_returns [OF pool_invD(1) [OF inv], of env key h usable w] by blast
  have one: "count_if (holds key j) ts = 1" if "owns h j" for j
    using held_once [OF inv, of key j] task_counts(2) [OF i(1), of "holds key j"] i(2) that by simp
  have "counts_agree cancels (count_if (holds k j) (ts[i := Idle])) (out_of pools' k j)" for k j
    using pool_invD(3) [OF inv, of k j] one [of j] i by (auto simp: task_counts out counts_agree_def)
  then have "pool_inv cfg cancels (System pools' w' (ts[i := Idle]))"
    using pool_invD(2,4) [OF inv] ok i by (simp add: task_counts)
  with run show ?thesis by blast
qed

lemma pool_step_inv:
  assumes "pool_inv cfg cancels s" "pool_step oc env cfg cancels s s'"
  shows "pool_inv cfg cancels s'"
  using assms(2,1)
proof (induction rule: pool_step.induct)
  case (step_acquire i ts key pools w a pools' w')
  show ?case
    using step_acquire.prems step_acquire.hyps by (rule pool_step_inv_acquire)
next
  case (step_opened i ts key is_first pools opened w r pools' w')
  from pool_step_inv_opened [OF step_opened.prems step_opened.hyps(1-3), of oc opened]
  show ?case using step_opened.hyps(4) by (auto simp: after_insert_def)
next
  case (step_open_failed i ts key is_first pools w u pools' w')
  from pool_step_inv_failed [OF step_open_failed.prems step_open_failed.hyps(1-2), of oc env]
  show ?case using step_open_failed.hyps(3) by auto
next
  case (step_give_back i ts key h usable pools w u pools' w')
  from pool_step_inv_give_back [OF step_give_back.prems step_give_back.hyps(1-2), of env usable]
  show ?case using step_give_back.hyps(3) by auto
next
  case (step_cancel i ts pools w)
  then show ?case by (auto simp: task_counts counts_agree_def intro: diff_le_self [THEN order_trans])
next
  case (step_world pools w ts w')
  then show ?case by simp
qed

interpretation pool: invariant_system "pool_init cfg" "pool_step oc env cfg cancels" "pool_inv cfg cancels"
  for cfg oc env cancels
  by unfold_locales (auto intro: pool_init_inv pool_step_inv)

section \<open>Hosts on which every acquirer waits\<close>

text \<open>
  The connections are at their limit and none of them is one that the protocol recorded for
  the host would hand out.
\<close>

definition blocked :: "config \<Rightarrow> ('h2, 'h1, 'n) host_pool \<Rightarrow> bool" where
  "blocked cfg hp \<longleftrightarrow> entry_ok cfg hp \<and> connections_per_host cfg < 2 ^ 64 \<and>
     connections_per_host cfg \<le> length (connections hp) + opening_count hp \<and>
     (case protocol hp of
        Http1 \<Rightarrow> take_idle (connections hp) = None
      | Http2 \<Rightarrow> (\<forall>c \<in> set (connections hp). is_h1 c))"

lemma only_h1_passes:
  assumes "\<forall>c \<in> set cs. is_h1 c"
  shows "retain_live env cs = ret cs" and "find_ready env cs = ret None"
  using assms by (induction cs) (auto simp: is_h1_def split: connection_sender.splits)

lemma blocked_waits:
  assumes "pools key = Some hp" "blocked cfg hp"
  shows "determine_action oc env cfg key (pools, w) = (Val (Wait (notify hp)), (pools, w))"
proof -
  have same: "hp\<lparr>connections := connections hp\<rparr> = hp" by simp
  have upd: "pools(key \<mapsto> hp) = pools" using assms(1) by (rule map_upd_triv)
  show ?thesis
  proof (cases "protocol hp")
    case Http1
    with assms show ?thesis
      by (simp add: determine_action_def on_entry_def h1_action_def blocked_def scale_or_wait_eq upd)
  next
    case Http2
    with assms have h1: "\<forall>c \<in> set (connections hp). is_h1 c" by (simp add: blocked_def)
    from Http2 assms show ?thesis
      by (simp add: determine_action_def on_entry_def h2_action_def blocked_def scale_or_wait_eq upd
          only_h1_passes [OF h1] on_env_def and_then_def)
  qed
qed

lemma acquire_loop_blocked:
  assumes "blocked cfg hp" "pools key = Some hp"
    and quiet: "\<And>p w. fst (lock_point env (p, w)) = p" "\<And>d n p w. fst (wait_notified env d n (p, w)) = p"
  shows "\<exists>w'. acquire_loop oc env cfg key n (pools, w) = (Val (Inl (acquire_timeout_error key)), (pools, w'))"
proof (induction n arbitrary: w)
  case 0
  then show ?case by simp
next
  case (Suc n)
  obtain w1 where w1: "lock_point env (pools, w) = (pools, w1)" using quiet(1) by (metis prod.collapse)
  obtain w2 where w2: "wait_notified env notify_wait_timeout (notify hp) (pools, w1) = (pools, w2)"
    using quiet(2) by (metis prod.collapse)
  from Suc.IH [of w2] w1 w2 show ?case
    by (simp add: and_then_def blocked_waits [of pools key hp, OF assms(2,1)])
qed

section \<open>Two runs that leave a host blocked\<close>

lemma config_default_cph [simp]: "connections_per_host config_default = 1"
  by (simp add: config_default_def)

lemma take_first:
  assumes "reachable ini (pool_step oc env cfg cancels) (System pools w [Idle])"
    and "determine_action oc env cfg key (pools, w) = (Val a, (pools', w'))"
  shows "reachable ini (pool_step oc env cfg cancels) (System pools' w' [after_action key a])"
  using reachable_step [OF assms(1), of "System pools' w' ([Idle][0 := after_action key a])"]
    step_acquire [of 0 "[Idle]" oc env cfg key pools w a pools' w' cancels] assms(2) by simp

lemma take_opened:
  assumes "reachable ini (pool_step oc env cfg cancels) (System pools w [Opening key f])" "ids_left pools key"
    and "insert_opened oc key f opened (pools, w) = (Val r, (pools', w'))"
  shows "reachable ini (pool_step oc env cfg cancels) (System pools' w' [after_insert key r])"
  using reachable_step [OF assms(1), of "System pools' w' ([Opening key f][0 := after_insert key r])"]
    step_opened [of 0 "[Opening key f]" key f pools oc opened w r pools' w' env cfg cancels] assms(2,3) by simp

lemma take_back:
  assumes "reachable ini (pool_step oc env cfg cancels) (System pools w [Holding key h])"
    and "give_back env key h usable (pools, w) = (Val u, (pools', w'))"
  shows "reachable ini (pool_step oc env cfg cancels) (System pools' w' [Idle])"
  using reachable_step [OF assms(1), of "System pools' w' ([Holding key h][0 := Idle])"]
    step_give_back [of 0 "[Holding key h]" key h env usable pools w u pools' w' oc cfg cancels] assms(2) by simp

lemma start_first:
  fixes env :: "('h2, 'h1, 'n, 'w) pool_env"
  shows "\<exists>n w. pool_reachable oc env config_default cancels (System [key \<mapsto> new_host_pool n] w [Opening key True])"
proof -
  fix w0 :: 'w
  obtain n w where "new_notify env w0 = (n, w)" by fastforce
  then have "determine_action oc env config_default key (Map.empty, w0) = (Val (OpenNew True), ([key \<mapsto> new_host_pool n], w))"
    by (simp add: determine_action_def on_entry_def)
  moreover have "pool_reachable oc env config_default cancels (System Map.empty w0 [Idle])"
    by (rule reachable_init) (simp add: pool_init_def)
  ultimately have "pool_reachable oc env config_default cancels (System [key \<mapsto> new_host_pool n] w [Opening key True])"
    using take_first [of "pool_init config_default" oc env config_default cancels Map.empty w0 key] by (simp add: after_action_def)
  then show ?thesis by blast
qed

text \<open>A first connection over HTTP/1.1, dropped as dead; a second one that negotiates HTTP/2.\<close>

definition h1_entry :: "'n \<Rightarrow> ('h2, 'h1, 'n) host_pool" where
  "h1_entry n = \<lparr>protocol = Http1, connections = [\<lparr>conn_id = 0, conn_sender = ConnH1 None\<rparr>],
     notify = n, opening_count = 0, next_id = 1\<rparr>"

definition switched_entry :: "'n \<Rightarrow> 'h2 \<Rightarrow> ('h2, 'h1, 'n) host_pool" where
  "switched_entry n s = \<lparr>protocol = Http1, connections = [\<lparr>conn_id = 1, conn_sender = ConnH2 s\<rparr>],
     notify = n, opening_count = 0, next_id = 2\<rparr>"

lemma switched_run:
  defines "no_conns n k m \<equiv> \<lparr>protocol = Http1, connections = [], notify = n, opening_count = k, next_id = m\<rparr>"
  shows "insert_opened oc key True (OpenedH1 s1) ([key \<mapsto> new_host_pool n], w) =
      (Val (Inr \<lparr>handle_sender = HandleH1 s1, connection_id = 0\<rparr>), ([key \<mapsto> h1_entry n], w))"
    and "give_back env key \<lparr>handle_sender = HandleH1 s1, connection_id = 0\<rparr> False ([key \<mapsto> h1_entry n], w) =
      (Val (), ([key \<mapsto> no_conns n 0 1], notify_one env n w))"
    and "determine_action oc env config_default key ([key \<mapsto> no_conns n 0 1], w) =
      (Val (OpenNew False), ([key \<mapsto> no_conns n 1 1], w))"
    and "insert_opened oc key False (OpenedH2 s2) ([key \<mapsto> no_conns n 1 1], w) =
      (Val (Inr \<lparr>handle_sender = HandleH2 s2, connection_id = 1\<rparr>), ([key \<mapsto> switched_entry n s2], w))"
    and "give_back env key \<lparr>handle_sender = HandleH2 s2, connection_id = 1\<rparr> True ([key \<mapsto> switched_entry n s2], w) =
      (Val (), ([key \<mapsto> switched_entry n s2], notify_one env n w))"
proof -
  have sub: "usize_sub oc (Suc 0) (Suc 0) = Val 0" "usize_add oc 0 (Suc 0) = Val (Suc 0)"
    "usize_add oc (Suc 0) (Suc 0) = Val 2" "usize_add oc 0 0 = Val 0"
    by (simp_all add: usize_add_def)
  show "insert_opened oc key True (OpenedH1 s1) ([key \<mapsto> new_host_pool n], w) =
      (Val (Inr \<lparr>handle_sender = HandleH1 s1, connection_id = 0\<rparr>), ([key \<mapsto> h1_entry n], w))"
    by (subst insert_opened_eq) (auto simp: new_host_pool_def h1_entry_def split_opened_def opened_protocol_def)
  show "give_back env key \<lparr>handle_sender = HandleH1 s1, connection_id = 0\<rparr> False ([key \<mapsto> h1_entry n], w) =
      (Val (), ([key \<mapsto> no_conns n 0 1], notify_one env n w))"
    by (simp add: give_back_def give_back_eqs h1_entry_def no_conns_def)
  show "determine_action oc env config_default key ([key \<mapsto> no_conns n 0 1], w) =
      (Val (OpenNew False), ([key \<mapsto> no_conns n 1 1], w))"
    by (simp add: determine_action_def on_entry_def h1_action_def no_conns_def scale_or_wait_def
        total_count_def sub and_then_def)
  show "insert_opened oc key False (OpenedH2 s2) ([key \<mapsto> no_conns n 1 1], w) =
      (Val (Inr \<lparr>handle_sender = HandleH2 s2, connection_id = 1\<rparr>), ([key \<mapsto> switched_entry n s2], w))"
    by (subst insert_opened_eq) (auto simp: no_conns_def switched_entry_def split_opened_def)
  show "give_back env key \<lparr>handle_sender = HandleH2 s2, connection_id = 1\<rparr> True ([key \<mapsto> switched_entry n s2], w) =
      (Val (), ([key \<mapsto> switched_entry n s2], notify_one env n w))"
    by (simp add: give_back_def give_back_eqs switched_entry_def)
qed

lemma switched_reachable:
  fixes env :: "('h2, 'h1, 'n, 'w) pool_env" and s1 :: 'h1 and s2 :: 'h2
  shows "\<exists>n w. pool_reachable oc env config_default cancels (System [key \<mapsto> switched_entry n s2] w [Idle])"
proof -
  obtain n w where "pool_reachable oc env config_default cancels (System [key \<mapsto> new_host_pool n] w [Opening key True])"
    using start_first [of oc env cancels key] by auto
  from take_opened [OF this _ switched_run(1) [where ?s1.0 = s1]]
  have "pool_reachable oc env config_default cancels
      (System [key \<mapsto> h1_entry n] w [Holding key \<lparr>handle_sender = HandleH1 s1, connection_id = 0\<rparr>])"
    by (simp add: ids_left_def new_host_pool_def after_insert_def)
  note take_first [OF take_back [OF this switched_run(2)] switched_run(3)]
  then have "pool_reachable oc env config_default cancels (System [key \<mapsto>
      \<lparr>protocol = Http1, connections = [], notify = n, opening_count = 1, next_id = 1\<rparr>]
      (notify_one env n w) [Opening key False])"
    by (simp add: after_action_def)
  from take_opened [OF this _ switched_run(4) [where ?s2.0 = s2]]
  have "pool_reachable oc env config_default cancels (System [key \<mapsto> switched_entry n s2]
      (notify_one env n w) [Holding key \<lparr>handle_sender = HandleH2 s2, connection_id = 1\<rparr>])"
    by (simp add: ids_left_def after_insert_def)
  from take_back [OF this switched_run(5)] show ?thesis by blast
qed

lemma cancelled_reachable:
  fixes env :: "('h2, 'h1, 'n, 'w) pool_env"
  shows "\<exists>n w. pool_reachable oc env config_default True (System [key \<mapsto> new_host_pool n] w [Idle])"
proof -
  obtain n w where "pool_reachable oc env config_default True (System [key \<mapsto> new_host_pool n] w [Opening key True])"
    using start_first [of oc env True key] by auto
  from reachable_step [OF this step_cancel [of True 0 "[Opening key True]" oc env config_default "[key \<mapsto> new_host_pool n]" w]]
  show ?thesis by auto
qed

lemma blocked_entries:
  "blocked config_default (new_host_pool n)" "blocked config_default (switched_entry n s)"
  by (simp_all add: blocked_def new_host_pool_def switched_entry_def entry_ok_def)

lemma blocked_for_ever:
  "determine_action oc env config_default key ([key \<mapsto> new_host_pool n], w) =
     (Val (Wait n), ([key \<mapsto> new_host_pool n], w))"
  "determine_action oc env config_default key ([key \<mapsto> switched_entry n s], w) =
     (Val (Wait n), ([key \<mapsto> switched_entry n s], w))"
  by (subst blocked_waits [OF _ blocked_entries(1)], simp, simp add: new_host_pool_def)
    (subst blocked_waits [OF _ blocked_entries(2)], simp, simp add: switched_entry_def)

text \<open>A small run with an environment in which HTTP/2 senders are ready and others do nothing.\<close>

definition quiet_env :: "(nat, nat, unit, nat) pool_env" where
  "quiet_env = \<lparr>poll_ready = (\<lambda>s w. (PollReadyOk, w)), new_notify = (\<lambda>w. ((), w)),
     notify_one = (\<lambda>n w. w), lock_point = (\<lambda>p. p), wait_notified = (\<lambda>d n (p, w). (p, Suc w)),
     open_connection = (\<lambda>host port. ret (Inr (OpenedH1 7)))\<rparr>"

definition demo_key :: host_key where
  "demo_key = (lit ''h'', 443)"

abbreviation demo_entry :: "(nat, nat, unit) host_pool" where
  "demo_entry \<equiv> h1_entry ()"

definition demo_handle :: "(nat, nat) pool_handle" where
  "demo_handle = \<lparr>handle_sender = HandleH1 7, connection_id = 0\<rparr>"

lemma demo_holding:
  "pool_reachable True quiet_env config_default cancels (System [demo_key \<mapsto> new_host_pool ()] 0 [Opening demo_key True])"
  "pool_reachable True quiet_env config_default cancels (System [demo_key \<mapsto> h1_entry ()] 0 [Holding demo_key demo_handle])"
  "pool_reachable True quiet_env config_default cancels (System [demo_key \<mapsto> (h1_entry ())
     \<lparr>connections := [\<lparr>conn_id = 0, conn_sender = ConnH1 (Some 7)\<rparr>]\<rparr>] 0 [Idle])"
proof -
  have "pool_reachable True quiet_env config_default cancels (System Map.empty 0 [Idle])"
    by (rule reachable_init) (simp add: pool_init_def)
  from take_first [OF this, of demo_key "OpenNew True" "[demo_key \<mapsto> new_host_pool ()]" 0]
  show r1: "pool_reachable True quiet_env config_default cancels (System [demo_key \<mapsto> new_host_pool ()] 0 [Opening demo_key True])"
    by (simp add: determine_action_def on_entry_def quiet_env_def after_action_def)
  from take_opened [OF this _ switched_run(1) [where ?s1.0 = 7]]
  show r2: "pool_reachable True quiet_env config_default cancels (System [demo_key \<mapsto> h1_entry ()] 0 [Holding demo_key demo_handle])"
    by (simp add: ids_left_def new_host_pool_def after_insert_def demo_handle_def)
  show "pool_reachable True quiet_env config_default cancels (System [demo_key \<mapsto> (h1_entry ())
     \<lparr>connections := [\<lparr>conn_id = 0, conn_sender = ConnH1 (Some 7)\<rparr>]\<rparr>] 0 [Idle])"
    by (rule take_back [OF r2, of True]) (simp add: give_back_def give_back_eqs demo_handle_def h1_entry_def quiet_env_def)
qed

section \<open>Properties\<close>

text \<open>
  C7.  Whatever tasks do and whichever are cancelled, a host never has more connections,
  counting those being opened, than \<open>connections_per_host\<close> (or one, if that is zero), and
  connection numbers are distinct.
\<close>
theorem connection_limit:
  assumes "pool_reachable oc env cfg cancels s" and "sys_pools s key = Some hp"
  shows "length (connections hp) + opening_count hp \<le> max 1 (connections_per_host cfg) \<and>
     distinct (map conn_id (connections hp))"
proof -
  obtain pools w ts where s: "s = System pools w ts" by (cases s)
  from pool.reachable_inv [OF assms(1)] have "pools_ok cfg pools" by (simp add: s)
  from pools_okD [OF this, of key hp] assms(2) show ?thesis by (simp add: s entry_ok_def)
qed

theorem connection_limit_witness:
  "length (connections demo_entry) + opening_count demo_entry \<le> max 1 (connections_per_host config_default) \<and>
     distinct (map conn_id (connections demo_entry))"
  using connection_limit [OF demo_holding(2), of demo_key "h1_entry ()"] by simp

text \<open>
  C8.  An HTTP/1.1 connection is never in the hands of two tasks at once, also when tasks
  are cancelled.
\<close>
theorem checkout_exclusive:
  assumes "pool_reachable oc env cfg cancels s"
  shows "card {i. i < length (sys_tasks s) \<and> holds key n (sys_tasks s ! i)} \<le> 1"
proof -
  obtain pools w ts where s: "s = System pools w ts" by (cases s)
  from pool.reachable_inv [OF assms(1)] have "count_if (holds key n) ts \<le> 1"
    unfolding s by (rule held_once)
  then show ?thesis by (simp add: s count_if_def length_filter_conv_card)
qed

theorem checkout_exclusive_witness:
  "card {i. i < length [Holding demo_key demo_handle] \<and> holds demo_key 0 ([Holding demo_key demo_handle] ! i)} \<le> 1"
  using checkout_exclusive [OF demo_holding(2), of demo_key 0] by simp

text \<open>
  C9.  As long as no task is dropped, nothing leaks: the openings counted for a host are
  the tasks that are opening a connection to it, and every connection that is checked out
  is in the hands of exactly one task.
\<close>
theorem nothing_leaks:
  assumes "pool_reachable oc env cfg False s"
  shows "opening_of (sys_pools s) key = count_if (is_opening key) (sys_tasks s) \<and>
     out_of (sys_pools s) key n = count_if (holds key n) (sys_tasks s)"
proof -
  obtain pools w ts where s: "s = System pools w ts" by (cases s)
  note inv = pool.reachable_inv [OF assms, unfolded s]
  show ?thesis
    using pool_invD(2) [OF inv, of key] pool_invD(3) [OF inv, of key n] by (simp add: s counts_agree_def)
qed

theorem nothing_leaks_witness:
  "opening_of [demo_key \<mapsto> demo_entry] demo_key = count_if (is_opening demo_key) [Holding demo_key demo_handle] \<and>
     out_of [demo_key \<mapsto> demo_entry] demo_key 0 = count_if (holds demo_key 0) [Holding demo_key demo_handle]"
  using nothing_leaks [OF demo_holding(2), of demo_key 0] by simp

text \<open>
  C10.  No section of the pool panics in a reachable state, in either build profile: the
  subtraction from \<open>opening_count\<close> never underflows and the entry of a task that is opening
  a connection never disappears, so every opened connection becomes a handle.
\<close>
theorem sections_never_panic:
  assumes "pool_reachable oc env cfg cancels (System pools w ts)" and "t \<in> set ts"
  shows "case t of
      Idle \<Rightarrow> \<exists>a s'. determine_action oc env cfg key (pools, w) = (Val a, s')
    | Opening k is_first \<Rightarrow>
        (ids_left pools k \<longrightarrow> (\<exists>h s'. insert_opened oc k is_first opened (pools, w) = (Val (Inr h), s'))) \<and>
        (\<exists>s'. fail_opened oc env k (pools, w) = (Val (), s'))
    | Holding k h \<Rightarrow> \<exists>s'. give_back env k h usable (pools, w) = (Val (), s')"
proof -
  note inv = pool.reachable_inv [OF assms(1)]
  obtain i where i: "i < length ts" "ts ! i = t" using assms(2) by (auto simp: in_set_conv_nth)
  show ?thesis
  proof (cases t)
    case Idle
    with determine_action_returns [OF pool_invD(1,4) [OF inv]] show ?thesis by fastforce
  next
    case (Opening k f)
    with i have i': "i < length ts" "ts ! i = Opening k f" by simp_all
    from pool_step_inv_opened [OF inv i', of oc opened] pool_step_inv_failed [OF inv i', of oc env] Opening
    show ?thesis by auto
  next
    case (Holding k h)
    with i have "i < length ts" "ts ! i = Holding k h" by simp_all
    from pool_step_inv_give_back [OF inv this, of env usable] Holding show ?thesis by auto
  qed
qed

theorem sections_never_panic_witness:
  "\<exists>h s'. insert_opened True demo_key True (OpenedH2 3) ([demo_key \<mapsto> new_host_pool ()], 0) =
     (Val (Inr h) :: (download_error + (nat, nat) pool_handle) outcome, s' :: (nat, nat, unit, nat) pool_world)"
  using sections_never_panic [OF demo_holding(1), of "Opening demo_key True" demo_key "OpenedH2 3" True]
  by (simp add: ids_left_def new_host_pool_def)


text \<open>
  C34.  The protocol of a host is recorded for its first connection only.  With the default
  configuration, and with no task dropped, a host whose first connection was HTTP/1.1 and
  died, and whose second one negotiated HTTP/2, ends in a state in which no task uses it
  and every later acquirer, whatever the connections do, can only wait.
\<close>
theorem protocol_switch_blocks_host:
  "\<exists>s. pool_reachable oc env config_default False s \<and> sys_tasks s = [Idle] \<and>
     (\<forall>oc' env' w. \<exists>n. determine_action oc' env' config_default key (sys_pools s, w) = (Val (Wait n), (sys_pools s, w)))"
proof -
  fix s1 s2
  obtain n w where r: "pool_reachable oc env config_default False (System [key \<mapsto> switched_entry n s2] w [Idle])"
    using switched_reachable [of oc env False key s2] by auto
  then show ?thesis
    by (intro exI [of _ "System [key \<mapsto> switched_entry n s2] w [Idle]"]) (simp add: blocked_for_ever)
qed

text \<open>
  \<open>acquire\<close> on a blocked host: it waits 32 times and gives up with the timeout error
  of the pool, without opening a connection or changing the pools.
\<close>
theorem acquire_blocked_fails:
  assumes "blocked cfg hp" and "pools (host, port) = Some hp"
    and "\<And>p w. fst (lock_point env (p, w)) = p" and "\<And>d n p w. fst (wait_notified env d n (p, w)) = p"
  shows "\<exists>w'. acquire oc env cfg host port (pools, w) =
     (Val (Inl (ConnectionFailed (lit ''pool acquire timeout for '' @ host @ lit '':'' @
        show_nat (unat port) @ lit '' after 32 attempts''))), (pools, w'))"
proof -
  have "show_nat 32 = lit ''32''" by (simp add: show_nat.simps)
  then show ?thesis
    using acquire_loop_blocked [OF assms(1), of pools "(host, port)" env oc max_acquire_attempts w] assms(2-4)
    by (simp add: acquire_def acquire_timeout_error_def host_port_def max_acquire_attempts_def)
qed

theorem acquire_blocked_fails_witness:
  "\<exists>w'. acquire True quiet_env config_default (lit ''h'') 80 ([(lit ''h'', 80) \<mapsto> switched_entry () 1], 0) =
     (Val (Inl (ConnectionFailed (lit ''pool acquire timeout for '' @ lit ''h'' @ lit '':'' @
        show_nat (unat (80 :: u16)) @ lit '' after 32 attempts''))), ([(lit ''h'', 80) \<mapsto> switched_entry () 1], w'))"
  by (rule acquire_blocked_fails [OF blocked_entries(2)]) (simp_all add: quiet_env_def)



end
