(* ===== verification/Pool_Spec.thy ===== *)
theory Pool_Spec
  imports Pool_System
begin

text \<open>
  What the pool promises, without its protocols, senders, notifications and entries: every
  host has slots that are free, lent to one task or shared, tasks that reserve slots, and a
  limit on both together.  Every step of \<open>Pool_System\<close> is a run of this system.
\<close>

section \<open>The specification\<close>

datatype slot = Free | Lent | Shared

record host_slots =
  sl_reserved :: nat
  sl_slots :: "usize \<rightharpoonup> slot"

definition no_slots :: host_slots where
  "no_slots = \<lparr>sl_reserved = 0, sl_slots = Map.empty\<rparr>"

datatype slot_task =
    Resting
  | Reserving host_key
  | Using host_key usize
  | Sharing host_key

datatype slot_system = Slots "host_key \<Rightarrow> host_slots" "slot_task list"

text \<open>One task moves, on the slots of one host.\<close>

inductive slot_change :: "nat \<Rightarrow> host_key \<Rightarrow> host_slots \<Rightarrow> slot_task \<Rightarrow> host_slots \<Rightarrow> slot_task \<Rightarrow> bool"
  for limit key where
  slot_reserve: "sl_reserved x + card (dom (sl_slots x)) < limit \<Longrightarrow>
     slot_change limit key x Resting (x\<lparr>sl_reserved := Suc (sl_reserved x)\<rparr>) (Reserving key)"
| slot_lend: "sl_slots x i = Some Free \<Longrightarrow>
     slot_change limit key x Resting (x\<lparr>sl_slots := (sl_slots x)(i \<mapsto> Lent)\<rparr>) (Using key i)"
| slot_share: "sl_slots x i = Some Shared \<Longrightarrow> slot_change limit key x Resting x (Sharing key)"
| slot_rest: "slot_change limit key x Resting x Resting"
| slot_fill: "sl_reserved x = Suc n \<Longrightarrow> sl_slots x i = None \<Longrightarrow>
     slot_change limit key x (Reserving key) \<lparr>sl_reserved = n, sl_slots = (sl_slots x)(i \<mapsto> Lent)\<rparr> (Using key i)"
| slot_fill_shared: "sl_reserved x = Suc n \<Longrightarrow> sl_slots x i = None \<Longrightarrow>
     slot_change limit key x (Reserving key) \<lparr>sl_reserved = n, sl_slots = (sl_slots x)(i \<mapsto> Shared)\<rparr> (Sharing key)"
| slot_fail: "sl_reserved x = Suc n \<Longrightarrow>
     slot_change limit key x (Reserving key) (x\<lparr>sl_reserved := n\<rparr>) Resting"
| slot_give: "sl_slots x i = Some Lent \<Longrightarrow>
     slot_change limit key x (Using key i) (x\<lparr>sl_slots := (sl_slots x)(i \<mapsto> Free)\<rparr>) Resting"
| slot_discard: "sl_slots x i = Some Lent \<Longrightarrow>
     slot_change limit key x (Using key i) (x\<lparr>sl_slots := (sl_slots x)(i := None)\<rparr>) Resting"
| slot_leave: "slot_change limit key x (Sharing key) x Resting"

text \<open>Shared slots may disappear; free and lent ones do not.\<close>

definition purged :: "(usize \<rightharpoonup> slot) \<Rightarrow> (usize \<rightharpoonup> slot) \<Rightarrow> bool" where
  "purged m m' \<longleftrightarrow> (\<forall>i. m' i = m i \<or> m i = Some Shared \<and> m' i = None)"

inductive slot_step :: "nat \<Rightarrow> bool \<Rightarrow> slot_system \<Rightarrow> slot_system \<Rightarrow> bool" for limit cancels where
  slot_moves: "i < length ts \<Longrightarrow> slot_change limit key (S key) (ts ! i) x t \<Longrightarrow>
     slot_step limit cancels (Slots S ts) (Slots (S(key := x)) (ts[i := t]))"
| slot_purge: "purged (sl_slots (S key)) m \<Longrightarrow>
     slot_step limit cancels (Slots S ts) (Slots (S(key := (S key)\<lparr>sl_slots := m\<rparr>)) ts)"
| slot_cancel: "cancels \<Longrightarrow> i < length ts \<Longrightarrow> slot_step limit cancels (Slots S ts) (Slots S (ts[i := Resting]))"

fun slot_init :: "slot_system \<Rightarrow> bool" where
  "slot_init (Slots S ts) \<longleftrightarrow> S = (\<lambda>key. no_slots) \<and> (\<forall>t \<in> set ts. t = Resting)"

section \<open>What the specification guarantees\<close>

text \<open>At most \<open>limit\<close> slots and reservations; a slot in use is lent, and to one task only.\<close>

definition slots_bounded :: "nat \<Rightarrow> (host_key \<Rightarrow> host_slots) \<Rightarrow> bool" where
  "slots_bounded limit S \<longleftrightarrow>
     (\<forall>key. finite (dom (sl_slots (S key))) \<and> sl_reserved (S key) + card (dom (sl_slots (S key))) \<le> limit)"

definition lent_once :: "(host_key \<Rightarrow> host_slots) \<Rightarrow> slot_task list \<Rightarrow> bool" where
  "lent_once S ts \<longleftrightarrow> (\<forall>i key k. i < length ts \<and> ts ! i = Using key k \<longrightarrow>
     sl_slots (S key) k = Some Lent \<and> (\<forall>j < length ts. ts ! j = Using key k \<longrightarrow> j = i))"

fun slot_inv :: "nat \<Rightarrow> slot_system \<Rightarrow> bool" where
  "slot_inv limit (Slots S ts) \<longleftrightarrow> slots_bounded limit S \<and> lent_once S ts"

lemma lent_onceI:
  assumes "\<And>i key k. i < length ts \<Longrightarrow> ts ! i = Using key k \<Longrightarrow> sl_slots (S key) k = Some Lent"
    and "\<And>i j key k. i < length ts \<Longrightarrow> j < length ts \<Longrightarrow> ts ! i = Using key k \<Longrightarrow> ts ! j = Using key k \<Longrightarrow> i = j"
  shows "lent_once S ts"
  unfolding lent_once_def using assms by blast

lemma lent_onceD:
  assumes "lent_once S ts" "i < length ts" "ts ! i = Using key k"
  shows "sl_slots (S key) k = Some Lent" and "j < length ts \<Longrightarrow> ts ! j = Using key k \<Longrightarrow> i = j"
  using assms unfolding lent_once_def by blast+

lemma purged_dom: "purged m m' \<Longrightarrow> dom m' \<subseteq> dom m"
  by (auto simp: purged_def dom_def) (metis option.distinct(1))

lemma purged_Lent: "purged m m' \<Longrightarrow> m i = Some Lent \<Longrightarrow> m' i = Some Lent"
  by (auto simp: purged_def dest: spec [of _ i])

lemma slot_change_bound:
  assumes "slot_change limit key x t x' t'" "finite (dom (sl_slots x))"
    and "sl_reserved x + card (dom (sl_slots x)) \<le> limit"
  shows "finite (dom (sl_slots x')) \<and> sl_reserved x' + card (dom (sl_slots x')) \<le> limit"
  using assms
proof cases
  case (slot_discard i)
  have "card (dom (sl_slots x) - {i}) \<le> card (dom (sl_slots x))" using assms(2) by (intro card_mono) auto
  with slot_discard assms(2,3) show ?thesis by simp
qed (auto simp: card_insert_if domIff)

text \<open>A task is lent only what was not lent; what was lent stays so unless its user gives it back.\<close>

lemma slot_change_lent:
  assumes "slot_change limit key x t x' t'"
  shows "t' = Using key' k \<Longrightarrow> key' = key \<and> sl_slots x' k = Some Lent \<and> sl_slots x k \<noteq> Some Lent"
    and "sl_slots x k = Some Lent \<Longrightarrow> t \<noteq> Using key k \<Longrightarrow> sl_slots x' k = Some Lent"
  using assms by (auto elim!: slot_change.cases split: if_splits)

lemma slot_moves_lent:
  assumes inv: "lent_once S ts" and i: "i < length ts"
    and change: "slot_change limit key (S key) (ts ! i) x t"
  shows "lent_once (S(key := x)) (ts[i := t])"
proof (rule lent_onceI)
  fix j key' k assume j: "j < length (ts[i := t])" "ts[i := t] ! j = Using key' k"
  show "sl_slots ((S(key := x)) key') k = Some Lent"
  proof (cases "j = i")
    case True
    with i j have "t = Using key' k" by simp
    from slot_change_lent(1) [OF change this] show ?thesis by simp
  next
    case False
    with j have tj: "j < length ts" "ts ! j = Using key' k" by simp_all
    have "ts ! i \<noteq> Using key' k" using lent_onceD(2) [OF inv tj i] False by blast
    with slot_change_lent(2) [OF change] lent_onceD(1) [OF inv tj] show ?thesis by auto
  qed
next
  fix j l key' k
  assume j: "j < length (ts[i := t])" "ts[i := t] ! j = Using key' k"
    and l: "l < length (ts[i := t])" "ts[i := t] ! l = Using key' k"
  have other: False if "t = Using key' k" "n < length ts" "n \<noteq> i" "ts[i := t] ! n = Using key' k" for n
    using slot_change_lent(1) [OF change that(1)] lent_onceD(1) [OF inv that(2), of key' k] that(3,4) by simp
  show "j = l"
  proof (cases "j = i \<or> l = i")
    case True
    with i j l have "t = Using key' k" by (auto simp: nth_list_update)
    with True j l other [of j] other [of l] show ?thesis by (metis length_list_update)
  next
    case False
    with j l lent_onceD(2) [OF inv, of j key' k l] show ?thesis by simp
  qed
qed

lemma lent_once_rest:
  assumes "lent_once S ts"
  shows "lent_once S (ts[i := Resting])"
proof -
  have "j < length ts \<and> ts ! j = Using key k" if "j < length (ts[i := Resting])" "ts[i := Resting] ! j = Using key k" for j key k
    using that by (cases "j = i") auto
  with lent_onceD [OF assms] show ?thesis by (intro lent_onceI) blast+
qed

lemma slot_step_inv:
  assumes "slot_step limit cancels s s'" "slot_inv limit s"
  shows "slot_inv limit s'"
  using assms
proof (induction rule: slot_step.induct)
  case (slot_moves i ts key S x t)
  then have "finite (dom (sl_slots x)) \<and> sl_reserved x + card (dom (sl_slots x)) \<le> limit"
    by (intro slot_change_bound [OF slot_moves.hyps(2)]) (simp_all add: slots_bounded_def)
  moreover have "lent_once (S(key := x)) (ts[i := t])"
    using slot_moves.prems slot_moves.hyps by (intro slot_moves_lent) simp_all
  ultimately show ?case using slot_moves.prems by (simp add: slots_bounded_def)
next
  case (slot_purge S key m ts)
  have old: "finite (dom (sl_slots (S key)))" "sl_reserved (S key) + card (dom (sl_slots (S key))) \<le> limit"
    using slot_purge.prems by (simp_all add: slots_bounded_def)
  from purged_dom [OF slot_purge.hyps] old have "finite (dom m)" "card (dom m) \<le> card (dom (sl_slots (S key)))"
    by (auto intro: finite_subset card_mono)
  moreover from this old(2) have "sl_reserved (S key) + card (dom m) \<le> limit" by linarith
  ultimately have "slots_bounded limit (S(key := (S key)\<lparr>sl_slots := m\<rparr>))"
    using slot_purge.prems by (simp add: slots_bounded_def)
  moreover have "lent_once (S(key := (S key)\<lparr>sl_slots := m\<rparr>)) ts"
    using slot_purge.prems purged_Lent [OF slot_purge.hyps] by (intro lent_onceI) (auto dest: lent_onceD)
  ultimately show ?case by simp
next
  case (slot_cancel i ts S)
  then show ?case by (simp add: lent_once_rest)
qed

lemma slot_init_inv: "slot_init s \<Longrightarrow> slot_inv limit s"
proof (cases s)
  case (Slots S ts)
  assume "slot_init s"
  then have "slots_bounded limit S" by (simp add: Slots slots_bounded_def no_slots_def)
  moreover have "ts ! i = Resting" if "i < length ts" for i
    using \<open>slot_init s\<close> that by (simp add: Slots)
  then have "lent_once S ts" by (intro lent_onceI) auto
  ultimately show ?thesis by (simp add: Slots)
qed

interpretation slots: invariant_system slot_init "slot_step limit cancels" "slot_inv limit" for limit cancels
  by unfold_locales (fact slot_init_inv, rule slot_step_inv)

section \<open>The abstraction\<close>

definition slot_of :: "('h2, 'h1) pooled_connection \<Rightarrow> slot" where
  "slot_of c = (case conn_sender c of
      ConnH2 _ \<Rightarrow> Shared | ConnH1 s \<Rightarrow> (case s of None \<Rightarrow> Lent | Some _ \<Rightarrow> Free))"

definition conn_slots :: "('h2, 'h1) pooled_connection list \<Rightarrow> (usize \<rightharpoonup> slot)" where
  "conn_slots cs = map_of (map (\<lambda>c. (conn_id c, slot_of c)) cs)"

definition entry_slots :: "('h2, 'h1, 'n) host_pool \<Rightarrow> host_slots" where
  "entry_slots hp = \<lparr>sl_reserved = opening_count hp, sl_slots = conn_slots (connections hp)\<rparr>"

definition pools_slots :: "('h2, 'h1, 'n) host_pools \<Rightarrow> host_key \<Rightarrow> host_slots" where
  "pools_slots pools key = (case pools key of None \<Rightarrow> no_slots | Some hp \<Rightarrow> entry_slots hp)"

fun abs_task :: "('h2, 'h1) task \<Rightarrow> slot_task" where
  "abs_task Idle = Resting"
| "abs_task (Opening key f) = Reserving key"
| "abs_task (Holding key h) = (case handle_sender h of
      HandleH1 _ \<Rightarrow> Using key (connection_id h) | HandleH2 _ \<Rightarrow> Sharing key)"

fun abs_system :: "('h2, 'h1, 'n, 'w) pool_system \<Rightarrow> slot_system" where
  "abs_system (System pools w ts) = Slots (pools_slots pools) (map abs_task ts)"

section \<open>The passes over the connections, on slots\<close>

lemma conn_slots_simps [simp]:
  "conn_slots [] = Map.empty" "conn_slots (c # cs) = (conn_slots cs)(conn_id c \<mapsto> slot_of c)"
  by (simp_all add: conn_slots_def)

lemma conn_slots_None: "conn_slots cs i = None \<longleftrightarrow> i \<notin> conn_id ` set cs"
  by (induction cs) auto

lemma conn_slots_Some:
  "distinct (map conn_id cs) \<Longrightarrow> conn_slots cs i = Some s \<longleftrightarrow> (\<exists>c \<in> set cs. conn_id c = i \<and> slot_of c = s)"
proof (induction cs)
  case (Cons c cs)
  then have "conn_id d \<noteq> conn_id c" if "d \<in> set cs" for d
    using that by (metis distinct.simps(2) list.simps(9) image_eqI list.set_map)
  with Cons show ?case by auto
qed simp

lemma dom_conn_slots: "dom (conn_slots cs) = conn_id ` set cs"
  by (auto simp: dom_def) (metis conn_slots_None imageI option.distinct(1) option.exhaust)+

lemma card_conn_slots: "distinct (map conn_id cs) \<Longrightarrow> card (dom (conn_slots cs)) = length cs"
  unfolding dom_conn_slots by (metis distinct_card length_map list.set_map)

lemma slot_of_h1: "is_h1 c \<longleftrightarrow> slot_of c \<noteq> Shared"
  by (auto simp: is_h1_def slot_of_def split: connection_sender.splits option.splits)

lemma retained_slots:
  assumes "distinct (map conn_id cs)" "subseq live cs" "filter is_h1 live = filter is_h1 cs"
  shows "purged (conn_slots cs) (conn_slots live)"
  unfolding purged_def
proof
  fix i
  have dist: "distinct (map conn_id live)" using subseq_distinct_ids [OF assms(2,1)] .
  show "conn_slots live i = conn_slots cs i \<or> conn_slots cs i = Some Shared \<and> conn_slots live i = None"
  proof (cases "conn_slots live i")
    case (Some s)
    then obtain c where "c \<in> set live" "conn_id c = i" "slot_of c = s" using conn_slots_Some [OF dist] by blast
    with subseq_set [OF assms(2)] have "conn_slots cs i = Some s" using conn_slots_Some [OF assms(1)] by blast
    with Some show ?thesis by simp
  next
    case none: None
    show ?thesis
    proof (cases "conn_slots cs i")
      case None
      with none show ?thesis by simp
    next
      case (Some s)
      then obtain c where c: "c \<in> set cs" "conn_id c = i" "slot_of c = s" using conn_slots_Some [OF assms(1)] by blast
      have "\<not> is_h1 c"
      proof
        assume "is_h1 c"
        then have "c \<in> set (filter is_h1 live)" using c assms(3) by simp
        with c none show False by (auto simp: conn_slots_None)
      qed
      with Some none c slot_of_h1 show ?thesis by auto
    qed
  qed
qed

lemma taken_slots:
  "take_idle cs = Some (h, cs') \<Longrightarrow> distinct (map conn_id cs) \<Longrightarrow>
     conn_slots cs (connection_id h) = Some Free \<and> conn_slots cs' = (conn_slots cs)(connection_id h \<mapsto> Lent)"
proof (induction cs arbitrary: h cs')
  case Nil
  then show ?case by simp
next
  case (Cons c cs)
  show ?case
  proof (cases "\<exists>s. conn_sender c = ConnH1 (Some s)")
    case True
    with Cons.prems show ?thesis by (auto simp: slot_of_def fun_eq_iff)
  next
    case False
    with Cons.prems(1) obtain ds where ds: "take_idle cs = Some (h, ds)" "cs' = c # ds"
      by (auto split: connection_sender.splits option.splits)
    note ih = Cons.IH [OF ds(1)]
    have "connection_id h \<noteq> conn_id c"
      using take_idle_Some [OF ds(1)] Cons.prems(2) by auto
    with ih ds Cons.prems(2) show ?thesis by (auto simp: fun_upd_twist)
  qed
qed

lemma put_back_slots:
  "conn_slots cs i = Some Lent \<Longrightarrow> conn_slots (put_back i s cs) = (conn_slots cs)(i \<mapsto> Free)"
  by (induction cs)
    (auto simp: slot_of_def fun_upd_twist split: if_splits connection_sender.splits option.splits)

lemma removed_slots: "conn_slots (filter (\<lambda>c. conn_id c \<noteq> i) cs) = (conn_slots cs)(i := None)"
  by (induction cs) (auto simp: fun_upd_twist)

lemma added_slots:
  "conn_id c \<notin> conn_id ` set cs \<Longrightarrow> conn_slots (cs @ [c]) = (conn_slots cs)(conn_id c \<mapsto> slot_of c)"
  by (induction cs) (auto simp: fun_upd_twist)

lemma checked_out_lent:
  "distinct (map conn_id cs) \<Longrightarrow> 0 < count_if (checked_out i) cs \<Longrightarrow> conn_slots cs i = Some Lent"
  by (auto simp: conn_slots_Some count_if_zero [symmetric] slot_of_def checked_out_def zero_less_iff_neq_zero count_if_zero)

lemma found_shared:
  "c \<in> set cs \<Longrightarrow> conn_sender c = ConnH2 s \<Longrightarrow> distinct (map conn_id cs) \<Longrightarrow> conn_slots cs (conn_id c) = Some Shared"
  by (auto simp: conn_slots_Some slot_of_def)

section \<open>Simulation\<close>

lemma pools_slots_simps [simp]:
  "pools_slots (pools(key \<mapsto> hp)) = (pools_slots pools)(key := entry_slots hp)"
  "pools_slots (pools(key := None)) = (pools_slots pools)(key := no_slots)"
  by (auto simp: pools_slots_def fun_eq_iff)

lemma pools_slots_Some: "pools key = Some hp \<Longrightarrow> pools_slots pools key = entry_slots hp"
  by (simp add: pools_slots_def)

lemma pools_slots_None: "pools key = None \<Longrightarrow> pools_slots pools key = no_slots"
  by (simp add: pools_slots_def)

lemma entry_slots_simps [simp]:
  "sl_reserved (entry_slots hp) = opening_count hp" "sl_slots (entry_slots hp) = conn_slots (connections hp)"
  "entry_slots (hp\<lparr>connections := cs\<rparr>) = (entry_slots hp)\<lparr>sl_slots := conn_slots cs\<rparr>"
  "entry_slots (hp\<lparr>opening_count := n\<rparr>) = (entry_slots hp)\<lparr>sl_reserved := n\<rparr>"
  "entry_slots (hp\<lparr>next_id := n\<rparr>) = entry_slots hp" "entry_slots (hp\<lparr>protocol := p\<rparr>) = entry_slots hp"
  by (simp_all add: entry_slots_def)

abbreviation "slot_limit cfg \<equiv> max 1 (connections_per_host cfg)"

lemma entry_okD:
  assumes "entry_ok cfg hp"
  shows "distinct (map conn_id (connections hp))" and "next_id hp \<notin> conn_id ` set (connections hp)"
  using assms by (auto simp: entry_ok_def)

text \<open>
  An acquirer's section on an entry: dead shared slots go, and then its task makes one move.
\<close>

definition section_sim ::
    "config \<Rightarrow> host_key \<Rightarrow> ('h2, 'h1, 'n) host_pool \<Rightarrow>
     ('h2, 'h1, 'n) acquire_action outcome \<times> (('h2, 'h1, 'n) host_pool \<times> 'w) \<Rightarrow> bool" where
  "section_sim cfg key hp res \<longleftrightarrow> (\<exists>a hp' w' m. res = (Val a, (hp', w')) \<and>
     purged (conn_slots (connections hp)) m \<and>
     slot_change (slot_limit cfg) key ((entry_slots hp)\<lparr>sl_slots := m\<rparr>) Resting (entry_slots hp')
       (abs_task (after_action key a)))"

lemma purged_refl [simp]: "purged m m"
  by (simp add: purged_def)

lemma same_slots [simp]: "x\<lparr>sl_slots := sl_slots x\<rparr> = (x :: host_slots)"
  by simp

lemma scale_or_wait_sim:
  assumes "entry_ok cfg hp" "connections_per_host cfg < 2 ^ 64"
    and "purged m (conn_slots (connections hp))" "hp0 = hp\<lparr>connections := cs\<rparr>" "m = conn_slots cs"
  shows "section_sim cfg key hp0 (scale_or_wait oc cfg (hp, w))"
proof (cases "length (connections hp) + opening_count hp < connections_per_host cfg")
  case True
  have "slot_change (slot_limit cfg) key (entry_slots hp) Resting
      ((entry_slots hp)\<lparr>sl_reserved := Suc (sl_reserved (entry_slots hp))\<rparr>) (Reserving key)"
    using True card_conn_slots [OF entry_okD(1) [OF assms(1)]] by (intro slot_reserve) simp
  then have "slot_change (slot_limit cfg) key ((entry_slots hp0)\<lparr>sl_slots := conn_slots (connections hp)\<rparr>) Resting
      (entry_slots (hp\<lparr>opening_count := Suc (opening_count hp)\<rparr>)) (abs_task (after_action key (OpenNew False)))"
    by (simp add: assms(4) after_action_def entry_slots_def)
  with True assms show ?thesis
    unfolding section_sim_def scale_or_wait_eq [OF assms(1,2)]
    by (intro exI [of _ "OpenNew False"] exI [of _ "hp\<lparr>opening_count := Suc (opening_count hp)\<rparr>"] exI [of _ w]
        exI [of _ "conn_slots (connections hp)"]) simp
next
  case False
  have "slot_change (slot_limit cfg) key ((entry_slots hp0)\<lparr>sl_slots := conn_slots (connections hp)\<rparr>) Resting
      (entry_slots hp) (abs_task (after_action key (Wait (notify hp))))"
    by (simp add: assms(4) after_action_def entry_slots_def slot_rest)
  with False assms show ?thesis
    unfolding section_sim_def scale_or_wait_eq [OF assms(1,2)]
    by (intro exI [of _ "Wait (notify hp)"] exI [of _ hp] exI [of _ w] exI [of _ "conn_slots (connections hp)"]) simp
qed

lemma h1_action_sim:
  assumes ok: "entry_ok cfg hp" "connections_per_host cfg < 2 ^ 64"
  shows "section_sim cfg key hp (h1_action oc cfg (hp, w))"
proof (cases "take_idle (connections hp)")
  case None
  have "section_sim cfg key hp (scale_or_wait oc cfg (hp, w))"
    by (rule scale_or_wait_sim [where cs = "connections hp", OF ok]) simp_all
  with None show ?thesis by (simp add: h1_action_def)
next
  case (Some r)
  then obtain h cs where r: "take_idle (connections hp) = Some (h, cs)" by (cases r) simp
  from taken_slots [OF r entry_okD(1) [OF ok(1)]] have free: "conn_slots (connections hp) (connection_id h) = Some Free"
    and cs: "conn_slots cs = (conn_slots (connections hp))(connection_id h \<mapsto> Lent)" by simp_all
  obtain s where "handle_sender h = HandleH1 s" using take_idle_Some [OF r] by blast
  then have "abs_task (after_action key (ReturnExisting h :: ('a, 'b, 'c) acquire_action)) = Using key (connection_id h)"
    by (simp add: after_action_def)
  with slot_lend [where x = "entry_slots hp" and i = "connection_id h" and limit = "slot_limit cfg" and key = key] free cs r
  show ?thesis
    unfolding section_sim_def
    by (intro exI [of _ "ReturnExisting h"] exI [of _ "hp\<lparr>connections := cs\<rparr>"] exI [of _ w]
        exI [of _ "conn_slots (connections hp)"]) (simp add: h1_action_def and_then_def entry_slots_def)
qed

lemma h2_action_sim:
  assumes ok: "entry_ok cfg hp" "connections_per_host cfg < 2 ^ 64"
  shows "section_sim cfg key hp (h2_action oc env cfg (hp, w))"
proof -
  obtain live w1 where live: "retain_live env (connections hp) w = (Val live, w1)"
    "subseq live (connections hp)" "filter is_h1 live = filter is_h1 (connections hp)"
    using retain_live_returns [of env "connections hp" w] by blast
  have purged: "purged (conn_slots (connections hp)) (conn_slots live)"
    using retained_slots [OF entry_okD(1) [OF ok(1)] live(2,3)] .
  define hp1 where "hp1 = hp\<lparr>connections := live\<rparr>"
  have ok1: "entry_ok cfg hp1" using ok(1) live(2) by (simp add: hp1_def entry_ok_subseq)
  obtain r w2 where r: "find_ready env live w1 = (Val r, w2)"
    "\<And>h. r = Some h \<Longrightarrow> \<exists>c s. c \<in> set live \<and> conn_sender c = ConnH2 s \<and>
        h = \<lparr>handle_sender = HandleH2 s, connection_id = conn_id c\<rparr>"
    using find_ready_returns [of env live w1] by blast
  have run: "h2_action oc env cfg (hp, w) = (case r of
      Some h \<Rightarrow> (Val (ReturnExisting h), (hp1, w2)) | None \<Rightarrow> scale_or_wait oc cfg (hp1, w2))"
    by (cases r) (simp_all add: h2_action_def on_env_def and_then_def live(1) r(1) hp1_def)
  show ?thesis
  proof (cases r)
    case None
    have "section_sim cfg key hp (scale_or_wait oc cfg (hp1, w2))"
      by (rule scale_or_wait_sim [where cs = "connections hp", OF ok1 ok(2)]) (simp_all add: hp1_def purged)
    with None show ?thesis by (simp add: run)
  next
    case (Some h)
    then obtain c s where c: "c \<in> set live" "conn_sender c = ConnH2 s"
      and h: "h = \<lparr>handle_sender = HandleH2 s, connection_id = conn_id c\<rparr>" using r(2) by blast
    have "conn_slots live (conn_id c) = Some Shared"
      using found_shared [OF c] entry_okD(1) [OF ok1] by (simp add: hp1_def)
    with slot_share [where x = "(entry_slots hp)\<lparr>sl_slots := conn_slots live\<rparr>" and i = "conn_id c"
        and limit = "slot_limit cfg" and key = key] purged
    show ?thesis
      unfolding section_sim_def run Some
      by (intro exI [of _ "ReturnExisting h"] exI [of _ hp1] exI [of _ w2] exI [of _ "conn_slots live"])
        (simp add: h hp1_def after_action_def)
  qed
qed

text \<open>Every step of the pools is a run of the specification.\<close>

text \<open>A single move of a task that opens or holds a connection.\<close>

lemma move_sim:
  assumes "i < length ts" "slot_change (slot_limit cfg) key (pools_slots pools key) (abs_task (ts ! i)) x (abs_task t)"
    and "pools_slots pools' = (pools_slots pools)(key := x)"
  shows "(slot_step (slot_limit cfg) cancels)\<^sup>*\<^sup>* (abs_system (System pools w ts)) (abs_system (System pools' w' (ts[i := t])))"
proof -
  have "slot_change (slot_limit cfg) key (pools_slots pools key) (map abs_task ts ! i) x (abs_task t)"
    using assms(1,2) by simp
  from slot_moves [where S = "pools_slots pools" and key = key and i = i and cancels = cancels, OF _ this] assms(1,3) show ?thesis
    by (intro r_into_rtranclp) (simp add: map_update)
qed

lemma acquire_sim:
  assumes ok: "pools_ok cfg pools" "connections_per_host cfg < 2 ^ 64" and i: "i < length ts" "ts ! i = Idle"
    and run: "determine_action oc env cfg key (pools, w) = (Val a, (pools', w'))"
  shows "(slot_step (slot_limit cfg) cancels)\<^sup>*\<^sup>* (abs_system (System pools w ts))
     (abs_system (System pools' w' (ts[i := after_action key a])))"
proof (cases "pools key")
  case None
  obtain n w1 where "new_notify env w = (n, w1)" by fastforce
  with run None have a: "a = OpenNew True" "pools' = pools(key \<mapsto> new_host_pool n)"
    by (auto simp: determine_action_def on_entry_def)
  have "slot_change (slot_limit cfg) key no_slots Resting (no_slots\<lparr>sl_reserved := Suc (sl_reserved no_slots)\<rparr>) (Reserving key)"
    by (intro slot_reserve) (simp add: no_slots_def)
  then have "slot_change (slot_limit cfg) key (pools_slots pools key) (abs_task (ts ! i)) (entry_slots (new_host_pool n))
      (abs_task (after_action key a))"
    using i None by (simp add: a after_action_def pools_slots_None no_slots_def new_host_pool_def entry_slots_def)
  then show ?thesis by (rule move_sim [OF i(1)]) (simp add: a)
next
  case (Some hp)
  have "section_sim cfg key hp ((case protocol hp of Http2 \<Rightarrow> h2_action oc env cfg | Http1 \<Rightarrow> h1_action oc cfg) (hp, w))"
    using h1_action_sim [OF pools_okD [OF ok(1) Some] ok(2)] h2_action_sim [OF pools_okD [OF ok(1) Some] ok(2)]
    by (cases "protocol hp") simp_all
  with run Some obtain hp' m where pools': "pools' = pools(key \<mapsto> hp')"
    and m: "purged (conn_slots (connections hp)) m"
    and change: "slot_change (slot_limit cfg) key ((entry_slots hp)\<lparr>sl_slots := m\<rparr>) Resting (entry_slots hp')
       (abs_task (after_action key a))"
    by (auto simp: section_sim_def determine_action_def on_entry_def)
  let ?S = "(pools_slots pools)(key := (pools_slots pools key)\<lparr>sl_slots := m\<rparr>)"
  have "slot_step (slot_limit cfg) cancels (Slots (pools_slots pools) (map abs_task ts)) (Slots ?S (map abs_task ts))"
    using m by (intro slot_purge) (simp add: pools_slots_Some [of pools key hp, OF Some])
  moreover have "slot_change (slot_limit cfg) key (?S key) (map abs_task ts ! i) (entry_slots hp') (abs_task (after_action key a))"
    using change i by (simp add: pools_slots_Some [of pools key hp, OF Some])
  from slot_moves [where S = ?S and key = key and i = i and cancels = cancels, OF _ this] i
  have "slot_step (slot_limit cfg) cancels (Slots ?S (map abs_task ts))
      (abs_system (System pools' w' (ts[i := after_action key a])))"
    by (simp add: pools' map_update)
  ultimately show ?thesis by (simp add: converse_rtranclp_into_rtranclp r_into_rtranclp)
qed

lemma opened_sim:
  assumes inv: "pool_inv cfg cancels (System pools w ts)"
    and i: "i < length ts" "ts ! i = Opening key is_first" and ids: "ids_left pools key"
    and run: "insert_opened oc key is_first opened (pools, w) = (Val r, (pools', w'))"
  shows "(slot_step (slot_limit cfg) cancels)\<^sup>*\<^sup>* (abs_system (System pools w ts))
     (abs_system (System pools' w' (ts[i := after_insert key r])))"
proof -
  obtain hp where hp: "pools key = Some hp" "0 < opening_count hp"
    using opening_entry [OF inv i] by blast
  have next_ok: "next_id hp + 1 < 2 ^ 64" using ids hp(1) by (simp add: ids_left_def)
  have fresh: "next_id hp \<notin> conn_id ` set (connections hp)"
    using entry_okD(2) [OF pools_okD [OF pool_invD(1) [OF inv] hp(1)]] .
  note eq = insert_opened_eq [of pools key hp, OF hp next_ok, of oc is_first opened w]
  let ?x = "\<lparr>sl_reserved = opening_count hp - 1, sl_slots = (conn_slots (connections hp))(next_id hp \<mapsto>
      (case opened of OpenedH2 s \<Rightarrow> Shared | OpenedH1 s \<Rightarrow> Lent))\<rparr>"
  have pools': "pools_slots pools' = (pools_slots pools)(key := ?x)"
    using run fresh unfolding eq
    by (cases opened) (auto simp: entry_slots_def added_slots split_opened_def slot_of_def)
  have "conn_slots (connections hp) (next_id hp) = None" using fresh by (simp add: conn_slots_None)
  then have "slot_change (slot_limit cfg) key (entry_slots hp) (Reserving key) ?x (abs_task (after_insert key r))"
    using run hp(2) unfolding eq
    by (cases opened)
      (auto simp: after_insert_def split_opened_def
        intro!: slot_fill [where x = "entry_slots hp", simplified] slot_fill_shared [where x = "entry_slots hp", simplified])
  then show ?thesis
    using i by (intro move_sim [OF i(1) _ pools']) (simp add: pools_slots_Some [of pools key hp, OF hp(1)])
qed

lemma failed_sim:
  assumes inv: "pool_inv cfg cancels (System pools w ts)"
    and i: "i < length ts" "ts ! i = Opening key is_first"
    and run: "fail_opened oc env key (pools, w) = (Val u, (pools', w'))"
  shows "(slot_step (slot_limit cfg) cancels)\<^sup>*\<^sup>* (abs_system (System pools w ts))
     (abs_system (System pools' w' (ts[i := Idle])))"
proof -
  obtain hp where hp: "pools key = Some hp" "0 < opening_count hp"
    using opening_entry [OF inv i] by blast
  let ?x = "(entry_slots hp)\<lparr>sl_reserved := opening_count hp - 1\<rparr>"
  have pools': "pools_slots pools' = (pools_slots pools)(key := ?x)"
    using run unfolding fail_opened_eq [of pools key hp, OF hp]
    by (auto simp: entry_slots_def no_slots_def split: if_splits)
  have "slot_change (slot_limit cfg) key (entry_slots hp) (Reserving key) ?x Resting"
    using hp(2) by (intro slot_fail) simp
  then show ?thesis
    using i by (intro move_sim [OF i(1) _ pools']) (simp add: pools_slots_Some [of pools key hp, OF hp(1)])
qed

lemma give_back_sim:
  assumes inv: "pool_inv cfg cancels (System pools w ts)"
    and i: "i < length ts" "ts ! i = Holding key h"
    and run: "give_back env key h usable (pools, w) = (Val u, (pools', w'))"
  shows "(slot_step (slot_limit cfg) cancels)\<^sup>*\<^sup>* (abs_system (System pools w ts))
     (abs_system (System pools' w' (ts[i := Idle])))"
proof (cases "handle_sender h")
  case (HandleH2 s)
  then have "pools' = pools"
    using run by (auto simp: give_back_def give_back_eqs split: option.splits if_splits)
  with HandleH2 i show ?thesis
    by (intro move_sim [OF i(1), where key = key and x = "pools_slots pools key"]) (simp_all add: slot_leave)
next
  case (HandleH1 s)
  then have "owns h (connection_id h)" by (simp add: owns_def)
  then have out: "0 < out_of pools key (connection_id h)"
    using task_counts(2) [OF i(1), of "holds key (connection_id h)"] i(2) pool_invD(3) [OF inv, of key "connection_id h"]
    by (simp add: counts_agree_def)
  then obtain hp where hp: "pools key = Some hp"
    by (auto simp: out_of_def split: option.splits)
  have lent: "conn_slots (connections hp) (connection_id h) = Some Lent"
    using checked_out_lent [OF entry_okD(1) [OF pools_okD [OF pool_invD(1) [OF inv] hp]]] out
    by (simp add: pools_of_Some [of pools key hp, OF hp])
  let ?x = "(entry_slots hp)\<lparr>sl_slots := (conn_slots (connections hp))(connection_id h := (if usable then Some Free else None))\<rparr>"
  have pools': "pools_slots pools' = (pools_slots pools)(key := ?x)"
    using run hp HandleH1 lent
    by (cases usable) (auto simp: give_back_def give_back_eqs put_back_slots removed_slots)
  have "slot_change (slot_limit cfg) key (entry_slots hp) (Using key (connection_id h)) ?x Resting"
    using slot_give [where x = "entry_slots hp" and i = "connection_id h" and limit = "slot_limit cfg" and key = key]
      slot_discard [where x = "entry_slots hp" and i = "connection_id h" and limit = "slot_limit cfg" and key = key] lent
    by (cases usable) simp_all
  then show ?thesis
    using i HandleH1 by (intro move_sim [OF i(1) _ pools']) (simp add: pools_slots_Some [of pools key hp, OF hp])
qed

lemma pool_step_sim:
  assumes "pool_step oc env cfg cancels s s'" "pool_inv cfg cancels s"
  shows "(slot_step (slot_limit cfg) cancels)\<^sup>*\<^sup>* (abs_system s) (abs_system s')"
  using assms
proof (induction rule: pool_step.induct)
  case (step_acquire i ts key pools w a pools' w')
  from pool_invD(1,4) [OF step_acquire.prems] step_acquire.hyps show ?case by (rule acquire_sim)
next
  case (step_opened i ts key is_first pools opened w r pools' w')
  from opened_sim [OF step_opened.prems step_opened.hyps] show ?case .
next
  case (step_open_failed i ts key is_first pools w u pools' w')
  from failed_sim [OF step_open_failed.prems step_open_failed.hyps] show ?case .
next
  case (step_give_back i ts key h usable pools w u pools' w')
  from give_back_sim [OF step_give_back.prems step_give_back.hyps] show ?case .
next
  case (step_cancel i ts pools w)
  then show ?case by (intro r_into_rtranclp) (simp add: map_update slot_cancel)
next
  case (step_world pools w ts w')
  show ?case by simp
qed

lemma pool_init_sim: "pool_init cfg s \<Longrightarrow> slot_init (abs_system s)"
  by (cases s) (auto simp: pool_init_def pools_slots_def)

interpretation slot_pool: simulation "pool_init cfg" "pool_step oc env cfg cancels" "pool_inv cfg cancels"
  slot_init "slot_step (slot_limit cfg) cancels" abs_system
  for cfg oc env cancels
  by unfold_locales (fact pool_init_sim, rule pool_step_sim)

section \<open>Properties\<close>

text \<open>
  C6.  The pool implements its specification: every reachable state of the pools and the
  tasks stands for a reachable state of the slots, every step, with tasks dropped at any
  await, is a run of the slots, and so each connection a task holds alone is lent to it.
\<close>
theorem pool_refines_slots:
  assumes "pool_reachable oc env cfg cancels s"
  shows "reachable slot_init (slot_step (max 1 (connections_per_host cfg)) cancels) (abs_system s) \<and>
     (\<forall>s'. pool_step oc env cfg cancels s s' \<longrightarrow>
        (slot_step (max 1 (connections_per_host cfg)) cancels)\<^sup>*\<^sup>* (abs_system s) (abs_system s')) \<and>
     slot_inv (max 1 (connections_per_host cfg)) (abs_system s)"
  using slot_pool.reachable_abs [OF assms] slot_pool.reachable_step_sim [OF assms]
    slots.reachable_inv [OF slot_pool.reachable_abs [OF assms]] by blast

theorem pool_refines_slots_witness:
  "reachable slot_init (slot_step 1 False)
     (Slots ((\<lambda>key. no_slots)(demo_key := \<lparr>sl_reserved = 0, sl_slots = [0 \<mapsto> Lent]\<rparr>)) [Using demo_key 0])"
proof -
  have "abs_system (System [demo_key \<mapsto> h1_entry ()] 0 [Holding demo_key demo_handle]) =
      Slots ((\<lambda>key. no_slots)(demo_key := \<lparr>sl_reserved = 0, sl_slots = [0 \<mapsto> Lent]\<rparr>)) [Using demo_key 0]"
    by (simp add: demo_handle_def h1_entry_def entry_slots_def slot_of_def) (simp add: pools_slots_def fun_eq_iff)
  with pool_refines_slots [OF demo_holding(2) [of False]] show ?thesis by simp
qed

end
