(* ===== verification/Output.thy ===== *)
theory Output
  imports Naming Rust_F64
begin

text \<open>
  \<open>output/validation.rs\<close>, \<open>writer.rs\<close>, \<open>metadata.rs\<close> and \<open>summary.rs\<close>: the checks on a
  downloaded body, the paths the files are written to, and the statistics of a batch.
  Header maps (\<open>http\<close>), the file system (\<open>tokio::fs\<close>) and the JSON encoders (\<open>serde_json\<close>)
  are parameters.  The paths of \<open>std\<close> are written out, for Unix.
\<close>

section \<open>The environment\<close>

text \<open>\<open>HeaderMap\<close>: the first value of a name, and a value as a string when it is visible ASCII.\<close>

record ('hm, 'hv) header_ops =
  header_get :: "'hm \<Rightarrow> rstr \<Rightarrow> 'hv option"
  header_iter :: "'hm \<Rightarrow> (rstr \<times> 'hv) list"
  header_to_str :: "'hv \<Rightarrow> rstr + rstr"

text \<open>\<open>to_str().unwrap_or("")\<close> and \<open>to_str().ok()\<close>.\<close>

definition header_str :: "('hm, 'hv) header_ops \<Rightarrow> 'hv \<Rightarrow> rstr" where
  "header_str ho v = (case header_to_str ho v of Inr s \<Rightarrow> s | Inl _ \<Rightarrow> [])"

definition header_str_ok :: "('hm, 'hv) header_ops \<Rightarrow> 'hv \<Rightarrow> rstr option" where
  "header_str_ok ho v = (case header_to_str ho v of Inr s \<Rightarrow> Some s | Inl _ \<Rightarrow> None)"

text \<open>\<open>tokio::fs\<close>: an I/O error is its message.\<close>

record 'w fs_ops =
  fs_write :: "path \<Rightarrow> bytes \<Rightarrow> ('w, rstr + unit) prog"
  fs_create_dir_all :: "path \<Rightarrow> ('w, rstr + unit) prog"

section \<open>Validation\<close>

definition validate_response :: "('hm, 'hv) header_ops \<Rightarrow> bytes \<Rightarrow> 'hm \<Rightarrow> download_error + unit" where
  "validate_response ho bs headers =
     (if bs = [] then Inl (ValidationFailed (lit ''empty response body''))
      else case header_get ho headers (lit ''content-length'') of
          None \<Rightarrow> Inr ()
        | Some cl \<Rightarrow>
            (case parse_unsigned usize_max (header_str ho cl) of
               None \<Rightarrow> Inr ()
             | Some expected \<Rightarrow>
                 (let actual = length bs
                  in if expected \<noteq> actual
                     then Inl (ValidationFailed (lit ''content-length mismatch: expected '' @ show_nat expected @
                            lit '', got '' @ show_nat actual))
                     else Inr ())))"

section \<open>Paths\<close>

text \<open>\<open>dir.join(name)\<close>: an absolute name replaces the directory.\<close>

definition path_join :: "path \<Rightarrow> rstr \<Rightarrow> path" where
  "path_join dir name =
     (if name \<noteq> [] \<and> hd name = ch_slash then name
      else if dir = [] \<or> last dir = ch_slash then dir @ name
      else dir @ ch_slash # name)"

text \<open>Trailing separators and \<open>.\<close> components do not count (the path is reversed).\<close>

fun trim_tail :: "rstr \<Rightarrow> rstr" where
  "trim_tail (c # d # s) =
     (if c = ch_slash then trim_tail (d # s)
      else if c = ch_dot \<and> d = ch_slash then trim_tail (d # s)
      else c # d # s)"
| "trim_tail s = s"

text \<open>The last component and what precedes it.\<close>

definition path_file_name :: "path \<Rightarrow> rstr option" where
  "path_file_name p =
     (let name = rev (takeWhile (\<lambda>c. c \<noteq> ch_slash) (trim_tail (rev p)))
      in if name = [] \<or> name = lit ''.'' \<or> name = lit ''..'' then None else Some name)"

definition path_parent :: "path \<Rightarrow> path" where
  "path_parent p = rev (trim_tail (dropWhile (\<lambda>c. c \<noteq> ch_slash) (trim_tail (rev p))))"

definition path_with_file_name :: "path \<Rightarrow> rstr \<Rightarrow> path" where
  "path_with_file_name p name =
     path_join (if path_file_name p = None then p else path_parent p) name"

section \<open>Writing\<close>

definition write_image :: "'w fs_ops \<Rightarrow> bytes \<Rightarrow> path \<Rightarrow> ('w, download_error + unit) prog" where
  "write_image fs bs p =
     and_then (fs_write fs p bs) (\<lambda>r. ret (case r of Inl e \<Rightarrow> Inl (WriteError e) | Inr u \<Rightarrow> Inr u))"

record file_metadata =
  fm_url :: rstr
  fm_filename :: rstr
  fm_size_bytes :: u64
  fm_content_hash :: "rstr option"
  fm_content_type :: "rstr option"
  fm_elapsed_ms :: f64
  fm_downloaded_at :: rstr
  fm_headers :: "rstr \<rightharpoonup> rstr"

definition sidecar_path :: "path \<Rightarrow> path" where
  "sidecar_path image_path =
     (let name = (case path_file_name image_path of Some n \<Rightarrow> n | None \<Rightarrow> []) @ lit ''.json''
      in path_with_file_name image_path name)"

text \<open>\<open>json\<close> is \<open>serde_json::to_string_pretty\<close>, with the message of its error.\<close>

definition write_metadata_sidecar ::
    "'w fs_ops \<Rightarrow> (file_metadata \<Rightarrow> rstr + bytes) \<Rightarrow> path \<Rightarrow> file_metadata \<Rightarrow> ('w, download_error + unit) prog" where
  "write_metadata_sidecar fs json image_path metadata =
     (case json metadata of
        Inl e \<Rightarrow> ret (Inl (WriteError e))
      | Inr text \<Rightarrow> write_image fs text (sidecar_path image_path))"

section \<open>Summary\<close>

record host_stats =
  hs_requests :: usize
  hs_successful :: usize
  hs_failed :: usize
  hs_total_bytes :: u64
  hs_avg_elapsed_ms :: f64

record result_summary =
  rs_url :: rstr
  rs_success :: bool
  rs_size_bytes :: "u64 option"
  rs_elapsed_ms :: f64
  rs_error :: "rstr option"

record batch_summary =
  bs_config :: config
  bs_total_urls :: usize
  bs_unique_urls :: usize
  bs_successful :: usize
  bs_failed :: usize
  bs_total_bytes :: u64
  bs_total_elapsed_ms :: f64
  bs_per_host_stats :: "rstr \<rightharpoonup> host_stats"
  bs_results :: "result_summary list"

definition extract_host :: "rstr \<Rightarrow> rstr" where
  "extract_host u =
     (case iter_nth (split_on2 ch_slash ch_slash u) 1 of
        None \<Rightarrow> lit ''unknown''
      | Some s \<Rightarrow>
          (case split_first ch_slash s of
             None \<Rightarrow> lit ''unknown''
           | Some t \<Rightarrow> (case split_first 58 t of None \<Rightarrow> lit ''unknown'' | Some h \<Rightarrow> h)))"

type_synonym host_entry = "bool \<times> u64 \<times> f64"

text \<open>The variables of the loop over the results.\<close>

record summary_state =
  ss_successful :: usize
  ss_failed :: usize
  ss_total_bytes :: u64
  ss_host_data :: "rstr \<rightharpoonup> host_entry list"
  ss_results :: "result_summary list"

definition summary_start :: summary_state where
  "summary_start = \<lparr>ss_successful = 0, ss_failed = 0, ss_total_bytes = 0,
     ss_host_data = Map.empty, ss_results = []\<rparr>"

text \<open>\<open>host_data.entry(host).or_default().push(x)\<close>.\<close>

definition push_entry :: "rstr \<Rightarrow> host_entry \<Rightarrow> (rstr \<rightharpoonup> host_entry list) \<Rightarrow> (rstr \<rightharpoonup> host_entry list)" where
  "push_entry host x data =
     data(host \<mapsto> (case data host of None \<Rightarrow> [] | Some xs \<Rightarrow> xs) @ [x])"

definition add_result :: "bool \<Rightarrow> download_result \<Rightarrow> summary_state \<Rightarrow> summary_state outcome" where
  "add_result oc r ss =
     (let host = extract_host (url r)
      in case outcome r of
          Success p sz hash el \<Rightarrow>
            bind_outcome (usize_add oc (ss_successful ss) 1) (\<lambda>n.
            bind_outcome (u64_add oc (ss_total_bytes ss) sz) (\<lambda>total.
            let ms = elapsed_ms_f64 el in
            Val (ss\<lparr>ss_successful := n, ss_total_bytes := total,
                   ss_host_data := push_entry host (True, sz, ms) (ss_host_data ss),
                   ss_results := ss_results ss @ [\<lparr>rs_url = url r, rs_success = True,
                     rs_size_bytes = Some sz, rs_elapsed_ms = ms, rs_error = None\<rparr>]\<rparr>)))
        | Failure e el n \<Rightarrow>
            bind_outcome (usize_add oc (ss_failed ss) 1) (\<lambda>n.
            let ms = elapsed_ms_f64 el in
            Val (ss\<lparr>ss_failed := n,
                   ss_host_data := push_entry host (False, 0, ms) (ss_host_data ss),
                   ss_results := ss_results ss @ [\<lparr>rs_url = url r, rs_success = False,
                     rs_size_bytes = None, rs_elapsed_ms = ms, rs_error = Some (error_display e)\<rparr>]\<rparr>)))"

fun add_results :: "bool \<Rightarrow> download_result list \<Rightarrow> summary_state \<Rightarrow> summary_state outcome" where
  "add_results oc [] ss = Val ss"
| "add_results oc (r # rs) ss = bind_outcome (add_result oc r ss) (add_results oc rs)"

text \<open>\<open>sum::<u64>()\<close> of the sizes of a host's entries.\<close>

fun sum_bytes :: "bool \<Rightarrow> host_entry list \<Rightarrow> u64 \<Rightarrow> u64 outcome" where
  "sum_bytes oc [] acc = Val acc"
| "sum_bytes oc ((s, b, ms) # xs) acc = bind_outcome (u64_add oc acc b) (sum_bytes oc xs)"

definition host_stats_of :: "bool \<Rightarrow> host_entry list \<Rightarrow> host_stats outcome" where
  "host_stats_of oc entries =
     (let requests = length entries;
          host_successful = length (filter (\<lambda>(s, _, _). s) entries)
      in bind_outcome (usize_sub oc requests host_successful) (\<lambda>host_failed.
         bind_outcome (sum_bytes oc entries 0) (\<lambda>host_bytes.
         let total_ms = f64_sum (map (\<lambda>(_, _, ms). ms) entries);
             avg_ms = (if requests > 0 then f64_div total_ms (f64_of_nat requests) else f64_zero)
         in Val \<lparr>hs_requests = requests, hs_successful = host_successful, hs_failed = host_failed,
                hs_total_bytes = host_bytes, hs_avg_elapsed_ms = avg_ms\<rparr>)))"

text \<open>
  The statistics of every host.  The order in which the hash map is traversed does not
  matter for the map that is collected; a panic for any host is a panic.
\<close>

definition per_host_stats :: "bool \<Rightarrow> rstr list \<Rightarrow> (rstr \<rightharpoonup> host_entry list) \<Rightarrow> (rstr \<rightharpoonup> host_stats) outcome" where
  "per_host_stats oc hosts data =
     fold (\<lambda>host acc. bind_outcome acc (\<lambda>m. case data host of
         None \<Rightarrow> Val m
       | Some entries \<Rightarrow> bind_outcome (host_stats_of oc entries) (\<lambda>st. Val (m(host \<mapsto> st)))))
       hosts (Val Map.empty)"

definition summarize ::
    "bool \<Rightarrow> config \<Rightarrow> download_result list \<Rightarrow> usize \<Rightarrow> usize \<Rightarrow> duration \<Rightarrow> batch_summary outcome" where
  "summarize oc cfg results total_urls unique_urls batch_elapsed =
     bind_outcome (add_results oc results summary_start) (\<lambda>ss.
     bind_outcome (per_host_stats oc (remdups (map (\<lambda>r. extract_host (url r)) results)) (ss_host_data ss)) (\<lambda>stats.
     Val \<lparr>bs_config = cfg, bs_total_urls = total_urls, bs_unique_urls = unique_urls,
        bs_successful = ss_successful ss, bs_failed = ss_failed ss, bs_total_bytes = ss_total_bytes ss,
        bs_total_elapsed_ms = elapsed_ms_f64 batch_elapsed, bs_per_host_stats = stats,
        bs_results = ss_results ss\<rparr>))"

definition write_batch_summary ::
    "bool \<Rightarrow> 'w fs_ops \<Rightarrow> (batch_summary \<Rightarrow> rstr + bytes) \<Rightarrow> path \<Rightarrow> config \<Rightarrow> download_result list \<Rightarrow>
     usize \<Rightarrow> usize \<Rightarrow> duration \<Rightarrow> ('w, download_error + unit) prog" where
  "write_batch_summary oc fs json output_dir cfg results total_urls unique_urls batch_elapsed =
     and_then (lift_outcome (summarize oc cfg results total_urls unique_urls batch_elapsed)) (\<lambda>summary.
     case json summary of
       Inl e \<Rightarrow> ret (Inl (WriteError e))
     | Inr text \<Rightarrow> write_image fs text (path_join output_dir (lit ''summary.json'')))"

section \<open>Lemmas: the summary ends\<close>

lemma usize_u64_ends: "usize_add oc a b \<noteq> Diverges" "usize_sub oc a b \<noteq> Diverges" "u64_add oc c d \<noteq> Diverges"
  by (simp_all add: usize_add_def usize_sub_def u64_add_def)

lemma add_result_ends: "add_result oc r ss \<noteq> Diverges"
  by (auto simp: add_result_def Let_def bind_outcome_ends usize_u64_ends split: download_outcome.split)

lemma add_results_ends: "add_results oc rs ss \<noteq> Diverges"
  by (induction rs arbitrary: ss) (auto simp: bind_outcome_ends add_result_ends)

lemma sum_bytes_ends: "sum_bytes oc xs acc \<noteq> Diverges"
  by (induction oc xs acc rule: sum_bytes.induct) (auto simp: bind_outcome_ends usize_u64_ends)

lemma per_host_stats_ends: "per_host_stats oc hosts data \<noteq> Diverges"
proof -
  have one: "host_stats_of oc entries \<noteq> Diverges" for entries
    by (auto simp: host_stats_of_def Let_def bind_outcome_ends usize_u64_ends sum_bytes_ends)
  have "acc \<noteq> Diverges \<Longrightarrow> fold (\<lambda>host acc. bind_outcome acc (\<lambda>m. case data host of
        None \<Rightarrow> Val m
      | Some entries \<Rightarrow> bind_outcome (host_stats_of oc entries) (\<lambda>st. Val (m(host \<mapsto> st))))) hosts acc \<noteq> Diverges" for acc
    by (induction hosts arbitrary: acc) (auto simp: bind_outcome_ends one split: option.split)
  then show ?thesis by (simp add: per_host_stats_def)
qed

lemma summarize_ends: "summarize oc cfg results n m el \<noteq> Diverges"
  by (auto simp: summarize_def bind_outcome_ends add_results_ends per_host_stats_ends)

section \<open>Lemmas: paths\<close>

lemma path_join_prefix:
  assumes "n \<noteq> []" "ch_slash \<notin> set n"
  shows "path_join dir n = (if dir = [] \<or> last dir = ch_slash then dir else dir @ [ch_slash]) @ n"
  using assms by (cases n) (auto simp: path_join_def)

lemma trim_tail_name:
  assumes "n \<noteq> []" "ch_slash \<notin> set n" "n \<noteq> lit ''.''" "pre = [] \<or> last pre = ch_slash"
  shows "trim_tail (rev (pre @ n)) = rev n @ rev pre"
proof (cases n rule: rev_cases)
  case Nil
  with assms show ?thesis by simp
next
  case (snoc m c)
  with assms show ?thesis
    by (cases m rule: rev_cases; cases "rev pre") auto
qed

lemma takeWhile_no_slash:
  "ch_slash \<notin> set n \<Longrightarrow> pre = [] \<or> last pre = ch_slash \<Longrightarrow>
     takeWhile (\<lambda>c. c \<noteq> ch_slash) (rev n @ rev pre) = rev n \<and>
     dropWhile (\<lambda>c. c \<noteq> ch_slash) (rev n @ rev pre) = rev pre"
proof (cases pre rule: rev_cases)
  case Nil
  assume "ch_slash \<notin> set n"
  then have "\<forall>c \<in> set (rev n). c \<noteq> ch_slash" by auto
  with Nil show ?thesis by simp
next
  case (snoc p c)
  assume n: "ch_slash \<notin> set n" and "pre = [] \<or> last pre = ch_slash"
  with snoc have "rev pre = ch_slash # rev p" by simp
  moreover have "\<forall>c \<in> set (rev n). c \<noteq> ch_slash" using n by auto
  ultimately show ?thesis by (simp add: takeWhile_append dropWhile_append)
qed

text \<open>A directory without a trailing separator.\<close>

definition plain_dir :: "path \<Rightarrow> bool" where
  "plain_dir dir \<longleftrightarrow> trim_tail (rev dir) = rev dir"

lemma sidecar_path_eq:
  assumes n: "n \<noteq> []" "ch_slash \<notin> set n" "n \<noteq> lit ''.''" "n \<noteq> lit ''..''" and dir: "plain_dir dir"
  shows "sidecar_path (path_join dir n) = path_join dir n @ lit ''.json''"
proof -
  define pre where "pre = (if dir = [] \<or> last dir = ch_slash then dir else dir @ [ch_slash])"
  have pre: "pre = [] \<or> last pre = ch_slash" by (auto simp: pre_def)
  have join: "path_join dir n = pre @ n" using path_join_prefix [OF n(1,2)] by (simp add: pre_def)
  have trim: "trim_tail (rev (pre @ n)) = rev n @ rev pre" by (rule trim_tail_name [OF n(1-3) pre])
  have fname: "path_file_name (pre @ n) = Some n"
    unfolding path_file_name_def trim
    using takeWhile_no_slash [OF n(2) pre] n by simp
  have "path_parent (pre @ n) = rev (trim_tail (rev pre))"
    unfolding path_parent_def trim using takeWhile_no_slash [OF n(2) pre] by simp
  also have "\<dots> = dir"
  proof (cases "dir = [] \<or> last dir = ch_slash")
    case True
    with dir show ?thesis by (simp add: pre_def plain_dir_def)
  next
    case False
    then obtain c d where "rev dir = c # d" by (cases "rev dir") auto
    with dir False show ?thesis by (simp add: pre_def plain_dir_def)
  qed
  finally have parent: "path_parent (pre @ n) = dir" .
  have "path_join dir (n @ lit ''.json'') = pre @ n @ lit ''.json''"
    using n(1,2) path_join_prefix [of "n @ lit ''.json''" dir] by (simp add: pre_def)
  then show ?thesis
    by (simp add: sidecar_path_def path_with_file_name_def join fname parent)
qed

section \<open>Lemmas: summary\<close>

definition size_of :: "download_result \<Rightarrow> nat" where
  "size_of r = (case outcome r of Success p sz h el \<Rightarrow> unat sz | Failure e el n \<Rightarrow> 0)"

definition entry_of :: "download_result \<Rightarrow> host_entry" where
  "entry_of r = (case outcome r of
      Success p sz h el \<Rightarrow> (True, sz, elapsed_ms_f64 el) | Failure e el n \<Rightarrow> (False, 0, elapsed_ms_f64 el))"

definition summary_of :: "download_result \<Rightarrow> result_summary" where
  "summary_of r = (case outcome r of
      Success p sz h el \<Rightarrow> \<lparr>rs_url = url r, rs_success = True, rs_size_bytes = Some sz,
         rs_elapsed_ms = elapsed_ms_f64 el, rs_error = None\<rparr>
    | Failure e el n \<Rightarrow> \<lparr>rs_url = url r, rs_success = False, rs_size_bytes = None,
         rs_elapsed_ms = elapsed_ms_f64 el, rs_error = Some (error_display e)\<rparr>)"

definition host_results :: "rstr \<Rightarrow> download_result list \<Rightarrow> download_result list" where
  "host_results h rs = filter (\<lambda>r. extract_host (url r) = h) rs"

definition push_all :: "download_result list \<Rightarrow> (rstr \<rightharpoonup> host_entry list) \<Rightarrow> (rstr \<rightharpoonup> host_entry list)" where
  "push_all rs data = fold (\<lambda>r. push_entry (extract_host (url r)) (entry_of r)) rs data"

lemma push_all_host:
  "push_all rs data h =
     (if host_results h rs = [] then data h
      else Some ((case data h of None \<Rightarrow> [] | Some xs \<Rightarrow> xs) @ map entry_of (host_results h rs)))"
proof (induction rs arbitrary: data)
  case Nil
  then show ?case by (simp add: push_all_def host_results_def)
next
  case (Cons r rs)
  then show ?case by (auto simp: push_all_def host_results_def push_entry_def)
qed

lemma u64_add_fits:
  assumes "unat a + unat b < 2 ^ 64"
  shows "u64_add oc a b = Val (a + b)" "unat (a + b) = unat a + unat b"
  using assms by (simp_all add: u64_add_def unat_word_ariths)

lemma add_result_eq:
  assumes "ss_successful ss + ss_failed ss + 1 < 2 ^ 64" "unat (ss_total_bytes ss) + size_of r < 2 ^ 64"
  shows "\<exists>ss'. add_result oc r ss = Val ss' \<and>
     ss_successful ss' = ss_successful ss + (if is_success r then 1 else 0) \<and>
     ss_failed ss' = ss_failed ss + (if is_success r then 0 else 1) \<and>
     unat (ss_total_bytes ss') = unat (ss_total_bytes ss) + size_of r \<and>
     ss_host_data ss' = push_all [r] (ss_host_data ss) \<and>
     ss_results ss' = ss_results ss @ [summary_of r]"
proof (cases "outcome r")
  case (Success p sz h el)
  have "usize_add oc (ss_successful ss) 1 = Val (Suc (ss_successful ss))"
    using assms(1) by (subst usize_add_ok) simp_all
  moreover have "unat (ss_total_bytes ss) + unat sz < 2 ^ 64" using assms(2) Success by (simp add: size_of_def)
  note u64_add_fits [OF this]
  ultimately show ?thesis
    using Success by (simp add: add_result_def is_success_def size_of_def summary_of_def entry_of_def push_all_def Let_def)
next
  case (Failure e el n)
  have "usize_add oc (ss_failed ss) 1 = Val (Suc (ss_failed ss))"
    using assms(1) by (subst usize_add_ok) simp_all
  then show ?thesis
    using Failure by (simp add: add_result_def is_success_def size_of_def summary_of_def entry_of_def push_all_def Let_def)
qed

lemma add_results_eq:
  assumes "ss_successful ss + ss_failed ss + length rs < 2 ^ 64"
    and "unat (ss_total_bytes ss) + sum_list (map size_of rs) < 2 ^ 64"
  shows "\<exists>ss'. add_results oc rs ss = Val ss' \<and>
     ss_successful ss' = ss_successful ss + count_if is_success rs \<and>
     ss_failed ss' = ss_failed ss + count_if (\<lambda>r. \<not> is_success r) rs \<and>
     unat (ss_total_bytes ss') = unat (ss_total_bytes ss) + sum_list (map size_of rs) \<and>
     ss_host_data ss' = push_all rs (ss_host_data ss) \<and>
     ss_results ss' = ss_results ss @ map summary_of rs"
  using assms
proof (induction rs arbitrary: ss)
  case Nil
  then show ?case by (simp add: push_all_def)
next
  case (Cons r rs)
  then have pre: "ss_successful ss + ss_failed ss + 1 < 2 ^ 64" "unat (ss_total_bytes ss) + size_of r < 2 ^ 64"
    by simp_all
  obtain ss1 where ss1: "add_result oc r ss = Val ss1"
    "ss_successful ss1 = ss_successful ss + (if is_success r then 1 else 0)"
    "ss_failed ss1 = ss_failed ss + (if is_success r then 0 else 1)"
    "unat (ss_total_bytes ss1) = unat (ss_total_bytes ss) + size_of r"
    "ss_host_data ss1 = push_all [r] (ss_host_data ss)" "ss_results ss1 = ss_results ss @ [summary_of r]"
    using add_result_eq [OF pre, of oc] by blast
  obtain ss2 where "add_results oc rs ss1 = Val ss2"
    "ss_successful ss2 = ss_successful ss1 + count_if is_success rs"
    "ss_failed ss2 = ss_failed ss1 + count_if (\<lambda>r. \<not> is_success r) rs"
    "unat (ss_total_bytes ss2) = unat (ss_total_bytes ss1) + sum_list (map size_of rs)"
    "ss_host_data ss2 = push_all rs (ss_host_data ss1)" "ss_results ss2 = ss_results ss1 @ map summary_of rs"
    using Cons.IH [of ss1] Cons.prems ss1 by (auto split: if_splits)
  with ss1 show ?case by (simp add: push_all_def)
qed

lemma sum_bytes_eq:
  "unat acc + sum_list (map size_of rs) < 2 ^ 64 \<Longrightarrow>
     \<exists>total. sum_bytes oc (map entry_of rs) acc = Val total \<and> unat total = unat acc + sum_list (map size_of rs)"
proof (induction rs arbitrary: acc)
  case Nil
  then show ?case by simp
next
  case (Cons r rs)
  obtain sc b ms where e: "entry_of r = (sc, b, ms)" "unat b = size_of r"
    by (cases "outcome r") (auto simp: entry_of_def size_of_def)
  have "unat acc + unat b < 2 ^ 64" using Cons.prems e(2) by simp
  note fits = u64_add_fits(1) [OF this, of oc] u64_add_fits(2) [OF this]
  have "unat (acc + b) + sum_list (map size_of rs) < 2 ^ 64" using Cons.prems e(2) by (simp add: fits(2))
  from Cons.IH [OF this] show ?case by (auto simp: e fits)
qed

definition stats_ok :: "download_result list \<Rightarrow> host_stats \<Rightarrow> bool" where
  "stats_ok rs st \<longleftrightarrow> hs_requests st = length rs \<and> hs_successful st = count_if is_success rs \<and>
     hs_failed st = count_if (\<lambda>r. \<not> is_success r) rs \<and>
     unat (hs_total_bytes st) = sum_list (map size_of rs)"

lemma count_if_not: "count_if (\<lambda>x. \<not> P x) xs = length xs - count_if P xs"
  using sum_length_filter_compl [of P xs] by (simp add: count_if_def)

lemma host_stats_of_eq:
  assumes "sum_list (map size_of rs) < 2 ^ 64"
  shows "\<exists>st. host_stats_of oc (map entry_of rs) = Val st \<and> stats_ok rs st"
proof -
  have "length (filter (\<lambda>(s, _, _). s) (map entry_of rs)) = count_if is_success rs"
    by (induction rs) (auto simp: entry_of_def is_success_def split: download_outcome.splits)
  moreover obtain total where "sum_bytes oc (map entry_of rs) 0 = Val total" "unat total = sum_list (map size_of rs)"
    using sum_bytes_eq [of 0 rs oc] assms by auto
  moreover have "count_if is_success rs \<le> length rs" by (rule count_if_le_length)
  ultimately show ?thesis
    by (simp add: host_stats_of_def Let_def stats_ok_def count_if_not)
qed

lemma sum_host_results: "sum_list (map size_of (host_results h rs)) \<le> sum_list (map size_of rs)"
  by (induction rs) (auto simp: host_results_def)

lemma per_host_stats_eq:
  assumes "\<And>h. h \<in> set hosts \<Longrightarrow> data h = Some (map entry_of (host_results h rs))"
    and "sum_list (map size_of rs) < 2 ^ 64"
  shows "\<exists>m. per_host_stats oc hosts data = Val m \<and>
     (\<forall>h. case m h of None \<Rightarrow> h \<notin> set hosts | Some st \<Rightarrow> h \<in> set hosts \<and> stats_ok (host_results h rs) st)"
  using assms(1)
proof (induction hosts rule: rev_induct)
  case Nil
  then show ?case by (simp add: per_host_stats_def)
next
  case (snoc h hosts)
  then obtain m where m: "per_host_stats oc hosts data = Val m"
    "\<And>h. case m h of None \<Rightarrow> h \<notin> set hosts | Some st \<Rightarrow> h \<in> set hosts \<and> stats_ok (host_results h rs) st"
    by auto
  have "sum_list (map size_of (host_results h rs)) < 2 ^ 64"
    using sum_host_results [of h rs] assms(2) by linarith
  from host_stats_of_eq [OF this, of oc] obtain st where st:
    "host_stats_of oc (map entry_of (host_results h rs)) = Val st" "stats_ok (host_results h rs) st" by blast
  have "data h = Some (map entry_of (host_results h rs))" using snoc.prems by simp
  then have "per_host_stats oc (hosts @ [h]) data = Val (m(h \<mapsto> st))"
    using m(1) st(1) by (simp add: per_host_stats_def)
  moreover have "case (m(h \<mapsto> st)) k of None \<Rightarrow> k \<notin> set (hosts @ [h])
      | Some st \<Rightarrow> k \<in> set (hosts @ [h]) \<and> stats_ok (host_results k rs) st" for k
    using m(2) [of k] st(2) by (auto split: option.splits)
  ultimately show ?case by blast
qed

lemma summarize_eq:
  assumes "length rs < 2 ^ 64" "sum_list (map size_of rs) < 2 ^ 64"
  shows "\<exists>s. summarize oc cfg rs tot unique el = Val s \<and>
     bs_config s = cfg \<and> bs_total_urls s = tot \<and> bs_unique_urls s = unique \<and>
     bs_successful s = count_if is_success rs \<and> bs_failed s = length rs - count_if is_success rs \<and>
     unat (bs_total_bytes s) = sum_list (map size_of rs) \<and> bs_results s = map summary_of rs \<and>
     (\<forall>h. case bs_per_host_stats s h of
        None \<Rightarrow> host_results h rs = []
      | Some st \<Rightarrow> host_results h rs \<noteq> [] \<and> stats_ok (host_results h rs) st)"
proof -
  obtain ss where ss: "add_results oc rs summary_start = Val ss"
    "ss_successful ss = count_if is_success rs" "ss_failed ss = count_if (\<lambda>r. \<not> is_success r) rs"
    "unat (ss_total_bytes ss) = sum_list (map size_of rs)"
    "ss_host_data ss = push_all rs Map.empty" "ss_results ss = map summary_of rs"
    using add_results_eq [of summary_start rs oc] assms by (auto simp: summary_start_def)
  define hosts where "hosts = remdups (map (\<lambda>r. extract_host (url r)) rs)"
  have host: "h \<in> set hosts \<longleftrightarrow> host_results h rs \<noteq> []" for h
    by (auto simp: hosts_def host_results_def filter_empty_conv)
  have "ss_host_data ss h = Some (map entry_of (host_results h rs))" if "h \<in> set hosts" for h
    using that by (simp add: ss(5) push_all_host host)
  from per_host_stats_eq [of hosts, OF this assms(2), of oc] obtain m where
    m: "per_host_stats oc hosts (ss_host_data ss) = Val m"
    "\<And>h. case m h of None \<Rightarrow> h \<notin> set hosts | Some st \<Rightarrow> h \<in> set hosts \<and> stats_ok (host_results h rs) st"
    by blast
  have "summarize oc cfg rs tot unique el = Val \<lparr>bs_config = cfg, bs_total_urls = tot, bs_unique_urls = unique,
        bs_successful = ss_successful ss, bs_failed = ss_failed ss, bs_total_bytes = ss_total_bytes ss,
        bs_total_elapsed_ms = elapsed_ms_f64 el, bs_per_host_stats = m, bs_results = ss_results ss\<rparr>"
    using ss(1) m(1) by (simp add: summarize_def hosts_def)
  moreover have "case m h of None \<Rightarrow> host_results h rs = []
      | Some st \<Rightarrow> host_results h rs \<noteq> [] \<and> stats_ok (host_results h rs) st" for h
    using m(2) [of h] by (auto simp: host split: option.splits)
  ultimately show ?thesis using ss by (simp add: count_if_not)
qed

section \<open>Lemmas: the host of a URL\<close>

lemma split_on2_notin: "a \<notin> set s \<Longrightarrow> split_on2 a a (s @ a # a # t) = s # split_on2 a a t"
proof (induction s)
  case Nil
  then show ?case by simp
next
  case (Cons c s)
  then show ?case by (cases s) simp_all
qed

lemma split_on2_first:
  "\<exists>p ps. split_on2 a a s = p # ps \<and> takeWhile (\<lambda>c. c \<noteq> a) p = takeWhile (\<lambda>c. c \<noteq> a) s"
proof (induction s rule: induct_list012)
  case (3 c d s)
  then obtain p ps where "split_on2 a a (d # s) = p # ps"
    "takeWhile (\<lambda>c. c \<noteq> a) p = takeWhile (\<lambda>c. c \<noteq> a) (d # s)" by blast
  then show ?case by simp
qed simp_all

lemma extract_host_eq:
  assumes "ch_slash \<notin> set pre"
  shows "extract_host (pre @ ch_slash # ch_slash # rest) =
     takeWhile (\<lambda>c. c \<noteq> 58) (takeWhile (\<lambda>c. c \<noteq> ch_slash) rest)"
proof -
  obtain p ps where p: "split_on2 ch_slash ch_slash rest = p # ps"
    "takeWhile (\<lambda>c. c \<noteq> ch_slash) p = takeWhile (\<lambda>c. c \<noteq> ch_slash) rest"
    using split_on2_first by blast
  then show ?thesis
    using assms by (simp add: extract_host_def split_on2_notin iter_nth_def split_first_takeWhile)
qed

section \<open>Properties\<close>

text \<open>
  A body is accepted exactly when it is not empty and, if the response has a
  Content-Length that is a number a \<open>usize\<close> can hold, has that length; and a refusal is
  always a \<open>ValidationFailed\<close>, an error that is not retried.
\<close>
theorem validate_response_spec:
  "case validate_response ho bs headers of
     Inr u \<Rightarrow> bs \<noteq> [] \<and> (case header_get ho headers (lit ''content-length'') of
         None \<Rightarrow> True
       | Some cl \<Rightarrow> parse_unsigned usize_max (header_str ho cl) \<in> {None, Some (length bs)})
   | Inl e \<Rightarrow> (bs = [] \<or> (\<exists>cl n. header_get ho headers (lit ''content-length'') = Some cl \<and>
         parse_unsigned usize_max (header_str ho cl) = Some n \<and> n \<noteq> length bs)) \<and>
       (\<exists>msg. e = ValidationFailed msg)"
  unfolding validate_response_def
  by (cases "header_get ho headers (lit ''content-length'')";
      cases "parse_unsigned usize_max (header_str ho (the (header_get ho headers (lit ''content-length''))))")
    (simp_all del: lit_simps add: Let_def)

definition demo_headers :: "((rstr \<times> bytes) list, bytes) header_ops" where
  "demo_headers = \<lparr>header_get = map_of, header_iter = (\<lambda>hm. hm),
     header_to_str = (\<lambda>v. if list_all (\<lambda>b. 32 \<le> b \<and> b < 127) v then Inr (map unat v) else Inl [])\<rparr>"

theorem validate_response_spec_witness:
  "case validate_response demo_headers [1, 2, 3] [(lit ''content-length'', [50])] of
     Inr u \<Rightarrow> False
   | Inl e \<Rightarrow> (\<exists>msg. e = ValidationFailed msg)"
proof -
  have "parse_unsigned usize_max (header_str demo_headers [50]) = Some 2"
    by (simp add: parse_unsigned_def header_str_def demo_headers_def is_ascii_digit_def usize_max_def)
  moreover have "header_get demo_headers [(lit ''content-length'', [50])] (lit ''content-length'') = Some [50]"
    by (simp add: demo_headers_def)
  ultimately show ?thesis
    using validate_response_spec [where ho = demo_headers and bs = "[1, 2, 3]" and headers = "[(lit ''content-length'', [50])]"]
    by (simp split: sum.splits unit.splits del: lit_simps)
qed

text \<open>
  The metadata of an image is written beside it, to its path with \<open>.json\<close> appended: for
  every directory without a trailing separator and every file name the strategies produce
  other than \<open>.\<close> and \<open>..\<close>, and to no other path.
\<close>
theorem sidecar_beside_image:
  assumes "name_ok n" "\<not> dot_name n" "plain_dir dir" "json metadata = Inr text"
  shows "write_metadata_sidecar fs json (path_join dir n) metadata =
     write_image fs text (path_join dir n @ lit ''.json'')"
proof -
  have "n \<noteq> []" "ch_slash \<notin> set n" "n \<noteq> lit ''.''" "n \<noteq> lit ''..''"
    using assms(1,2) safe_char_not_slash by (auto simp: name_ok_def list_all_iff dot_name_def)
  with assms(3,4) show ?thesis by (simp add: write_metadata_sidecar_def sidecar_path_eq del: lit_simps)
qed

definition demo_fs :: "(path \<times> bytes) list fs_ops" where
  "demo_fs = \<lparr>fs_write = (\<lambda>p bs w. (Val (Inr ()), w @ [(p, bs)])), fs_create_dir_all = (\<lambda>p. ret (Inr ()))\<rparr>"

theorem sidecar_beside_image_witness:
  "write_metadata_sidecar demo_fs (\<lambda>m. Inr [123, 125]) (path_join (lit ''out'') (lit ''a.jpg''))
       \<lparr>fm_url = [], fm_filename = lit ''a.jpg'', fm_size_bytes = 1, fm_content_hash = None, fm_content_type = None,
        fm_elapsed_ms = NaN, fm_downloaded_at = [], fm_headers = Map.empty\<rparr> =
     write_image demo_fs [123, 125] (path_join (lit ''out'') (lit ''a.jpg'') @ lit ''.json'')"
  by (rule sidecar_beside_image)
    (simp_all add: name_ok_def safe_char_def is_ascii_alphanumeric_def dot_name_def plain_dir_def)

text \<open>
  C36.  The summary of a batch is computed without a panic and is right: as many results as
  URLs, successes and failures that add up to them, the bytes of all successes, and for
  every host exactly the numbers of its own results; while fewer than \<open>2 ^ 64\<close> bytes were
  downloaded.
\<close>
theorem summary_counts:
  assumes "length results < 2 ^ 64" "sum_list (map size_of results) < 2 ^ 64"
  shows "\<exists>s. summarize oc cfg results tot unique el = Val s \<and>
     bs_successful s = count_if is_success results \<and> bs_successful s + bs_failed s = length results \<and>
     unat (bs_total_bytes s) = sum_list (map size_of results) \<and>
     map rs_url (bs_results s) = map url results \<and>
     (\<forall>h. case bs_per_host_stats s h of
        None \<Rightarrow> host_results h results = []
      | Some st \<Rightarrow> stats_ok (host_results h results) st)"
proof -
  have "rs_url (summary_of r) = url r" for r by (simp add: summary_of_def split: download_outcome.split)
  then have urls: "map rs_url (map summary_of results) = map url results" by simp
  from summarize_eq [OF assms, of oc cfg tot unique el] obtain s where
    s: "summarize oc cfg results tot unique el = Val s" "bs_successful s = count_if is_success results"
    "bs_failed s = length results - count_if is_success results"
    "unat (bs_total_bytes s) = sum_list (map size_of results)" "bs_results s = map summary_of results"
    "\<And>h. case bs_per_host_stats s h of None \<Rightarrow> host_results h results = []
      | Some st \<Rightarrow> host_results h results \<noteq> [] \<and> stats_ok (host_results h results) st" by blast
  have "case bs_per_host_stats s h of None \<Rightarrow> host_results h results = [] | Some st \<Rightarrow> stats_ok (host_results h results) st" for h
    using s(6) [of h] by (auto split: option.splits)
  with s urls count_if_le_length [of is_success results] show ?thesis by (intro exI [of _ s]) simp
qed

theorem summary_counts_witness:
  "\<exists>s. summarize True config_default [\<lparr>url = lit ''http://a/x'', outcome = Success [] 5 None dur_zero\<rparr>,
       \<lparr>url = lit ''http://b/x'', outcome = Failure Timeout dur_zero 0\<rparr>] 2 2 dur_zero = Val s \<and>
     bs_successful s = 1 \<and> bs_failed s = 1 \<and> unat (bs_total_bytes s) = 5"
proof -
  define rs where "rs = [\<lparr>url = lit ''http://a/x'', outcome = Success [] 5 None dur_zero\<rparr>,
       \<lparr>url = lit ''http://b/x'', outcome = Failure Timeout dur_zero 0\<rparr>]"
  have "length rs = 2" "sum_list (map size_of rs) = 5" "count_if is_success rs = 1"
    by (simp_all add: rs_def size_of_def is_success_def)
  with summary_counts [of rs True config_default 2 2 dur_zero] show ?thesis
    unfolding rs_def [symmetric] by auto
qed

text \<open>
  The host a result is counted under: what follows the first \<open>//\<close> of the URL, up to
  the next slash and the next colon.  For a URL with a user name and a password that is the
  user name.
\<close>
theorem extract_host_spec:
  assumes "ch_slash \<notin> set pre"
  shows "extract_host (pre @ lit ''//'' @ rest) =
     takeWhile (\<lambda>c. c \<noteq> 58) (takeWhile (\<lambda>c. c \<noteq> ch_slash) rest)"
  using extract_host_eq [OF assms] by simp

theorem extract_host_spec_witness:
  "extract_host (lit ''https:'' @ lit ''//'' @ lit ''user:pw@h.org/a.png'') = lit ''user''"
  by (subst extract_host_spec) simp_all

end
