(* ===== verification/Dns.thy ===== *)
theory Dns
  imports Pool
begin

text \<open>
  \<open>dns.rs\<close>: the cache of resolved addresses with its positive and negative lifetimes.  The
  clock and the lookup (\<open>tokio::net::lookup_host\<close>) are parameters; the awaits, where other
  tasks may change the cache, are \<open>dns_lock\<close> and the lookup itself.
\<close>

section \<open>The cache\<close>

type_synonym 'ip socket_addr = "'ip \<times> u16"

record 'ip cache_entry =
  ce_result :: "rstr + 'ip socket_addr list"
  ce_expires_at :: instant

record 'ip dns_cache =
  dc_cache :: "rstr \<rightharpoonup> 'ip cache_entry"
  dc_ttl :: duration
  dc_negative_ttl :: duration

definition dns_new :: "duration \<Rightarrow> 'ip dns_cache" where
  "dns_new ttl = \<lparr>dc_cache = Map.empty, dc_ttl = ttl, dc_negative_ttl = from_secs 30\<rparr>"

type_synonym ('ip, 'w) dns_world = "'ip dns_cache \<times> 'w"

record ('ip, 'w) dns_env =
  instant_now :: "'w \<Rightarrow> instant \<times> 'w"
  lookup_host :: "rstr \<Rightarrow> (('ip, 'w) dns_world, rstr + 'ip socket_addr list) prog"
  dns_lock :: "('ip, 'w) dns_world \<Rightarrow> ('ip, 'w) dns_world"

definition read_clock :: "('ip, 'w) dns_env \<Rightarrow> (('ip, 'w) dns_world, instant) prog" where
  "read_clock env = on_env (\<lambda>w. case instant_now env w of (t, w') \<Rightarrow> (Val t, w'))"

definition cache_insert ::
    "('ip, 'w) dns_env \<Rightarrow> rstr \<Rightarrow> rstr + 'ip socket_addr list \<Rightarrow> ('ip dns_cache \<Rightarrow> duration) \<Rightarrow>
     (('ip, 'w) dns_world, unit) prog" where
  "cache_insert env host r ttl =
     and_then (effect (dns_lock env)) (\<lambda>_.
     and_then (read_clock env) (\<lambda>t.
     and_then (reads (\<lambda>(dc, w). ttl dc)) (\<lambda>d.
     and_then (lift_outcome (instant_add t d)) (\<lambda>expires.
     modify (\<lambda>dc. dc\<lparr>dc_cache := (dc_cache dc)(host \<mapsto> \<lparr>ce_result = r, ce_expires_at = expires\<rparr>)\<rparr>)))))"

text \<open>A cached result as the caller sees it.\<close>

definition cached_result :: "rstr + 'ip socket_addr list \<Rightarrow> download_error + 'ip socket_addr list" where
  "cached_result r = (case r of Inr addrs \<Rightarrow> Inr addrs | Inl msg \<Rightarrow> Inl (DnsResolutionFailed msg))"

definition resolve_miss ::
    "('ip, 'w) dns_env \<Rightarrow> rstr \<Rightarrow> u16 \<Rightarrow> (('ip, 'w) dns_world, download_error + 'ip socket_addr list) prog" where
  "resolve_miss env host port =
     and_then (lookup_host env (host_port (host, port))) (\<lambda>r. case r of
         Inr addrs \<Rightarrow> and_then (cache_insert env host (Inr addrs) dc_ttl) (\<lambda>_. ret (Inr addrs))
       | Inl e \<Rightarrow> and_then (cache_insert env host (Inl e) dc_negative_ttl) (\<lambda>_.
                  ret (Inl (DnsResolutionFailed e))))"

definition resolve ::
    "('ip, 'w) dns_env \<Rightarrow> rstr \<Rightarrow> u16 \<Rightarrow> (('ip, 'w) dns_world, download_error + 'ip socket_addr list) prog" where
  "resolve env host port =
     and_then (effect (dns_lock env)) (\<lambda>_.
     and_then (reads (\<lambda>(dc, w). dc_cache dc host)) (\<lambda>entry. case entry of
         None \<Rightarrow> resolve_miss env host port
       | Some e \<Rightarrow>
           and_then (read_clock env) (\<lambda>now.
           if now < ce_expires_at e then ret (cached_result (ce_result e))
           else resolve_miss env host port)))"

section \<open>Lemmas\<close>

lemma read_clock_eq: "instant_now env w = (t, w') \<Longrightarrow> read_clock env (dc, w) = (Val t, (dc, w'))"
  by (simp add: read_clock_def on_env_def)

text \<open>A task that runs alone: the locks change nothing.\<close>

definition alone :: "('ip, 'w) dns_env \<Rightarrow> bool" where
  "alone env \<longleftrightarrow> (\<forall>s. dns_lock env s = s)"

lemma resolve_hit:
  assumes "alone env" "dc_cache dc host = Some e" "instant_now env w = (t, w')" "t < ce_expires_at e"
  shows "resolve env host port (dc, w) = (Val (cached_result (ce_result e)), (dc, w'))"
  using assms by (simp add: resolve_def alone_def and_then_def read_clock_eq)

lemma resolve_expired:
  assumes "alone env" "dc_cache dc host = Some e" "instant_now env w = (t, w')" "ce_expires_at e \<le> t"
  shows "resolve env host port (dc, w) = resolve_miss env host port (dc, w')"
  using assms by (simp add: resolve_def alone_def and_then_def read_clock_eq)

lemma resolve_absent:
  assumes "alone env" "dc_cache dc host = None"
  shows "resolve env host port (dc, w) = resolve_miss env host port (dc, w)"
  using assms by (simp add: resolve_def alone_def and_then_def)

definition remember :: "rstr \<Rightarrow> rstr + 'ip socket_addr list \<Rightarrow> instant \<Rightarrow> 'ip dns_cache \<Rightarrow> 'ip dns_cache" where
  "remember host r expires dc =
     dc\<lparr>dc_cache := (dc_cache dc)(host \<mapsto> \<lparr>ce_result = r, ce_expires_at = expires\<rparr>)\<rparr>"

lemma cache_insert_eq:
  assumes "alone env" "instant_now env w = (t, w')"
  shows "cache_insert env host r ttl (dc, w) =
     (case instant_add t (ttl dc) of
        Val x \<Rightarrow> (Val (), (remember host r x dc, w'))
      | Panic \<Rightarrow> (Panic, (dc, w'))
      | Diverges \<Rightarrow> (Diverges, (dc, w')))"
  using assms
  by (cases "instant_add t (ttl dc)")
    (simp_all add: cache_insert_def alone_def and_then_def read_clock_eq remember_def)

lemma resolve_miss_eq:
  assumes "alone env" "lookup_host env (host_port (host, port)) (dc, w) = (Val r, (dc1, w1))"
    and "instant_now env w1 = (t, w2)"
  shows "resolve_miss env host port (dc, w) =
     (case instant_add t ((case r of Inr _ \<Rightarrow> dc_ttl | Inl _ \<Rightarrow> dc_negative_ttl) dc1) of
        Val x \<Rightarrow> (Val (cached_result r), (remember host r x dc1, w2))
      | Panic \<Rightarrow> (Panic, (dc1, w2))
      | Diverges \<Rightarrow> (Diverges, (dc1, w2)))"
proof (cases r)
  case (Inl e)
  then show ?thesis
    using assms by (simp add: resolve_miss_def cached_result_def cache_insert_eq and_then_def split: outcome.split)
next
  case (Inr addrs)
  then show ?thesis
    using assms by (simp add: resolve_miss_def cached_result_def cache_insert_eq and_then_def split: outcome.split)
qed

text \<open>The lifetime of a result.\<close>

definition lifetime :: "rstr + 'ip socket_addr list \<Rightarrow> 'ip dns_cache \<Rightarrow> duration" where
  "lifetime r = (case r of Inr _ \<Rightarrow> dc_ttl | Inl _ \<Rightarrow> dc_negative_ttl)"

lemma resolve_then_hit:
  assumes env: "alone env" and miss: "dc_cache dc host = None"
    and look: "lookup_host env (host_port (host, port)) (dc, w) = (Val r, (dc, w1))"
    and clock: "instant_now env w1 = (t, w2)" and fits: "t + dur_nanos (lifetime r dc) < instant_limit"
    and later: "instant_now env w3 = (t', w4)" "t' < t + dur_nanos (lifetime r dc)"
  shows "\<exists>dc'. resolve env host port (dc, w) = (Val (cached_result r), (dc', w2)) \<and>
     resolve env host port' (dc', w3) = (Val (cached_result r), (dc', w4))"
proof -
  define dc' where "dc' = remember host r (t + dur_nanos (lifetime r dc)) dc"
  have "instant_add t (lifetime r dc) = Val (t + dur_nanos (lifetime r dc))"
    using fits by (simp add: instant_add_def)
  then have first: "resolve env host port (dc, w) = (Val (cached_result r), (dc', w2))"
    by (simp add: resolve_absent [OF env miss] resolve_miss_eq [OF env look clock] lifetime_def dc'_def)
  moreover have "resolve env host port' (dc', w3) = (Val (cached_result r), (dc', w4))"
    using resolve_hit [OF env _ later(1), of dc' host _ port'] later(2)
    by (simp add: dc'_def remember_def)
  ultimately show ?thesis by blast
qed

section \<open>Properties\<close>


text \<open>A clock that counts the lookups, and a resolver that answers with one address.\<close>

definition demo_dns :: "(nat, nat) dns_env" where
  "demo_dns = \<lparr>instant_now = (\<lambda>w. (w, w)), lookup_host = (\<lambda>s (dc, w). (Val (Inr [(7, 80)]), (dc, Suc w))),
     dns_lock = (\<lambda>s. s)\<rparr>"

lemma demo_dns_simps [simp]:
  "alone demo_dns" "instant_now demo_dns w = (w, w)"
  "lookup_host demo_dns s (dc, w) = (Val (Inr [(7, 80)]), (dc, Suc w))"
  by (simp_all add: demo_dns_def alone_def)


text \<open>
  C37.  The cache is looked up by host name only, but the addresses it holds carry the port
  of the first request: resolving the same host for another port before the expiry returns
  addresses all of which have the wrong port.  (The lookup returns addresses with the port
  it was asked for.)
\<close>
theorem dns_cache_ignores_port:
  assumes "alone env"
    and "lookup_host env (host_port (host, port)) (dns_new ttl, w) = (Val (Inr addrs), (dns_new ttl, w1))"
    and "\<And>a. a \<in> set addrs \<Longrightarrow> snd a = port"
    and "instant_now env w1 = (t, w2)" "t + dur_nanos ttl < instant_limit"
    and "instant_now env w3 = (t', w4)" "t' < t + dur_nanos ttl" and "port' \<noteq> port"
  shows "\<exists>dc'. resolve env host port (dns_new ttl, w) = (Val (Inr addrs), (dc', w2)) \<and>
     resolve env host port' (dc', w3) = (Val (Inr addrs), (dc', w4)) \<and> (\<forall>a \<in> set addrs. snd a \<noteq> port')"
proof -
  have life: "lifetime (Inr addrs) (dns_new ttl) = ttl" by (simp add: lifetime_def dns_new_def)
  have "\<forall>a \<in> set addrs. snd a \<noteq> port'" using assms(3,8) by auto
  moreover have "t + dur_nanos (lifetime (Inr addrs) (dns_new ttl)) < instant_limit"
    "t' < t + dur_nanos (lifetime (Inr addrs) (dns_new ttl))" using assms(5,7) by (simp_all add: life)
  from resolve_then_hit [OF assms(1) _ assms(2,4) this(1) assms(6) this(2), of port']
  have "\<exists>dc'. resolve env host port (dns_new ttl, w) = (Val (Inr addrs), (dc', w2)) \<and>
     resolve env host port' (dc', w3) = (Val (Inr addrs), (dc', w4))"
    by (simp add: cached_result_def dns_new_def)
  ultimately show ?thesis by blast
qed

theorem dns_cache_ignores_port_witness:
  "\<exists>dc'. resolve demo_dns (lit ''h'') 80 (dns_new (from_secs 300), 0) = (Val (Inr [(7, 80)]), (dc', 1)) \<and>
     resolve demo_dns (lit ''h'') 443 (dc', 5) = (Val (Inr [(7, 80)]), (dc', 5)) \<and>
     (\<forall>a \<in> set [(7 :: nat, 80 :: u16)]. snd a \<noteq> 443)"
  by (rule dns_cache_ignores_port [where t = 1 and t' = 5]) (simp_all add: instant_limit_def)

text \<open>
  A lifetime that leaves the range of the clock makes every successful lookup panic
  instead of returning its addresses, and nothing is cached.
\<close>
theorem dns_ttl_overflow_panics:
  assumes "alone env" "dc_cache dc host = None"
    and "lookup_host env (host_port (host, port)) (dc, w) = (Val (Inr addrs), (dc, w1))"
    and "instant_now env w1 = (t, w2)" and "instant_limit \<le> t + dur_nanos (dc_ttl dc)"
  shows "resolve env host port (dc, w) = (Panic, (dc, w2))"
proof -
  have "instant_add t (dc_ttl dc) = Panic" using assms(5) by (simp add: instant_add_def)
  then show ?thesis
    by (simp add: resolve_absent [OF assms(1,2)] resolve_miss_eq [OF assms(1,3,4)])
qed

theorem dns_ttl_overflow_panics_witness:
  "resolve demo_dns (lit ''h'') 80 (dns_new (from_secs 18446744073709551615), 0) = (Panic, (dns_new (from_secs 18446744073709551615), 1))"
  by (rule dns_ttl_overflow_panics) (simp_all add: dns_new_def instant_limit_def)

end
