(* ===== verification/Tls.thy ===== *)
theory Tls
  imports Prelude Rust_Str
begin

text \<open>
  \<open>tls.rs\<close>: the client configuration that all connections share.  \<open>rustls\<close> and its root
  certificates are parameters; the code chooses what it is built from: the built-in roots,
  the safe default versions, no client certificate, and HTTP/2 before HTTP/1.1.
\<close>

text \<open>
  What the code calls of \<open>rustls\<close>: the builder with a provider, which may refuse the protocol
  versions, and the two fields it fills.
\<close>

record ('store, 'anchor, 'provider, 'builder, 'cfg) rustls_ops =
  empty_store :: 'store
  extend_store :: "'store \<Rightarrow> 'anchor list \<Rightarrow> 'store"
  tls_server_roots :: "'anchor list"
  ring_provider :: 'provider
  builder_with_provider :: "'provider \<Rightarrow> 'builder"
  with_safe_default_protocol_versions :: "'builder \<Rightarrow> rstr + 'builder"
  with_root_certificates :: "'builder \<Rightarrow> 'store \<Rightarrow> 'builder"
  with_no_client_auth :: "'builder \<Rightarrow> 'cfg"
  set_alpn_protocols :: "bytes list \<Rightarrow> 'cfg \<Rightarrow> 'cfg"

definition alpn_protocols :: "bytes list" where
  "alpn_protocols = [as_bytes (lit ''h2''), as_bytes (lit ''http/1.1'')]"

text \<open>\<open>expect\<close> panics when the provider does not support the default versions.\<close>

definition build_tls_config :: "('store, 'anchor, 'provider, 'builder, 'cfg) rustls_ops \<Rightarrow> 'cfg outcome" where
  "build_tls_config ro =
     (let root_store = extend_store ro (empty_store ro) (tls_server_roots ro)
      in case with_safe_default_protocol_versions ro (builder_with_provider ro (ring_provider ro)) of
           Inl e \<Rightarrow> Panic
         | Inr b \<Rightarrow> Val (set_alpn_protocols ro alpn_protocols
                       (with_no_client_auth ro (with_root_certificates ro b root_store))))"

lemma build_tls_config_Val:
  "build_tls_config ro = Val c \<Longrightarrow> \<exists>c0. c = set_alpn_protocols ro alpn_protocols c0"
  by (auto simp: build_tls_config_def Let_def split: sum.splits)

lemma build_tls_config_ends: "build_tls_config ro \<noteq> Diverges"
  by (simp add: build_tls_config_def Let_def split: sum.split)

end
