(* ===== verification/Connect.thy ===== *)
theory Connect
  imports Dns Retry Tls
begin

text \<open>
  \<open>open_connection_inner\<close> of \<open>pool.rs\<close>: resolve the host, try its addresses in order, and
  set up HTTP/1.1 or HTTP/2 over plain TCP or TLS, with the error of every step.  Sockets,
  TLS and the handshakes (\<open>tokio\<close>, \<open>rustls\<close>, \<open>hyper\<close>) are parameters; a handshake that
  succeeds has also spawned the task that drives the connection.
\<close>

declare split_paired_All [simp del] split_paired_Ex [simp del]

text \<open>The pool's own fields, apart from its host pools.\<close>

record 'cfg connection_pool =
  cp_tls_config :: 'cfg
  cp_config :: config
  cp_plain_mode :: bool

definition pool_new :: "config \<Rightarrow> 'cfg \<Rightarrow> 'cfg connection_pool" where
  "pool_new cfg tls = \<lparr>cp_tls_config = tls, cp_config = cfg, cp_plain_mode = False\<rparr>"

definition pool_new_plain :: "config \<Rightarrow> 'cfg \<Rightarrow> 'cfg connection_pool" where
  "pool_new_plain cfg tls = \<lparr>cp_tls_config = tls, cp_config = cfg, cp_plain_mode = True\<rparr>"

text \<open>
  The settings of \<open>hyper\<close>'s HTTP/2 builder, in the order in which the code makes them; its
  timer and executor are those of \<open>tokio\<close>.
\<close>

datatype http2_option =
    InitialStreamWindowSize u32
  | AdaptiveWindow bool
  | KeepAliveInterval "duration option"
  | KeepAliveTimeout duration

definition http2_options :: "config \<Rightarrow> http2_option list" where
  "http2_options cfg =
     [InitialStreamWindowSize (stream_window_size cfg),
      AdaptiveWindow True,
      KeepAliveInterval (Some (from_secs 10)),
      KeepAliveTimeout (from_secs 20)]"

text \<open>\<open>tcp_connect d a\<close> is \<open>timeout(d, TcpStream::connect(a))\<close>: \<open>None\<close> when the time is over.\<close>

record ('ip, 'tcp, 'sn, 'cfg, 'tls, 'h2, 'h1, 'w) net_ops =
  tcp_connect :: "duration \<Rightarrow> 'ip socket_addr \<Rightarrow> (('ip, 'w) dns_world, (rstr + 'tcp) option) prog"
  show_addr :: "'ip socket_addr \<Rightarrow> rstr"
  plain_handshake :: "'tcp \<Rightarrow> (('ip, 'w) dns_world, rstr + 'h1) prog"
  server_name :: "rstr \<Rightarrow> rstr + 'sn"
  tls_connect :: "'cfg \<Rightarrow> 'sn \<Rightarrow> 'tcp \<Rightarrow> (('ip, 'w) dns_world, rstr + 'tls) prog"
  alpn_protocol :: "'tls \<Rightarrow> bytes option"
  h2_handshake :: "http2_option list \<Rightarrow> 'tls \<Rightarrow> (('ip, 'w) dns_world, rstr + 'h2) prog"
  h1_handshake :: "'tls \<Rightarrow> (('ip, 'w) dns_world, rstr + 'h1) prog"

text \<open>The loop over the addresses: the first that connects, or the last error.\<close>

fun connect_addrs ::
    "('ip, 'tcp, 'sn, 'cfg, 'tls, 'h2, 'h1, 'w) net_ops \<Rightarrow> duration \<Rightarrow> rstr option \<Rightarrow> 'ip socket_addr list \<Rightarrow>
     (('ip, 'w) dns_world, rstr option + 'tcp) prog" where
  "connect_addrs net limit last_err [] = ret (Inl last_err)"
| "connect_addrs net limit last_err (a # as) =
     and_then (tcp_connect net limit a) (\<lambda>r. case r of
         Some (Inr stream) \<Rightarrow> ret (Inr stream)
       | Some (Inl e) \<Rightarrow> connect_addrs net limit (Some e) as
       | None \<Rightarrow> connect_addrs net limit (Some (lit ''connect to '' @ show_addr net a @ lit '' timed out'')) as)"

definition tcp_stream ::
    "('ip, 'tcp, 'sn, 'cfg, 'tls, 'h2, 'h1, 'w) net_ops \<Rightarrow> duration \<Rightarrow> 'ip socket_addr list \<Rightarrow>
     (('ip, 'w) dns_world, download_error + 'tcp) prog" where
  "tcp_stream net limit addrs =
     and_then (connect_addrs net limit None addrs) (\<lambda>r. ret (case r of
         Inr stream \<Rightarrow> Inr stream
       | Inl last_err \<Rightarrow> Inl (ConnectionFailed (case last_err of
             Some e \<Rightarrow> e | None \<Rightarrow> lit ''no addresses to connect to''))))"

definition h1_handshake_error :: "rstr \<Rightarrow> download_error" where
  "h1_handshake_error e = ConnectionFailed (lit ''HTTP/1.1 handshake: '' @ e)"

definition h2_handshake_error :: "rstr \<Rightarrow> download_error" where
  "h2_handshake_error e = ConnectionFailed (lit ''HTTP/2 handshake: '' @ e)"

definition server_name_error :: "rstr \<Rightarrow> download_error" where
  "server_name_error e = TlsError (lit ''invalid server name: '' @ e)"

definition negotiated :: "bytes option \<Rightarrow> negotiated_protocol" where
  "negotiated alpn = (if alpn = Some (as_bytes (lit ''h2'')) then Http2 else Http1)"

definition plain_connection ::
    "('ip, 'tcp, 'sn, 'cfg, 'tls, 'h2, 'h1, 'w) net_ops \<Rightarrow> 'tcp \<Rightarrow>
     (('ip, 'w) dns_world, download_error + ('h2, 'h1) opened_connection) prog" where
  "plain_connection net stream =
     try_then (try_map_err (plain_handshake net stream) h1_handshake_error) (\<lambda>s. ret (Inr (OpenedH1 s)))"

definition tls_connection ::
    "('ip, 'tcp, 'sn, 'cfg, 'tls, 'h2, 'h1, 'w) net_ops \<Rightarrow> 'cfg connection_pool \<Rightarrow> rstr \<Rightarrow> 'tcp \<Rightarrow>
     (('ip, 'w) dns_world, download_error + ('h2, 'h1) opened_connection) prog" where
  "tls_connection net cp host stream =
     try_then (ret (map_err server_name_error (server_name net host))) (\<lambda>sn.
     try_then (try_map_err (tls_connect net (cp_tls_config cp) sn stream) TlsError) (\<lambda>tls.
     case negotiated (alpn_protocol net tls) of
       Http2 \<Rightarrow> try_then (try_map_err (h2_handshake net (http2_options (cp_config cp)) tls) h2_handshake_error) (\<lambda>s.
                ret (Inr (OpenedH2 s)))
     | Http1 \<Rightarrow> try_then (try_map_err (h1_handshake net tls) h1_handshake_error) (\<lambda>s.
                ret (Inr (OpenedH1 s)))))"

definition open_connection_inner ::
    "('ip, 'w) dns_env \<Rightarrow> ('ip, 'tcp, 'sn, 'cfg, 'tls, 'h2, 'h1, 'w) net_ops \<Rightarrow> 'cfg connection_pool \<Rightarrow> rstr \<Rightarrow> u16 \<Rightarrow>
     (('ip, 'w) dns_world, download_error + ('h2, 'h1) opened_connection) prog" where
  "open_connection_inner dns net cp host port =
     try_then (resolve dns host port) (\<lambda>addrs.
     try_then (tcp_stream net (connect_timeout (cp_config cp)) addrs) (\<lambda>stream.
     if cp_plain_mode cp then plain_connection net stream
     else tls_connection net cp host stream))"

section \<open>Lemmas\<close>

text \<open>The addresses before the one that connected all failed, and were tried in order.\<close>

fun attempts ::
    "('ip, 'tcp, 'sn, 'cfg, 'tls, 'h2, 'h1, 'w) net_ops \<Rightarrow> duration \<Rightarrow> 'ip socket_addr list \<Rightarrow> ('ip, 'w) dns_world \<Rightarrow>
     ('ip, 'w) dns_world \<Rightarrow> bool" where
  "attempts net limit [] s s' = (s' = s)"
| "attempts net limit (a # as) s s' =
     (\<exists>r s1. tcp_connect net limit a s = (Val r, s1) \<and> (\<nexists>x. r = Some (Inr x)) \<and> attempts net limit as s1 s')"

lemma connect_addrs_iff:
  "connect_addrs net limit le addrs s = (Val (Inr x), s') \<longleftrightarrow>
     (\<exists>pre a post s1. addrs = pre @ a # post \<and> attempts net limit pre s s1 \<and>
        tcp_connect net limit a s1 = (Val (Some (Inr x)), s'))"
proof (induction addrs arbitrary: le s)
  case Nil
  then show ?case by simp
next
  case (Cons a as)
  obtain r s1 where r: "tcp_connect net limit a s = (r, s1)" by (cases "tcp_connect net limit a s")
  have cons: "(\<exists>pre b post s1. a # as = pre @ b # post \<and> P pre b s1) \<longleftrightarrow>
      (\<exists>s1. P [] a s1) \<or> (\<exists>pre b post s1. as = pre @ b # post \<and> P (a # pre) b s1)" for P
  proof
    assume "\<exists>pre b post s1. a # as = pre @ b # post \<and> P pre b s1"
    then obtain pre b post s1 where "a # as = pre @ b # post" "P pre b s1" by blast
    then show "(\<exists>s1. P [] a s1) \<or> (\<exists>pre b post s1. as = pre @ b # post \<and> P (a # pre) b s1)"
      by (cases pre) auto
  next
    assume "(\<exists>s1. P [] a s1) \<or> (\<exists>pre b post s1. as = pre @ b # post \<and> P (a # pre) b s1)"
    then show "\<exists>pre b post s1. a # as = pre @ b # post \<and> P pre b s1"
      by (elim disjE exE conjE) (metis append_Nil, metis append_Cons)
  qed
  show ?case
  proof (cases "\<exists>v. r = Val v \<and> (\<nexists>x. v = Some (Inr x))")
    case True
    then obtain v where v: "r = Val v" "\<nexists>x. v = Some (Inr x)" by blast
    then consider "v = None" | e where "v = Some (Inl e)" by (metis option.exhaust sum.exhaust)
    then have "\<exists>le'. connect_addrs net limit le (a # as) s = connect_addrs net limit le' as s1"
      using r v(1) by cases (auto simp: and_then_def)
    then obtain le' where "connect_addrs net limit le (a # as) s = connect_addrs net limit le' as s1" by blast
    then show ?thesis unfolding cons using v r Cons.IH [of le' s1] by simp
  next
    case False
    then show ?thesis
      unfolding cons using r by (cases r) (auto simp: and_then_def split: option.splits sum.splits)
  qed
qed

lemma connect_addrs_attempts:
  "attempts net limit addrs s s' \<Longrightarrow>
     \<exists>e. connect_addrs net limit le addrs s = (Val (Inl e), s') \<and> (addrs \<noteq> [] \<longrightarrow> e \<noteq> None) \<and> (addrs = [] \<longrightarrow> e = le)"
proof (induction addrs arbitrary: le s)
  case Nil
  then show ?case by simp
next
  case (Cons a as)
  then obtain r s1 where r: "tcp_connect net limit a s = (Val r, s1)" "\<nexists>x. r = Some (Inr x)" "attempts net limit as s1 s'"
    by auto
  then consider "r = None" | e where "r = Some (Inl e)" by (metis option.exhaust sum.exhaust)
  then have "\<exists>le'. connect_addrs net limit le (a # as) s = connect_addrs net limit (Some le') as s1"
    using r by cases (auto simp: and_then_def)
  then obtain le' where "connect_addrs net limit le (a # as) s = connect_addrs net limit (Some le') as s1" by blast
  with Cons.IH [OF r(3), of "Some le'"] show ?case by (cases as) auto
qed

lemma resolve_errors: "resolve dns host port s = (Val (Inl e), s') \<Longrightarrow> \<exists>m. e = DnsResolutionFailed m"
proof -
  have hit: "cached_result r = Inl e \<Longrightarrow> \<exists>m. e = DnsResolutionFailed m" for r :: "rstr + 'a socket_addr list"
    by (auto simp: cached_result_def split: sum.splits)
  have miss: "resolve_miss dns host port s1 = (Val (Inl e), s') \<Longrightarrow> \<exists>m. e = DnsResolutionFailed m" for s1
    unfolding resolve_miss_def and_then_sum_eq_Val by (auto simp: and_then_eq_Val)
  assume "resolve dns host port s = (Val (Inl e), s')"
  then show ?thesis
    unfolding resolve_def and_then_eq_Val
    by (auto simp: and_then_eq_Val split: option.splits if_splits dest: hit miss)
qed

lemma tcp_stream_errors:
  "tcp_stream net limit addrs s = (Val (Inl e), s') \<Longrightarrow> \<exists>m. e = ConnectionFailed m"
  unfolding tcp_stream_def and_then_eq_Val by (elim exE conjE) (auto split: sum.splits)

lemma plain_errors: "plain_connection net stream s = (Val (Inl e), s') \<Longrightarrow> \<exists>m. e = ConnectionFailed m"
  unfolding plain_connection_def try_then_eq_Val try_map_err_eq_Val by (auto simp: h1_handshake_error_def)

lemma tls_errors:
  assumes "tls_connection net cp host stream s = (Val (Inl e), s')"
  shows "\<exists>m. e = ConnectionFailed m \<or> e = TlsError m"
proof -
  have last: "\<exists>m. e = ConnectionFailed m"
    if "(case p of
       Http2 \<Rightarrow> try_then (try_map_err (h2_handshake net n tls) h2_handshake_error) (\<lambda>s. ret (Inr (OpenedH2 s)))
     | Http1 \<Rightarrow> try_then (try_map_err (h1_handshake net tls) h1_handshake_error) (\<lambda>s. ret (Inr (OpenedH1 s)))) s1
       = (Val (Inl e), s')" for p n tls s1
    using that by (cases p) (auto simp: try_then_eq_Val try_map_err_eq_Val h1_handshake_error_def h2_handshake_error_def)
  show ?thesis
    using assms unfolding tls_connection_def try_then_eq_Val try_map_err_eq_Val
    by (auto simp: server_name_error_def dest: last)
qed

lemma tls_protocol:
  assumes "tls_connection net cp host stream s = (Val (Inr opened), s')"
  shows "\<exists>sn tls s1. tls_connect net (cp_tls_config cp) sn stream s = (Val (Inr tls), s1) \<and>
     opened_protocol opened = negotiated (alpn_protocol net tls)"
proof -
  obtain sn tls s1 where tls: "tls_connect net (cp_tls_config cp) sn stream s = (Val (Inr tls), s1)"
    and rest: "(case negotiated (alpn_protocol net tls) of
       Http2 \<Rightarrow> try_then (try_map_err (h2_handshake net (http2_options (cp_config cp)) tls) h2_handshake_error) (\<lambda>s.
                ret (Inr (OpenedH2 s)))
     | Http1 \<Rightarrow> try_then (try_map_err (h1_handshake net tls) h1_handshake_error) (\<lambda>s.
                ret (Inr (OpenedH1 s)))) s1 = (Val (Inr opened), s')"
    using assms unfolding tls_connection_def try_then_eq_Val try_map_err_eq_Val by auto
  from rest have "opened_protocol opened = negotiated (alpn_protocol net tls)"
    by (cases "negotiated (alpn_protocol net tls)") (auto simp: opened_protocol_def try_then_eq_Val)
  with tls show ?thesis by blast
qed

lemma plain_protocol: "plain_connection net stream s = (Val (Inr opened), s') \<Longrightarrow> opened_protocol opened = Http1"
  unfolding plain_connection_def try_then_eq_Val try_map_err_eq_Val by (auto simp: opened_protocol_def)

text \<open>
  An adaptive window overrides the initial window size set before it (documented by \<open>hyper\<close>),
  so \<open>stream_window_size\<close> has no effect on the connections that are opened.
\<close>

definition adaptive_overrides :: "('ip, 'tcp, 'sn, 'cfg, 'tls, 'h2, 'h1, 'w) net_ops \<Rightarrow> bool" where
  "adaptive_overrides net \<longleftrightarrow> (\<forall>n rest. h2_handshake net (InitialStreamWindowSize n # AdaptiveWindow True # rest) =
     h2_handshake net (AdaptiveWindow True # rest))"

lemma window_size_without_effect:
  assumes "adaptive_overrides net"
  shows "open_connection_inner dns net (cp\<lparr>cp_config := (cp_config cp)\<lparr>stream_window_size := n\<rparr>\<rparr>) host port =
     open_connection_inner dns net cp host port"
proof -
  let ?cp = "cp\<lparr>cp_config := (cp_config cp)\<lparr>stream_window_size := n\<rparr>\<rparr>"
  have same: "h2_handshake net (http2_options (cp_config ?cp)) = h2_handshake net (http2_options (cp_config cp))"
    using assms by (simp add: http2_options_def adaptive_overrides_def)
  have "tls_connection net ?cp host = tls_connection net cp host"
    unfolding tls_connection_def same by simp
  then show ?thesis by (simp add: open_connection_inner_def cong: if_cong)
qed

section \<open>Properties\<close>

text \<open>
  Every address is tried, in order: the connection is made to an address all of whose
  predecessors failed or timed out, and when all of them do the result is
  \<open>ConnectionFailed\<close>.
\<close>
theorem addresses_tried_in_order:
  "(tcp_stream net limit addrs s = (Val (Inr x), s') \<longleftrightarrow>
     (\<exists>pre a post s1. addrs = pre @ a # post \<and> attempts net limit pre s s1 \<and>
        tcp_connect net limit a s1 = (Val (Some (Inr x)), s'))) \<and>
   (attempts net limit addrs s s' \<longrightarrow>
     (\<exists>m. tcp_stream net limit addrs s = (Val (Inl (ConnectionFailed m)), s')))"
proof (intro conjI impI)
  have "tcp_stream net limit addrs s = (Val (Inr x), s') \<longleftrightarrow> connect_addrs net limit None addrs s = (Val (Inr x), s')"
    unfolding tcp_stream_def and_then_eq_Val by (auto split: sum.splits) (metis sum.exhaust)
  then show "tcp_stream net limit addrs s = (Val (Inr x), s') \<longleftrightarrow>
     (\<exists>pre a post s1. addrs = pre @ a # post \<and> attempts net limit pre s s1 \<and>
        tcp_connect net limit a s1 = (Val (Some (Inr x)), s'))"
    by (simp only: connect_addrs_iff)
next
  assume "attempts net limit addrs s s'"
  from connect_addrs_attempts [OF this, of None] show
    "\<exists>m. tcp_stream net limit addrs s = (Val (Inl (ConnectionFailed m)), s')"
    by (auto simp: tcp_stream_def and_then_def)
qed

definition demo_net :: "(nat, nat, unit, unit, bytes option, nat, nat, nat) net_ops" where
  "demo_net = \<lparr>tcp_connect = (\<lambda>d a s. (Val (if fst a = 1 then None else Some (Inr (fst a))), s)),
     show_addr = (\<lambda>a. show_nat (fst a)), plain_handshake = (\<lambda>t. ret (Inr t)), server_name = (\<lambda>h. Inr ()),
     tls_connect = (\<lambda>c sn t. ret (Inr (Some [104, 50]))), alpn_protocol = (\<lambda>t. t),
     h2_handshake = (\<lambda>n t. ret (Inr 5)), h1_handshake = (\<lambda>t. ret (Inr 6))\<rparr>"

theorem addresses_tried_in_order_witness:
  "tcp_stream demo_net dur_zero [(1, 80), (2, 80), (3, 80)] (dns_new dur_zero, 0) = (Val (Inr 2), (dns_new dur_zero, 0))"
proof -
  have "[(1, 80), (2, 80), (3, 80)] = [(1, 80)] @ (2, 80) # [(3 :: nat, 80 :: u16)] \<and>
      attempts demo_net dur_zero [(1, 80)] (dns_new dur_zero, 0) (dns_new dur_zero, 0) \<and> tcp_connect demo_net dur_zero (2, 80) (dns_new dur_zero, 0) = (Val (Some (Inr 2)), (dns_new dur_zero, 0))"
    by (simp add: demo_net_def)
  then show ?thesis
    using addresses_tried_in_order [of demo_net dur_zero "[(1, 80), (2, 80), (3, 80)]" "(dns_new dur_zero, 0)" 2 "(dns_new dur_zero, 0)"] by blast
qed

text \<open>
  The protocol of an opened connection is the negotiated one: HTTP/2 exactly when the
  pool uses TLS and the server chose \<open>h2\<close>; in plain mode it is always HTTP/1.1.
\<close>
theorem opened_protocol_negotiated:
  assumes "open_connection_inner dns net cp host port s = (Val (Inr opened), s')"
  shows "if cp_plain_mode cp then opened_protocol opened = Http1
     else \<exists>sn stream tls s1 s2. tls_connect net (cp_tls_config cp) sn stream s1 = (Val (Inr tls), s2) \<and>
        (opened_protocol opened = Http2 \<longleftrightarrow> alpn_protocol net tls = Some [104, 50])"
proof -
  obtain stream s1 where run:
    "(if cp_plain_mode cp then plain_connection net stream else tls_connection net cp host stream) s1
       = (Val (Inr opened), s')"
    using assms unfolding open_connection_inner_def try_then_eq_Val by blast
  have h2: "as_bytes (lit ''h2'') = [104, 50]" by (simp add: as_bytes_def utf8_char_def)
  show ?thesis
  proof (cases "cp_plain_mode cp")
    case True
    with run plain_protocol [of net stream s1 opened s'] show ?thesis by simp
  next
    case False
    with run tls_protocol [of net cp host stream s1 opened s'] obtain sn tls s2 where
      "tls_connect net (cp_tls_config cp) sn stream s1 = (Val (Inr tls), s2)" "opened_protocol opened = negotiated (alpn_protocol net tls)"
      by auto
    with False show ?thesis unfolding negotiated_def h2 by (auto intro!: exI)
  qed
qed

theorem opened_protocol_negotiated_witness:
  "opened_protocol (OpenedH1 7 :: (nat, nat) opened_connection) = Http1"
proof -
  have "\<exists>s'. open_connection_inner demo_dns demo_net (pool_new_plain config_default ()) (lit ''h'') 80 (dns_new (from_secs 1), 0)
      = (Val (Inr (OpenedH1 7)), s')"
    by (simp add: open_connection_inner_def resolve_def resolve_miss_def cache_insert_def and_then_def try_then_def
        demo_dns_def dns_new_def read_clock_def on_env_def instant_add_def instant_limit_def tcp_stream_def
        demo_net_def pool_new_plain_def plain_connection_def try_map_err_def map_err_def)
  then show ?thesis
    using opened_protocol_negotiated [of demo_dns demo_net "pool_new_plain config_default ()" "lit ''h''" 80
        "(dns_new (from_secs 1), 0)" "OpenedH1 7"] by (auto simp: pool_new_plain_def)
qed



end
