(* ===== verification/Transport.thy ===== *)
theory Transport
  imports Connect Output
begin

text \<open>
  \<open>transport.rs\<close>: one request with its timeout, the loop over same-host redirects with its
  8-bit hop counter, the classification of responses and the parsing of Retry-After.  The
  senders, requests, responses and URIs (\<open>hyper\<close>, \<open>http\<close>) are parameters.  The loop is run
  with fuel; \<open>redirects_bounded\<close> says how much is enough, and \<open>redirects_never_end\<close> where
  none is.
\<close>

declare split_paired_All [simp del] split_paired_Ex [simp del]

section \<open>Data\<close>

record 'hm response_data =
  rd_bytes :: bytes
  rd_headers :: 'hm
  rd_elapsed :: duration

record request_config =
  rc_user_agent :: rstr
  rc_request_timeout :: duration
  rc_max_redirects :: u8

record 'uri cross_host_redirect =
  new_uri :: 'uri
  redirects_remaining :: u8

datatype ('h2, 'h1) sender = SenderH2 'h2 | SenderH1 'h1

fun sender_from :: "('h2, 'h1) pool_handle_sender \<Rightarrow> ('h2, 'h1) sender" where
  "sender_from (HandleH2 s) = SenderH2 s"
| "sender_from (HandleH1 s) = SenderH1 s"

datatype ('uri, 'hm) transport_result =
    Response "'hm response_data"
  | Redirect "'uri cross_host_redirect"

section \<open>The environment\<close>

text \<open>\<open>http::Uri\<close>; errors are their messages.\<close>

record ('uri, 'pq) uri_ops =
  uri_parse :: "rstr \<Rightarrow> rstr + 'uri"
  uri_host :: "'uri \<Rightarrow> rstr option"
  uri_port :: "'uri \<Rightarrow> u16 option"
  uri_scheme :: "'uri \<Rightarrow> rstr option"
  uri_path_and_query :: "'uri \<Rightarrow> 'pq option"
  pq_as_str :: "'pq \<Rightarrow> rstr"
  pq_parse :: "rstr \<Rightarrow> rstr + 'pq"
  uri_replace_pq :: "'uri \<Rightarrow> 'pq \<Rightarrow> rstr + 'uri"

record ('hm, 'body) http_response =
  resp_status :: u16
  resp_headers :: 'hm
  resp_body :: 'body

text \<open>
  \<open>build_request path host agent\<close> is the builder with the \<open>Accept: image/*\<close> header.
  \<open>timeout_within d m\<close> is \<open>timeout(d, m)\<close>: \<open>None\<close> when the time is over first.
\<close>

record ('h2, 'h1, 'req, 'uri, 'hm, 'body, 'w) http_ops =
  build_request :: "rstr \<Rightarrow> rstr \<Rightarrow> rstr \<Rightarrow> rstr + 'req"
  sender_ready :: "('h2, 'h1) sender \<Rightarrow> ('w, rstr + unit) prog"
  sender_send :: "('h2, 'h1) sender \<Rightarrow> 'req \<Rightarrow> ('w, rstr + ('hm, 'body) http_response) prog"
  collect_body :: "'body \<Rightarrow> ('w, rstr + bytes) prog"
  status_is_success :: "u16 \<Rightarrow> bool"
  timeout_within :: "duration \<Rightarrow> ('w, download_error + ('uri, 'hm) transport_result) prog \<Rightarrow>
    ('w, (download_error + ('uri, 'hm) transport_result) option) prog"
  http_now :: "'w \<Rightarrow> instant \<times> 'w"

text \<open>What the documentation of \<open>timeout\<close> promises of a result that arrived in time.\<close>

definition timeout_lawful :: "('h2, 'h1, 'req, 'uri, 'hm, 'body, 'w) http_ops \<Rightarrow> bool" where
  "timeout_lawful ht \<longleftrightarrow>
     (\<forall>d m w r w'. timeout_within ht d m w = (Val (Some r), w') \<longrightarrow> m w = (Val r, w'))"

section \<open>Requests\<close>

definition request_error :: "string \<Rightarrow> rstr \<Rightarrow> download_error" where
  "request_error what e = ConnectionFailed (lit what @ e)"

definition send_request ::
    "('h2, 'h1, 'req, 'uri, 'hm, 'body, 'w) http_ops \<Rightarrow> ('h2, 'h1) sender \<Rightarrow> 'req \<Rightarrow>
     ('w, download_error + ('hm, 'body) http_response) prog" where
  "send_request ht s req =
     try_then (try_map_err (sender_ready ht s) (request_error ''sender not ready: '')) (\<lambda>_.
     try_map_err (sender_send ht s req) (request_error ''send failed: ''))"

definition resolve_redirect ::
    "('uri, 'pq) uri_ops \<Rightarrow> 'uri \<Rightarrow> rstr \<Rightarrow> download_error + 'uri" where
  "resolve_redirect us current location =
     (let relative =
        (case pq_parse us location of
           Inl e \<Rightarrow> Inl (ConnectionFailed (lit ''invalid redirect location '' @ [39] @ location @ [39] @ lit '': '' @ e))
         | Inr pq \<Rightarrow> map_err (request_error ''failed to construct redirect URI: '') (uri_replace_pq us current pq))
      in case uri_parse us location of
           Inr uri \<Rightarrow> if uri_scheme us uri \<noteq> None then Inr uri else relative
         | Inl _ \<Rightarrow> relative)"

definition parse_retry_after :: "('hm, 'hv) header_ops \<Rightarrow> 'hm \<Rightarrow> duration option" where
  "parse_retry_after ho headers =
     (case header_get ho headers (lit ''retry-after'') of
        None \<Rightarrow> None
      | Some v \<Rightarrow>
          (case header_str_ok ho v of
             None \<Rightarrow> None
           | Some s \<Rightarrow>
               (case parse_unsigned (2 ^ 64 - 1) s of
                  None \<Rightarrow> None
                | Some n \<Rightarrow> Some (from_secs (of_nat n)))))"

definition is_redirect :: "u16 \<Rightarrow> bool" where
  "is_redirect status \<longleftrightarrow> status = 301 \<or> status = 302 \<or> status = 307 \<or> status = 308"

definition redirect_location ::
    "('hm, 'hv) header_ops \<Rightarrow> ('hm, 'body) http_response \<Rightarrow> download_error + rstr" where
  "redirect_location ho resp =
     (case header_get ho (resp_headers resp) (lit ''location'') of
        None \<Rightarrow> Inl (ConnectionFailed (lit ''redirect response missing Location header''))
      | Some v \<Rightarrow> map_err (request_error ''invalid Location header: '') (header_to_str ho v))"

definition too_many_redirects :: "u8 \<Rightarrow> download_error" where
  "too_many_redirects limit =
     TooManyRedirects (lit ''exceeded '' @ show_nat (unat limit) @ lit '' redirects'')"

text \<open>A response that is neither a redirect nor a success.\<close>

definition error_response ::
    "('hm, 'hv) header_ops \<Rightarrow> ('h2, 'h1, 'req, 'uri, 'hm, 'body, 'w) http_ops \<Rightarrow> ('hm, 'body) http_response \<Rightarrow>
     ('w, download_error + ('uri, 'hm) transport_result) prog" where
  "error_response ho ht resp =
     try_then (try_map_err (collect_body ht (resp_body resp)) (request_error ''failed to read error body: '')) (\<lambda>body.
     ret (Inl (HttpStatus (resp_status resp) (take 200 (from_utf8_lossy body))
       (parse_retry_after ho (resp_headers resp)))))"

definition success_response ::
    "('h2, 'h1, 'req, 'uri, 'hm, 'body, 'w) http_ops \<Rightarrow> ('hm, 'body) http_response \<Rightarrow>
     ('w, download_error + ('uri, 'hm) transport_result) prog" where
  "success_response ht resp =
     try_then (try_map_err (collect_body ht (resp_body resp)) (request_error ''failed to read response body: '')) (\<lambda>body.
     ret (Inr (Response \<lparr>rd_bytes = body, rd_headers = resp_headers resp, rd_elapsed = dur_zero\<rparr>)))"

definition request_path :: "('uri, 'pq) uri_ops \<Rightarrow> 'uri \<Rightarrow> rstr" where
  "request_path us uri = (case uri_path_and_query us uri of Some pq \<Rightarrow> pq_as_str us pq | None \<Rightarrow> lit ''/'')"

text \<open>
  One round of the loop: the response, and for a redirect that stays on the host the URL and
  the counter of the next round.
\<close>

definition redirect_step ::
    "bool \<Rightarrow> ('uri, 'pq) uri_ops \<Rightarrow> ('hm, 'hv) header_ops \<Rightarrow> ('h2, 'h1, 'req, 'uri, 'hm, 'body, 'w) http_ops \<Rightarrow>
     rstr \<Rightarrow> u8 \<Rightarrow> 'uri \<Rightarrow> u8 \<Rightarrow> ('hm, 'body) http_response \<Rightarrow>
     ('w, download_error + (('uri, 'hm) transport_result + 'uri \<times> u8)) prog" where
  "redirect_step oc us ho ht host limit current redirects resp =
     and_then (lift_outcome (u8_add oc redirects 1)) (\<lambda>n.
     if n > limit then ret (Inl (too_many_redirects limit))
     else try_then (ret (redirect_location ho resp)) (\<lambda>location.
       and_then (collect_body ht (resp_body resp)) (\<lambda>_.
       try_then (ret (resolve_redirect us current location)) (\<lambda>resolved.
       let new_host = (case uri_host us resolved of Some h \<Rightarrow> h | None \<Rightarrow> [])
       in if \<not> eq_ignore_ascii_case new_host host
          then ret (Inr (Inl (Redirect \<lparr>new_uri = resolved, redirects_remaining = limit - n\<rparr>)))
          else ret (Inr (Inr (resolved, n)))))))"

fun redirect_loop ::
    "bool \<Rightarrow> ('uri, 'pq) uri_ops \<Rightarrow> ('hm, 'hv) header_ops \<Rightarrow> ('h2, 'h1, 'req, 'uri, 'hm, 'body, 'w) http_ops \<Rightarrow>
     ('h2, 'h1) sender \<Rightarrow> rstr \<Rightarrow> request_config \<Rightarrow> nat \<Rightarrow> 'uri \<Rightarrow> u8 \<Rightarrow>
     ('w, download_error + ('uri, 'hm) transport_result) prog" where
  "redirect_loop oc us ho ht s host rc 0 current redirects = lift_outcome Diverges"
| "redirect_loop oc us ho ht s host rc (Suc fuel) current redirects =
     try_then (ret (map_err (request_error ''failed to build request: '')
         (build_request ht (request_path us current) host (rc_user_agent rc)))) (\<lambda>req.
     try_then (send_request ht s req) (\<lambda>resp.
     if is_redirect (resp_status resp) then
       try_then (redirect_step oc us ho ht host (rc_max_redirects rc) current redirects resp) (\<lambda>next_round.
       case next_round of
         Inl r \<Rightarrow> ret (Inr r)
       | Inr (resolved, n) \<Rightarrow> redirect_loop oc us ho ht s host rc fuel resolved n)
     else if \<not> status_is_success ht (resp_status resp) then error_response ho ht resp
     else success_response ht resp))"

definition execute_with_redirects ::
    "bool \<Rightarrow> ('uri, 'pq) uri_ops \<Rightarrow> ('hm, 'hv) header_ops \<Rightarrow> ('h2, 'h1, 'req, 'uri, 'hm, 'body, 'w) http_ops \<Rightarrow>
     ('h2, 'h1) sender \<Rightarrow> 'uri \<Rightarrow> rstr \<Rightarrow> request_config \<Rightarrow> nat \<Rightarrow>
     ('w, download_error + ('uri, 'hm) transport_result) prog" where
  "execute_with_redirects oc us ho ht s uri host rc fuel = redirect_loop oc us ho ht s host rc fuel uri 0"

definition execute_request ::
    "bool \<Rightarrow> ('uri, 'pq) uri_ops \<Rightarrow> ('hm, 'hv) header_ops \<Rightarrow> ('h2, 'h1, 'req, 'uri, 'hm, 'body, 'w) http_ops \<Rightarrow>
     ('h2, 'h1) sender \<Rightarrow> 'uri \<Rightarrow> rstr \<Rightarrow> request_config \<Rightarrow> nat \<Rightarrow>
     ('w, download_error + ('uri, 'hm) transport_result) prog" where
  "execute_request oc us ho ht s uri host rc fuel =
     and_then (\<lambda>w. case http_now ht w of (t, w') \<Rightarrow> (Val t, w')) (\<lambda>start.
     and_then (timeout_within ht (rc_request_timeout rc)
         (execute_with_redirects oc us ho ht s uri host rc fuel)) (\<lambda>result.
     case result of
       Some (Inr (Response data)) \<Rightarrow>
         and_then (\<lambda>w. case http_now ht w of (t, w') \<Rightarrow> (Val t, w')) (\<lambda>t.
         ret (Inr (Response (data\<lparr>rd_elapsed := instant_since t start\<rparr>))))
     | Some (Inr (Redirect r)) \<Rightarrow> ret (Inr (Redirect r))
     | Some (Inl e) \<Rightarrow> ret (Inl e)
     | None \<Rightarrow> ret (Inl Timeout)))"

section \<open>Lemmas: the hop counter\<close>

text \<open>The environment ends: none of its operations is a loop of this development.\<close>

definition http_ends :: "('h2, 'h1, 'req, 'uri, 'hm, 'body, 'w) http_ops \<Rightarrow> bool" where
  "http_ends ht \<longleftrightarrow> (\<forall>s. ends (sender_ready ht s)) \<and> (\<forall>s r. ends (sender_send ht s r)) \<and>
     (\<forall>b. ends (collect_body ht b))"

text \<open>The counter does not wrap: checked, or with a limit below \<open>u8::MAX\<close>.\<close>

definition counter_safe :: "bool \<Rightarrow> u8 \<Rightarrow> bool" where
  "counter_safe oc limit \<longleftrightarrow> oc \<or> limit \<noteq> 255"

lemma unat_u8_less: "unat (n :: u8) < 256"
  using unsigned_less [of n, where 'a = nat] by simp

lemma counter_next:
  assumes "counter_safe oc limit" "n \<le> limit" "u8_add oc n 1 = Val m" "m \<le> limit"
  shows "unat m = Suc (unat n)"
proof (cases "unat n = 255")
  case True
  then have "unat limit = 255" using assms(2) unat_u8_less [of limit] by (simp add: word_le_nat_alt)
  then have "limit = 255" by (simp add: word_unat_eq_iff)
  with assms(1,3) True show ?thesis by (simp add: counter_safe_def u8_add_def)
next
  case False
  with unat_u8_less [of n] have "unat n + 1 < 256" by simp
  then show ?thesis using assms(3) by (auto simp: u8_add_def unat_word_ariths)
qed

text \<open>What a redirect that is followed did to the counter, and where it leads.\<close>

lemma redirect_step_cases:
  assumes "redirect_step oc us ho ht host limit cur n resp w = (Val r, w')"
  shows "case r of
      Inl e \<Rightarrow> True
    | Inr (Inl t) \<Rightarrow> \<exists>u m. t = Redirect \<lparr>new_uri = u, redirects_remaining = limit - m\<rparr> \<and>
        u8_add oc n 1 = Val m \<and> m \<le> limit \<and>
        \<not> eq_ignore_ascii_case (case uri_host us u of Some h \<Rightarrow> h | None \<Rightarrow> []) host
    | Inr (Inr (u, m)) \<Rightarrow> u8_add oc n 1 = Val m \<and> m \<le> limit \<and>
        eq_ignore_ascii_case (case uri_host us u of Some h \<Rightarrow> h | None \<Rightarrow> []) host"
proof -
  obtain m where m: "u8_add oc n 1 = Val m"
    using assms by (auto simp: redirect_step_def and_then_eq_Val)
  show ?thesis
  proof (cases "m > limit")
    case True
    with assms m show ?thesis by (auto simp: redirect_step_def and_then_def)
  next
    case False
    with assms m show ?thesis
      by (auto simp: redirect_step_def and_then_eq_Val try_then_eq_Val Let_def not_less split: if_splits)
  qed
qed

lemma redirect_step_ends: "http_ends ht \<Longrightarrow> ends (redirect_step oc us ho ht host limit cur n resp)"
  unfolding redirect_step_def http_ends_def
  by (intro ends_and_then ends_simps) (auto simp: Let_def simp del: ret_apply intro!: ends_try_then ends_and_then)

lemma ends_try_map_err: "ends m \<Longrightarrow> ends (try_map_err m f)"
  unfolding try_map_err_def by (intro ends_and_then ends_simps)

lemma response_ends: "http_ends ht \<Longrightarrow> ends (error_response ho ht resp)" "http_ends ht \<Longrightarrow> ends (success_response ht resp)"
  unfolding error_response_def success_response_def http_ends_def
  by (intro ends_try_then ends_try_map_err ends_simps; simp)+

lemma send_request_ends: "http_ends ht \<Longrightarrow> ends (send_request ht s req)"
  unfolding send_request_def http_ends_def by (intro ends_try_then ends_try_map_err) simp_all

text \<open>One round of the loop, with the next one abstracted.\<close>

definition loop_round ::
    "bool \<Rightarrow> ('uri, 'pq) uri_ops \<Rightarrow> ('hm, 'hv) header_ops \<Rightarrow> ('h2, 'h1, 'req, 'uri, 'hm, 'body, 'w) http_ops \<Rightarrow>
     ('h2, 'h1) sender \<Rightarrow> rstr \<Rightarrow> request_config \<Rightarrow>
     ('uri \<Rightarrow> u8 \<Rightarrow> ('w, download_error + ('uri, 'hm) transport_result) prog) \<Rightarrow> 'uri \<Rightarrow> u8 \<Rightarrow>
     ('w, download_error + ('uri, 'hm) transport_result) prog" where
  "loop_round oc us ho ht s host rc again current redirects =
     try_then (ret (map_err (request_error ''failed to build request: '')
         (build_request ht (request_path us current) host (rc_user_agent rc)))) (\<lambda>req.
     try_then (send_request ht s req) (\<lambda>resp.
     if is_redirect (resp_status resp) then
       try_then (redirect_step oc us ho ht host (rc_max_redirects rc) current redirects resp) (\<lambda>next_round.
       case next_round of Inl r \<Rightarrow> ret (Inr r) | Inr (resolved, n) \<Rightarrow> again resolved n)
     else if \<not> status_is_success ht (resp_status resp) then error_response ho ht resp
     else success_response ht resp))"

lemma redirect_loop_Suc:
  "redirect_loop oc us ho ht s host rc (Suc fuel) =
     loop_round oc us ho ht s host rc (redirect_loop oc us ho ht s host rc fuel)"
  by (intro ext) (simp add: loop_round_def)

declare redirect_loop.simps(2) [simp del]

lemma loop_round_cong:
  assumes safe: "counter_safe oc (rc_max_redirects rc)" "n \<le> rc_max_redirects rc"
    and same: "\<And>u m w. unat m = Suc (unat n) \<Longrightarrow> m \<le> rc_max_redirects rc \<Longrightarrow> f u m w = g u m w"
  shows "loop_round oc us ho ht s host rc f cur n w = loop_round oc us ho ht s host rc g cur n w"
proof -
  have next_round: "(case r of Inl t \<Rightarrow> ret (Inr t) | Inr (u, m) \<Rightarrow> f u m) w2 =
      (case r of Inl t \<Rightarrow> ret (Inr t) | Inr (u, m) \<Rightarrow> g u m) w2"
    if "redirect_step oc us ho ht host (rc_max_redirects rc) cur n resp w1 = (Val (Inr r), w2)" for r resp w1 w2
    using redirect_step_cases [OF that] counter_next [OF safe] same
    by (auto split: sum.splits prod.splits)
  show ?thesis
    unfolding loop_round_def
    by (intro try_then_cong) (auto intro!: try_then_cong next_round)
qed

lemma loop_round_ends:
  assumes safe: "counter_safe oc (rc_max_redirects rc)" "n \<le> rc_max_redirects rc" and ht: "http_ends ht"
    and again: "\<And>u m. unat m = Suc (unat n) \<Longrightarrow> m \<le> rc_max_redirects rc \<Longrightarrow> ends (f u m)"
  shows "ends (loop_round oc us ho ht s host rc f cur n)"
proof -
  define g where "g u m = (if unat m = Suc (unat n) \<and> m \<le> rc_max_redirects rc then f u m else ret (Inl Timeout))" for u m
  have "ends (g u m)" for u m using again by (simp add: g_def del: ret_apply)
  then have "ends (loop_round oc us ho ht s host rc g cur n)"
    unfolding loop_round_def
    by (intro ends_try_then ends_simps send_request_ends ht)
      (auto simp del: ret_apply split: sum.split prod.split intro!: ends_try_then redirect_step_ends response_ends ht)
  moreover have "loop_round oc us ho ht s host rc f cur n w = loop_round oc us ho ht s host rc g cur n w" for w
    by (rule loop_round_cong [OF safe]) (simp add: g_def)
  ultimately show ?thesis by (simp add: ends_def)
qed

lemma redirect_loop_enough:
  assumes safe: "counter_safe oc (rc_max_redirects rc)" and ht: "http_ends ht"
  shows "n \<le> rc_max_redirects rc \<Longrightarrow> unat (rc_max_redirects rc) - unat n < k \<Longrightarrow>
     ends (redirect_loop oc us ho ht s host rc k cur n) \<and>
     (\<forall>w. redirect_loop oc us ho ht s host rc (Suc k) cur n w = redirect_loop oc us ho ht s host rc k cur n w)"
proof (induction k arbitrary: cur n)
  case 0
  then show ?case by simp
next
  case (Suc k)
  have smaller: "unat (rc_max_redirects rc) - unat m < k"
    if "unat m = Suc (unat n)" "m \<le> rc_max_redirects rc" for m
    using that Suc.prems by (simp add: word_le_nat_alt)
  have "redirect_loop oc us ho ht s host rc (Suc (Suc k)) cur n w = redirect_loop oc us ho ht s host rc (Suc k) cur n w" for w
    unfolding redirect_loop_Suc [of _ _ _ _ _ _ _ "Suc k"] redirect_loop_Suc [of _ _ _ _ _ _ _ k]
    using smaller Suc.IH by (intro loop_round_cong safe Suc.prems(1)) (simp add: redirect_loop_Suc)
  moreover have "ends (redirect_loop oc us ho ht s host rc (Suc k) cur n)"
    unfolding redirect_loop_Suc using smaller Suc.IH by (intro loop_round_ends safe Suc.prems(1) ht) simp
  ultimately show ?case by blast
qed

lemma redirect_loop_more:
  assumes "counter_safe oc (rc_max_redirects rc)" "http_ends ht" "Suc (unat (rc_max_redirects rc)) \<le> k"
  shows "redirect_loop oc us ho ht s host rc k cur 0 w =
     redirect_loop oc us ho ht s host rc (Suc (unat (rc_max_redirects rc))) cur 0 w"
  using assms(3)
proof (induction k rule: dec_induct)
  case base
  show ?case by simp
next
  case (step k)
  then have "unat (rc_max_redirects rc) - unat (0 :: u8) < k" by simp
  then have "redirect_loop oc us ho ht s host rc (Suc k) cur 0 w = redirect_loop oc us ho ht s host rc k cur 0 w"
    using redirect_loop_enough [OF assms(1,2), where n = 0 and k = k and us = us and ho = ho and s = s and
      host = host and cur = cur] by simp
  with step.IH show ?case by simp
qed

section \<open>Properties\<close>

text \<open>
  C19.  The redirect loop ends after at most \<open>max_redirects + 1\<close> requests: with that much fuel
  it never runs out, and more fuel changes nothing; in builds with overflow checks for
  every limit, in builds without them for every limit below 255.
\<close>
theorem redirects_bounded:
  assumes "oc \<or> rc_max_redirects rc \<noteq> 255" "http_ends ht" "Suc (unat (rc_max_redirects rc)) \<le> fuel"
  shows "fst (execute_with_redirects oc us ho ht s uri host rc fuel w) \<noteq> Diverges \<and>
     execute_with_redirects oc us ho ht s uri host rc fuel w =
     execute_with_redirects oc us ho ht s uri host rc (Suc (unat (rc_max_redirects rc))) w"
proof -
  have safe: "counter_safe oc (rc_max_redirects rc)" using assms(1) by (simp add: counter_safe_def)
  have "ends (redirect_loop oc us ho ht s host rc (Suc (unat (rc_max_redirects rc))) uri 0)"
    using redirect_loop_enough [OF safe assms(2), where n = 0 and k = "Suc (unat (rc_max_redirects rc))" and us = us and
      ho = ho and s = s and host = host and cur = uri] by simp
  then show ?thesis
    using redirect_loop_more [OF safe assms(2,3), where us = us and ho = ho and s = s and host = host and cur = uri and w = w]
    by (simp add: execute_with_redirects_def ends_def)
qed

text \<open>A server with one host that always redirects to \<open>/\<close>; the world counts the requests.\<close>

definition demo_uri :: "(rstr \<times> u16, rstr) uri_ops" where
  "demo_uri = \<lparr>uri_parse = (\<lambda>s. Inr (if 7 < length s then [s ! 7] else lit ''h'', 80)), uri_host = (\<lambda>u. Some (fst u)), uri_port = (\<lambda>u. Some (snd u)),
     uri_scheme = (\<lambda>u. Some (lit ''http'')), uri_path_and_query = (\<lambda>u. None), pq_as_str = (\<lambda>p. p),
     pq_parse = (\<lambda>s. Inr s), uri_replace_pq = (\<lambda>u p. Inr u)\<rparr>"

definition demo_http :: "(unit, unit, unit, rstr \<times> u16, (rstr \<times> bytes) list, unit, nat) http_ops" where
  "demo_http = \<lparr>build_request = (\<lambda>p h a. Inr ()), sender_ready = (\<lambda>s. ret (Inr ())),
     sender_send = (\<lambda>s r w. (Val (Inr \<lparr>resp_status = 302, resp_headers = [(lit ''location'', [47])], resp_body = ()\<rparr>), Suc w)),
     collect_body = (\<lambda>b. ret (Inr [])), status_is_success = (\<lambda>s. s = 200),
     timeout_within = (\<lambda>d m w. case m w of (Val r, w') \<Rightarrow> (Val (Some r), w') | (Panic, w') \<Rightarrow> (Panic, w')
        | (Diverges, w') \<Rightarrow> (Val None, w')),
     http_now = (\<lambda>w. (w, w))\<rparr>"

lemma demo_http_ends: "http_ends demo_http"
  by (simp add: http_ends_def demo_http_def) (simp add: ends_def)

theorem redirects_bounded_witness:
  "fst (execute_with_redirects True demo_uri demo_headers demo_http (SenderH1 ()) (lit ''h'', 80) (lit ''h'')
      \<lparr>rc_user_agent = [], rc_request_timeout = dur_zero, rc_max_redirects = 255\<rparr> 256 0) \<noteq> Diverges"
proof -
  define rc where "rc = \<lparr>rc_user_agent = [], rc_request_timeout = dur_zero, rc_max_redirects = (255 :: u8)\<rparr>"
  have "Suc (unat (rc_max_redirects rc)) \<le> 256" by (simp add: rc_def)
  then show ?thesis
    using redirects_bounded [of True rc demo_http 256 demo_uri demo_headers "SenderH1 ()" "(lit ''h'', 80)" "lit ''h''" 0]
      demo_http_ends by (simp add: rc_def)
qed

text \<open>The environment of a server that redirects for ever to a host it calls by the same name.\<close>

definition redirects_forever ::
    "('uri, 'pq) uri_ops \<Rightarrow> ('hm, 'hv) header_ops \<Rightarrow> ('h2, 'h1, 'req, 'uri, 'hm, 'body, 'w) http_ops \<Rightarrow>
     ('h2, 'h1) sender \<Rightarrow> rstr \<Rightarrow> rstr \<Rightarrow> bool" where
  "redirects_forever us ho ht s host agent \<longleftrightarrow>
     (\<forall>path w. \<exists>req. build_request ht path host agent = Inr req \<and>
        (\<exists>resp w'. send_request ht s req w = (Val (Inr resp), w') \<and> is_redirect (resp_status resp) \<and>
          (\<exists>r w''. collect_body ht (resp_body resp) w' = (Val r, w'')) \<and>
          (\<exists>loc. redirect_location ho resp = Inr loc \<and>
            (\<forall>cur. \<exists>u h. resolve_redirect us cur loc = Inr u \<and> uri_host us u = Some h \<and> eq_ignore_ascii_case h host))))"

lemma redirects_forever_round:
  assumes "redirects_forever us ho ht s host (rc_user_agent rc)" and max: "rc_max_redirects rc = 255"
  shows "\<exists>u w'. redirect_loop False us ho ht s host rc (Suc k) cur n w = redirect_loop False us ho ht s host rc k u (n + 1) w'"
proof -
  obtain req resp w1 r w2 loc where
    req: "build_request ht (request_path us cur) host (rc_user_agent rc) = Inr req"
    and resp: "send_request ht s req w = (Val (Inr resp), w1)" "is_redirect (resp_status resp)"
    and body: "collect_body ht (resp_body resp) w1 = (Val r, w2)"
    and loc: "redirect_location ho resp = Inr loc" "\<And>cur. \<exists>u h. resolve_redirect us cur loc = Inr u \<and>
        uri_host us u = Some h \<and> eq_ignore_ascii_case h host"
    using assms(1) unfolding redirects_forever_def by metis
  obtain u h where u: "resolve_redirect us cur loc = Inr u" "uri_host us u = Some h" "eq_ignore_ascii_case h host"
    using loc(2) by blast
  have add: "u8_add False n 1 = Val (n + 1)" by (simp add: u8_add_def)
  have le: "\<not> n + 1 > rc_max_redirects rc"
  proof -
    have "unat (n + 1) \<le> 255" using unat_u8_less [of "n + 1"] by simp
    then show ?thesis by (simp add: max word_less_nat_alt)
  qed
  have "redirect_step False us ho ht host (rc_max_redirects rc) cur n resp w1 = (Val (Inr (Inr (u, n + 1))), w2)"
    using add le body loc(1) u by (simp add: redirect_step_def and_then_def try_then_def Let_def)
  then have "redirect_loop False us ho ht s host rc (Suc k) cur n w = redirect_loop False us ho ht s host rc k u (n + 1) w2"
    using req resp by (simp add: redirect_loop.simps(2) try_then_def and_then_def map_err_def)
  then show ?thesis by blast
qed

text \<open>
  C38.  With \<open>max_redirects = 255\<close> in a build without overflow checks the 8-bit counter wraps
  and the limit is never exceeded: against a server that keeps redirecting to the same host
  the loop does not end, whatever the fuel.
\<close>
theorem redirects_never_end:
  assumes "rc_max_redirects rc = 255" and "redirects_forever us ho ht s host (rc_user_agent rc)"
  shows "fst (execute_with_redirects False us ho ht s uri host rc fuel w) = Diverges"
proof -
  have "fst (redirect_loop False us ho ht s host rc fuel cur n w) = Diverges" for cur n
  proof (induction fuel arbitrary: cur n w)
    case 0
    then show ?case by simp
  next
    case (Suc k)
    obtain u w' where "redirect_loop False us ho ht s host rc (Suc k) cur n w = redirect_loop False us ho ht s host rc k u (n + 1) w'"
      using redirects_forever_round [OF assms(2,1)] by blast
    with Suc.IH show ?case by metis
  qed
  then show ?thesis by (simp add: execute_with_redirects_def)
qed

lemma demo_redirects_forever: "redirects_forever demo_uri demo_headers demo_http (SenderH1 ()) (lit ''h'') []"
  by (simp add: redirects_forever_def demo_http_def send_request_def try_then_def and_then_def try_map_err_def
      map_err_def is_redirect_def redirect_location_def demo_headers_def resolve_redirect_def demo_uri_def)

theorem redirects_never_end_witness:
  "fst (execute_with_redirects False demo_uri demo_headers demo_http (SenderH1 ()) (lit ''h'', 80) (lit ''h'')
      \<lparr>rc_user_agent = [], rc_request_timeout = dur_zero, rc_max_redirects = 255\<rparr> 1000000 0) = Diverges"
  by (rule redirects_never_end) (simp_all add: demo_redirects_forever del: lit_simps)

text \<open>The data of a response that arrived completely, with a status of success.\<close>

definition complete_response ::
    "('h2, 'h1, 'req, 'uri, 'hm, 'body, 'w) http_ops \<Rightarrow> 'hm response_data \<Rightarrow> bool" where
  "complete_response ht d \<longleftrightarrow> (\<exists>(resp :: ('hm, 'body) http_response) w1 w2.
     status_is_success ht (resp_status resp) \<and> \<not> is_redirect (resp_status resp) \<and>
     collect_body ht (resp_body resp) w1 = (Val (Inr (rd_bytes d)), w2) \<and> rd_headers d = resp_headers resp)"

lemma complete_response_elapsed [simp]:
  "complete_response ht (d\<lparr>rd_elapsed := t\<rparr>) \<longleftrightarrow> complete_response ht d"
  by (simp add: complete_response_def)

text \<open>What every result of the loop comes from.\<close>

definition result_ok ::
    "('uri, 'pq) uri_ops \<Rightarrow> ('h2, 'h1, 'req, 'uri, 'hm, 'body, 'w) http_ops \<Rightarrow> rstr \<Rightarrow> u8 \<Rightarrow> u8 \<Rightarrow>
     download_error + ('uri, 'hm) transport_result \<Rightarrow> bool" where
  "result_ok us ht host limit n r = (case r of
      Inr (Response d) \<Rightarrow> complete_response ht d
    | Inr (Redirect x) \<Rightarrow>
          \<not> eq_ignore_ascii_case (case uri_host us (new_uri x) of Some h \<Rightarrow> h | None \<Rightarrow> []) host \<and>
          unat (redirects_remaining x) + unat n < unat limit
    | Inl e \<Rightarrow> (\<exists>m. e = ConnectionFailed m) \<or> e = too_many_redirects limit \<or>
          (\<exists>c m ra. e = HttpStatus c m ra \<and> length m \<le> 200 \<and> \<not> is_redirect c \<and> \<not> status_is_success ht c))"

lemma result_ok_ConnectionFailed [simp]:
  shows "result_ok us ht host limit n (Inl (ConnectionFailed m))"
    and "result_ok us ht host limit n (Inl (request_error what e))"
  by (simp_all add: result_ok_def request_error_def)

lemma send_request_errors:
  "send_request ht s req w = (Val (Inl e), w') \<Longrightarrow> \<exists>what m. e = request_error what m"
  by (auto simp: send_request_def try_then_eq_Val try_map_err_eq_Val)

lemma resolve_redirect_errors: "resolve_redirect us cur loc = Inl e \<Longrightarrow> \<exists>m. e = ConnectionFailed m"
  by (auto simp: resolve_redirect_def request_error_def Let_def split: sum.splits if_splits)

lemma redirect_location_errors: "redirect_location ho resp = Inl e \<Longrightarrow> \<exists>m. e = ConnectionFailed m"
  by (auto simp: redirect_location_def request_error_def split: option.splits)

lemma redirect_step_errors:
  assumes "redirect_step oc us ho ht host limit cur n resp w = (Val (Inl e), w')"
  shows "e = too_many_redirects limit \<or> (\<exists>m. e = ConnectionFailed m)"
proof -
  obtain m where m: "u8_add oc n 1 = Val m"
    using assms by (auto simp: redirect_step_def and_then_eq_Val)
  show ?thesis
  proof (cases "m > limit")
    case True
    with assms m show ?thesis by (auto simp: redirect_step_def and_then_def)
  next
    case False
    with assms m show ?thesis
      by (auto simp: redirect_step_def and_then_eq_Val try_then_eq_Val Let_def split: if_splits
          dest: redirect_location_errors resolve_redirect_errors)
  qed
qed

lemma response_result_ok:
  assumes "\<not> is_redirect (resp_status resp)"
    and "(if \<not> status_is_success ht (resp_status resp) then error_response ho ht resp else success_response ht resp) w
      = (Val r, w')"
  shows "result_ok us ht host limit n r"
proof (cases "status_is_success ht (resp_status resp)")
  case True
  with assms consider what m where "r = Inl (request_error what m)"
    | b where "collect_body ht (resp_body resp) w = (Val (Inr b), w')"
        "r = Inr (Response \<lparr>rd_bytes = b, rd_headers = resp_headers resp, rd_elapsed = dur_zero\<rparr>)"
    by (auto simp: success_response_def try_then_eq_Val try_map_err_eq_Val)
  then show ?thesis
  proof cases
    case 1
    then show ?thesis by simp
  next
    case 2
    with True assms(1) show ?thesis unfolding result_ok_def complete_response_def by (auto intro!: exI [of _ resp])
  qed
next
  case False
  with assms show ?thesis
    by (auto simp: error_response_def try_then_eq_Val try_map_err_eq_Val result_ok_def request_error_def)
qed

lemma next_round_eq_Val:
  "(case x of Inl t \<Rightarrow> ret (Inr t) | Inr (u, m) \<Rightarrow> f u m) w = (Val r, w') \<longleftrightarrow>
     (\<exists>t. x = Inl t \<and> r = Inr t \<and> w = w') \<or> (\<exists>u m. x = Inr (u, m) \<and> f u m w = (Val r, w'))"
  by (cases x) auto

text \<open>What a request returns, given what its timed part returned.\<close>

lemma execute_request_cases:
  assumes "execute_request oc us ho ht s uri host rc fuel w = (Val r, w')"
  shows "\<exists>t w1 res w2. timeout_within ht (rc_request_timeout rc)
      (execute_with_redirects oc us ho ht s uri host rc fuel) w1 = (Val res, w2) \<and>
     (case res of None \<Rightarrow> r = Inl Timeout
      | Some (Inl e) \<Rightarrow> r = Inl e
      | Some (Inr (Redirect x)) \<Rightarrow> r = Inr (Redirect x)
      | Some (Inr (Response d)) \<Rightarrow> (\<exists>t'. r = Inr (Response (d\<lparr>rd_elapsed := instant_since t' t\<rparr>))))"
proof -
  obtain t w1 res w2 where
    timed: "timeout_within ht (rc_request_timeout rc) (execute_with_redirects oc us ho ht s uri host rc fuel) w1 = (Val res, w2)"
    and rest: "(case res of
       Some (Inr (Response data)) \<Rightarrow>
         and_then (\<lambda>w. case http_now ht w of (t, w') \<Rightarrow> (Val t, w')) (\<lambda>t'.
         ret (Inr (Response (data\<lparr>rd_elapsed := instant_since t' t\<rparr>))))
     | Some (Inr (Redirect r)) \<Rightarrow> ret (Inr (Redirect r))
     | Some (Inl e) \<Rightarrow> ret (Inl e)
     | None \<Rightarrow> ret (Inl Timeout)) w2 = (Val r, w')"
    using assms unfolding execute_request_def and_then_eq_Val by blast
  then show ?thesis
    by (intro exI [of _ t] exI [of _ w1] exI [of _ res] exI [of _ w2] conjI [OF timed])
      (auto simp: and_then_eq_Val split: option.splits sum.splits transport_result.splits prod.splits)
qed

lemma redirect_loop_result:
  assumes safe: "counter_safe oc (rc_max_redirects rc)"
  shows "n \<le> rc_max_redirects rc \<Longrightarrow> redirect_loop oc us ho ht s host rc fuel cur n w = (Val r, w') \<Longrightarrow>
     result_ok us ht host (rc_max_redirects rc) n r"
proof (induction fuel arbitrary: cur n w)
  case 0
  then show ?case by simp
next
  case (Suc k)
  from Suc.prems(2) consider (failed) what m where "r = Inl (request_error what m)"
    | (response) resp w1 where
      "(if is_redirect (resp_status resp) then
         try_then (redirect_step oc us ho ht host (rc_max_redirects rc) cur n resp) (\<lambda>next_round.
         case next_round of Inl r \<Rightarrow> ret (Inr r) | Inr (resolved, n) \<Rightarrow> redirect_loop oc us ho ht s host rc k resolved n)
       else if \<not> status_is_success ht (resp_status resp) then error_response ho ht resp
       else success_response ht resp) w1 = (Val r, w')"
    unfolding redirect_loop.simps(2) try_then_eq_Val by (auto dest: send_request_errors)
  then show ?case
  proof cases
    case failed
    then show ?thesis by simp
  next
    case (response resp w1)
    show ?thesis
    proof (cases "is_redirect (resp_status resp)")
      case False
      with response show ?thesis by (intro response_result_ok) simp_all
    next
      case True
      with response consider e where "r = Inl e" "redirect_step oc us ho ht host (rc_max_redirects rc) cur n resp w1 = (Val (Inl e), w')"
        | t where "r = Inr t" "redirect_step oc us ho ht host (rc_max_redirects rc) cur n resp w1 = (Val (Inr (Inl t)), w')"
        | u m w2 where "redirect_step oc us ho ht host (rc_max_redirects rc) cur n resp w1 = (Val (Inr (Inr (u, m))), w2)"
            "redirect_loop oc us ho ht s host rc k u m w2 = (Val r, w')"
        by (auto simp: try_then_eq_Val next_round_eq_Val)
      then show ?thesis
      proof cases
        case 1
        with redirect_step_errors [OF 1(2)] show ?thesis by (auto simp: result_ok_def)
      next
        case 2
        with redirect_step_cases [OF 2(2)] obtain u m where um: "t = Redirect \<lparr>new_uri = u, redirects_remaining = rc_max_redirects rc - m\<rparr>"
          "u8_add oc n 1 = Val m" "m \<le> rc_max_redirects rc"
          "\<not> eq_ignore_ascii_case (case uri_host us u of Some h \<Rightarrow> h | None \<Rightarrow> []) host" by auto
        have "unat m = Suc (unat n)" by (rule counter_next [OF safe Suc.prems(1) um(2,3)])
        then have "unat (rc_max_redirects rc - m) + unat n < unat (rc_max_redirects rc)"
          using um(3) by (simp add: unat_sub word_le_nat_alt)
        with 2(1) um show ?thesis by (simp add: result_ok_def)
      next
        case 3
        with redirect_step_cases [OF 3(1)] have m: "u8_add oc n 1 = Val m" "m \<le> rc_max_redirects rc" by auto
        have "unat m = Suc (unat n)" by (rule counter_next [OF safe Suc.prems(1) m])
        with Suc.IH [OF m(2) 3(2)] show ?thesis
          by (auto simp: result_ok_def split: sum.splits transport_result.splits)
      qed
    qed
  qed
qed

text \<open>What a request returns.\<close>

lemma execute_request_result:
  assumes "oc \<or> rc_max_redirects rc \<noteq> 255" "timeout_lawful ht"
    and "execute_request oc us ho ht s uri host rc fuel w = (Val r, w')"
  shows "case r of
      Inr (Response d) \<Rightarrow> complete_response ht d
    | Inr (Redirect x) \<Rightarrow>
          \<not> eq_ignore_ascii_case (case uri_host us (new_uri x) of Some h \<Rightarrow> h | None \<Rightarrow> []) host \<and>
          redirects_remaining x < rc_max_redirects rc
    | Inl e \<Rightarrow> e = Timeout \<or> (\<exists>m. e = ConnectionFailed m) \<or>
          e = too_many_redirects (rc_max_redirects rc) \<or>
          (\<exists>c m ra. e = HttpStatus c m ra \<and> length m \<le> 200 \<and> \<not> is_redirect c \<and> \<not> status_is_success ht c)"
proof -
  have safe: "counter_safe oc (rc_max_redirects rc)" using assms(1) by (simp add: counter_safe_def)
  obtain t w1 res w2 where timed: "timeout_within ht (rc_request_timeout rc)
      (execute_with_redirects oc us ho ht s uri host rc fuel) w1 = (Val res, w2)"
    and res: "case res of None \<Rightarrow> r = Inl Timeout
      | Some (Inl e) \<Rightarrow> r = Inl e
      | Some (Inr (Redirect x)) \<Rightarrow> r = Inr (Redirect x)
      | Some (Inr (Response d)) \<Rightarrow> (\<exists>t'. r = Inr (Response (d\<lparr>rd_elapsed := instant_since t' t\<rparr>)))"
    using execute_request_cases [OF assms(3)] by blast
  have inner: "result_ok us ht host (rc_max_redirects rc) 0 q" if "res = Some q" for q
  proof -
    have "execute_with_redirects oc us ho ht s uri host rc fuel w1 = (Val q, w2)"
      using assms(2) timed that unfolding timeout_lawful_def by blast
    then show ?thesis using redirect_loop_result [OF safe, of 0] by (simp add: execute_with_redirects_def)
  qed
  show ?thesis
    using res inner
    by (auto simp: result_ok_def word_less_nat_alt split: option.splits sum.splits transport_result.splits)
qed


text \<open>
  The chain of responses a request meets, followed without a limit: \<open>redirect_chain cur w k resp w'\<close>
  says that from \<open>cur\<close> in the world \<open>w\<close>, after \<open>k\<close> redirects that stay on the host, the response
  \<open>resp\<close>, no redirect, arrives in the world \<open>w'\<close>.
\<close>

definition requested ::
    "('uri, 'pq) uri_ops \<Rightarrow> ('h2, 'h1, 'req, 'uri, 'hm, 'body, 'w) http_ops \<Rightarrow> ('h2, 'h1) sender \<Rightarrow> rstr \<Rightarrow> rstr \<Rightarrow>
     'uri \<Rightarrow> 'w \<Rightarrow> ('hm, 'body) http_response \<Rightarrow> 'w \<Rightarrow> bool" where
  "requested us ht s host agent cur w resp w' \<longleftrightarrow>
     (case build_request ht (request_path us cur) host agent of
        Inl e \<Rightarrow> False | Inr req \<Rightarrow> send_request ht s req w = (Val (Inr resp), w'))"

definition leads_to ::
    "('uri, 'pq) uri_ops \<Rightarrow> ('hm, 'hv) header_ops \<Rightarrow> rstr \<Rightarrow> 'uri \<Rightarrow> ('hm, 'body) http_response \<Rightarrow> 'uri \<Rightarrow> bool" where
  "leads_to us ho host cur resp u \<longleftrightarrow> is_redirect (resp_status resp) \<and>
     (case redirect_location ho resp of
        Inl e \<Rightarrow> False
      | Inr loc \<Rightarrow> resolve_redirect us cur loc = Inr u \<and>
          eq_ignore_ascii_case (case uri_host us u of Some h \<Rightarrow> h | None \<Rightarrow> []) host)"

inductive redirect_chain ::
    "('uri, 'pq) uri_ops \<Rightarrow> ('hm, 'hv) header_ops \<Rightarrow> ('h2, 'h1, 'req, 'uri, 'hm, 'body, 'w) http_ops \<Rightarrow>
     ('h2, 'h1) sender \<Rightarrow> rstr \<Rightarrow> rstr \<Rightarrow> 'uri \<Rightarrow> 'w \<Rightarrow> nat \<Rightarrow> ('hm, 'body) http_response \<Rightarrow> 'w \<Rightarrow> bool"
  for us ho ht s host agent where
  chain_end: "requested us ht s host agent cur w resp w' \<Longrightarrow> \<not> is_redirect (resp_status resp) \<Longrightarrow>
     redirect_chain us ho ht s host agent cur w 0 resp w'"
| chain_hop: "requested us ht s host agent cur w hop w1 \<Longrightarrow> leads_to us ho host cur hop u \<Longrightarrow>
     collect_body ht (resp_body hop) w1 = (Val drained, w2) \<Longrightarrow>
     redirect_chain us ho ht s host agent u w2 k resp w' \<Longrightarrow>
     redirect_chain us ho ht s host agent cur w (Suc k) resp w'"

lemma redirect_loop_requested:
  assumes "requested us ht s host (rc_user_agent rc) cur w resp w'"
  shows "redirect_loop oc us ho ht s host rc (Suc fuel) cur n w =
     (if is_redirect (resp_status resp) then
       try_then (redirect_step oc us ho ht host (rc_max_redirects rc) cur n resp) (\<lambda>next_round.
       case next_round of
         Inl r \<Rightarrow> ret (Inr r)
       | Inr (resolved, n) \<Rightarrow> redirect_loop oc us ho ht s host rc fuel resolved n)
     else if \<not> status_is_success ht (resp_status resp) then error_response ho ht resp
     else success_response ht resp) w'"
proof -
  obtain req where "build_request ht (request_path us cur) host (rc_user_agent rc) = Inr req"
    and sent: "send_request ht s req w = (Val (Inr resp), w')"
    using assms by (auto simp: requested_def split: sum.splits)
  then show ?thesis
    unfolding redirect_loop.simps(2) by (simp add: map_err_def try_then_def and_then_def sent)
qed

lemma redirect_step_hop:
  assumes "leads_to us ho host cur hop u" "collect_body ht (resp_body hop) w1 = (Val drained, w2)"
    and "u8_add oc n 1 = Val m"
  shows "redirect_step oc us ho ht host limit cur n hop w1 =
     (if m > limit then (Val (Inl (too_many_redirects limit)), w1) else (Val (Inr (Inr (u, m))), w2))"
  using assms by (auto simp: redirect_step_def leads_to_def and_then_def try_then_def Let_def split: sum.splits)

lemma redirect_loop_chain:
  assumes "redirect_chain us ho ht s host (rc_user_agent rc) cur w k resp w'"
  shows "unat n + k \<le> unat (rc_max_redirects rc) \<Longrightarrow> k < fuel \<Longrightarrow>
     redirect_loop oc us ho ht s host rc fuel cur n w =
     (if \<not> status_is_success ht (resp_status resp) then error_response ho ht resp else success_response ht resp) w'"
  using assms
proof (induction arbitrary: n fuel rule: redirect_chain.induct)
  case (chain_end cur w resp w')
  then obtain f where "fuel = Suc f" by (cases fuel) auto
  with chain_end show ?case by (simp add: redirect_loop_requested)
next
  case (chain_hop cur w hop w1 u drained w2 k resp w')
  then obtain f where f: "fuel = Suc f" "k < f" by (cases fuel) auto
  have next_le: "unat n + 1 < 256" using chain_hop.prems(1) unat_u8_less [of "rc_max_redirects rc"] by simp
  then have add: "u8_add oc n 1 = Val (n + 1)" and unat_next: "unat (n + 1) = Suc (unat n)"
    by (simp_all add: u8_add_def unat_word_ariths)
  have "\<not> rc_max_redirects rc < n + 1"
    using chain_hop.prems(1) unat_next by (simp add: word_less_nat_alt)
  with redirect_step_hop [OF chain_hop.hyps(2,3) add]
  have hop: "redirect_step oc us ho ht host (rc_max_redirects rc) cur n hop w1 = (Val (Inr (Inr (u, n + 1))), w2)"
    by simp
  have "is_redirect (resp_status hop)" using chain_hop.hyps(2) by (simp add: leads_to_def)
  with redirect_loop_requested [OF chain_hop.hyps(1), where oc = oc and ho = ho and fuel = f and n = n] f(1)
  have "redirect_loop oc us ho ht s host rc fuel cur n w = redirect_loop oc us ho ht s host rc f u (n + 1) w2"
    by (simp add: try_then_def and_then_def hop)
  moreover have "unat (n + 1) + k \<le> unat (rc_max_redirects rc)"
    using chain_hop.prems(1) unat_next by simp
  ultimately show ?case using chain_hop.IH f(2) by simp
qed

lemma redirect_loop_chain_exceeded:
  assumes "redirect_chain us ho ht s host (rc_user_agent rc) cur w k resp w'" and safe: "counter_safe oc (rc_max_redirects rc)"
  shows "n \<le> rc_max_redirects rc \<Longrightarrow> unat (rc_max_redirects rc) < unat n + k \<Longrightarrow> k < fuel \<Longrightarrow>
     \<exists>r w2. redirect_loop oc us ho ht s host rc fuel cur n w = (r, w2) \<and>
       (r = Val (Inl (too_many_redirects (rc_max_redirects rc))) \<or> oc \<and> r = Panic)"
  using assms(1)
proof (induction arbitrary: n fuel rule: redirect_chain.induct)
  case (chain_end cur w resp w')
  then show ?case by (simp add: word_le_nat_alt)
next
  case (chain_hop cur w hop w1 u drained w2 k resp w')
  then obtain f where f: "fuel = Suc f" "k < f" by (cases fuel) auto
  have redirect: "is_redirect (resp_status hop)" using chain_hop.hyps(2) by (simp add: leads_to_def)
  note loop = redirect_loop_requested [OF chain_hop.hyps(1), where oc = oc and ho = ho and fuel = f and n = n, folded f(1)]
  show ?case
  proof (cases "u8_add oc n 1")
    case (Val m)
    note step = redirect_step_hop [OF chain_hop.hyps(2,3) Val]
    show ?thesis
    proof (cases "m > rc_max_redirects rc")
      case True
      with step loop redirect show ?thesis by (simp add: try_then_def and_then_def)
    next
      case False
      then have m: "m \<le> rc_max_redirects rc" by simp
      have "unat m = Suc (unat n)" by (rule counter_next [OF safe chain_hop.prems(1) Val m])
      with chain_hop.IH [OF m] chain_hop.prems(2) f(2) step False loop redirect show ?thesis
        by (simp add: try_then_def and_then_def)
    qed
  next
    case Panic
    then have "oc" by (simp add: u8_add_def split: if_splits)
    with Panic loop redirect show ?thesis by (simp add: redirect_step_def try_then_def and_then_def)
  next
    case Diverges
    then show ?thesis by (simp add: u8_add_def split: if_splits)
  qed
qed


text \<open>A server that redirects twice to \<open>/\<close> on its host and then answers; the world counts the requests.\<close>

definition demo_hops :: "(unit, unit, unit, rstr \<times> u16, (rstr \<times> bytes) list, unit, nat) http_ops" where
  "demo_hops = demo_http\<lparr>sender_send := (\<lambda>s r w. (Val (Inr
     \<lparr>resp_status = (if w < 2 then 302 else 200), resp_headers = [(lit ''location'', [47])], resp_body = ()\<rparr>), Suc w))\<rparr>"

lemma demo_hops_requested:
  "requested demo_uri demo_hops (SenderH1 ()) (lit ''h'') [] cur w
     \<lparr>resp_status = (if w < 2 then 302 else 200), resp_headers = [(lit ''location'', [47])], resp_body = ()\<rparr> (Suc w)"
  by (simp add: requested_def demo_hops_def demo_http_def send_request_def try_then_def and_then_def try_map_err_def map_err_def)

lemma demo_hops_leads_to:
  "leads_to demo_uri demo_headers (lit ''h'') cur
     \<lparr>resp_status = 302, resp_headers = [(lit ''location'', [47])], resp_body = ()\<rparr> (lit ''h'', 80)"
  by (simp add: leads_to_def is_redirect_def redirect_location_def demo_headers_def resolve_redirect_def map_err_def
      demo_uri_def)

lemma demo_hops_chain:
  "redirect_chain demo_uri demo_headers demo_hops (SenderH1 ()) (lit ''h'') [] (lit ''h'', 80) 0 2
     \<lparr>resp_status = 200, resp_headers = [(lit ''location'', [47])], resp_body = ()\<rparr> 3"
proof -
  have collect: "collect_body demo_hops b n = (Val (Inr []), n)" for b n
    by (simp add: demo_hops_def demo_http_def)
  have last: "redirect_chain demo_uri demo_headers demo_hops (SenderH1 ()) (lit ''h'') [] (lit ''h'', 80) 2 0
     \<lparr>resp_status = 200, resp_headers = [(lit ''location'', [47])], resp_body = ()\<rparr> 3"
    using demo_hops_requested [of _ 2] by (intro chain_end) (simp_all add: is_redirect_def)
  have hop: "requested demo_uri demo_hops (SenderH1 ()) (lit ''h'') [] (lit ''h'', 80) n
     \<lparr>resp_status = 302, resp_headers = [(lit ''location'', [47])], resp_body = ()\<rparr> (Suc n)" if "n < 2" for n
    using demo_hops_requested [of _ n] that by simp
  have "redirect_chain demo_uri demo_headers demo_hops (SenderH1 ()) (lit ''h'') [] (lit ''h'', 80) 1 (Suc 0)
     \<lparr>resp_status = 200, resp_headers = [(lit ''location'', [47])], resp_body = ()\<rparr> 3"
    using chain_hop [OF hop demo_hops_leads_to collect, of 1] last by (simp add: numeral_2_eq_2 del: lit_simps)
  with chain_hop [OF hop demo_hops_leads_to collect, of 0] show ?thesis by (simp add: numeral_2_eq_2 del: lit_simps)
qed





text \<open>
  C40.  A Retry-After header that shows a 64-bit number of seconds in decimal is read back as
  exactly that duration; this is the delay the retry policy takes from it.
\<close>
theorem retry_after_roundtrip:
  assumes "header_get ho headers (lit ''retry-after'') = Some v" "header_to_str ho v = Inr (show_nat (unat n))"
  shows "parse_retry_after ho headers = Some (from_secs n)"
proof -
  have "unat n \<le> 2 ^ 64 - 1" using unat_u64_less [of n] by simp
  then have "parse_unsigned (2 ^ 64 - 1) (show_nat (unat n)) = Some (unat n)" by (rule parse_unsigned_show_nat)
  with assms show ?thesis by (simp add: parse_retry_after_def header_str_ok_def del: lit_simps)
qed

theorem retry_after_roundtrip_witness:
  "parse_retry_after demo_headers [(lit ''retry-after'', [49, 50, 48])] = Some (from_secs 120)"
proof (rule retry_after_roundtrip [where v = "[49, 50, 48]"])
  show "header_get demo_headers [(lit ''retry-after'', [49, 50, 48])] (lit ''retry-after'') = Some [49, 50, 48]"
    by (simp add: demo_headers_def del: lit_simps)
  show "header_to_str demo_headers [49, 50, 48] = Inr (show_nat (unat (120 :: u64)))"
    by (simp add: demo_headers_def show_nat.simps)
qed

end
