(* ===== verification/Download.thy ===== *)
theory Download
  imports Transport
begin

text \<open>
  \<open>download_one\<close> of \<open>orchestrator.rs\<close>: the download of one URL, from its parsing to the files
  it leaves.  The connection is acquired from the pool, used and given back inside the retry
  loop; a redirect to another host has a retry loop of its own.  Files, clocks, permits and
  hashes are operations of the environment.
\<close>

declare split_paired_All [simp del] split_paired_Ex [simp del]

section \<open>The environment\<close>

text \<open>
  The world is the pools and the rest.  \<open>wait_permit None\<close> is the await of the global
  semaphore, \<open>wait_permit (Some host)\<close> that of the lock on the host semaphores and of the host's
  own; \<open>release_permits\<close> is the drop of both permits.
\<close>

record ('h2, 'h1, 'n, 'w, 'req, 'uri, 'pq, 'hm, 'hv, 'body) download_env =
  de_pool :: "('h2, 'h1, 'n, 'w) pool_env"
  de_retry :: "('h2, 'h1, 'n, 'w) pool_world retry_env"
  de_http :: "('h2, 'h1, 'req, 'uri, 'hm, 'body, ('h2, 'h1, 'n, 'w) pool_world) http_ops"
  de_uri :: "('uri, 'pq) uri_ops"
  de_headers :: "('hm, 'hv) header_ops"
  de_fs :: "('h2, 'h1, 'n, 'w) pool_world fs_ops"
  de_sha256 :: "bytes \<Rightarrow> bytes"
  de_metadata_json :: "file_metadata \<Rightarrow> rstr + bytes"
  de_summary_json :: "batch_summary \<Rightarrow> rstr + bytes"
  de_now :: "(('h2, 'h1, 'n, 'w) pool_world, instant) prog"
  de_utc_now :: "(('h2, 'h1, 'n, 'w) pool_world, rstr) prog"
  wait_permit :: "rstr option \<Rightarrow> ('h2, 'h1, 'n, 'w) pool_world \<Rightarrow> ('h2, 'h1, 'n, 'w) pool_world"
  release_permits :: "rstr \<Rightarrow> ('h2, 'h1, 'n, 'w) pool_world \<Rightarrow> ('h2, 'h1, 'n, 'w) pool_world"

section \<open>What is requested\<close>

definition port_or_default :: "('uri, 'pq) uri_ops \<Rightarrow> 'uri \<Rightarrow> u16" where
  "port_or_default us uri = (case uri_port us uri of
      Some p \<Rightarrow> p
    | None \<Rightarrow> if uri_scheme us uri = Some (lit ''http'') then 80 else 443)"

definition request_target :: "('uri, 'pq) uri_ops \<Rightarrow> rstr \<Rightarrow> download_error + ('uri \<times> rstr \<times> u16)" where
  "request_target us url_str =
     (case uri_parse us url_str of
        Inl e \<Rightarrow> Inl (ConnectionFailed (lit ''invalid URL: '' @ e))
      | Inr uri \<Rightarrow>
          (case uri_host us uri of
             None \<Rightarrow> Inl (ConnectionFailed (lit ''URL missing host''))
           | Some host \<Rightarrow> Inr (uri, host, port_or_default us uri)))"

section \<open>One request on a pooled connection\<close>

definition result_usable :: "download_error + 'a \<Rightarrow> bool" where
  "result_usable result = (case result of
      Inr _ \<Rightarrow> True
    | Inl e \<Rightarrow> (case e of HttpStatus _ _ _ \<Rightarrow> True | _ \<Rightarrow> False))"

definition fetch ::
    "bool \<Rightarrow> ('h2, 'h1, 'n, 'w, 'req, 'uri, 'pq, 'hm, 'hv, 'body) download_env \<Rightarrow> config \<Rightarrow> nat \<Rightarrow> request_config \<Rightarrow>
     'uri \<Rightarrow> rstr \<Rightarrow> u16 \<Rightarrow> (('h2, 'h1, 'n, 'w) pool_world, download_error + ('uri, 'hm) transport_result) prog" where
  "fetch oc de cfg fuel rc uri host port =
     try_then (acquire oc (de_pool de) cfg host port) (\<lambda>handle.
     and_then (execute_request oc (de_uri de) (de_headers de) (de_http de)
         (sender_from (handle_sender handle)) uri host rc fuel) (\<lambda>result.
     and_then (finish_connection (de_pool de) (host, port) handle (result_usable result)) (\<lambda>_.
     ret result)))"

definition follow_cross_host_redirect ::
    "bool \<Rightarrow> ('h2, 'h1, 'n, 'w, 'req, 'uri, 'pq, 'hm, 'hv, 'body) download_env \<Rightarrow> config \<Rightarrow> nat \<Rightarrow>
     'uri cross_host_redirect \<Rightarrow> (('h2, 'h1, 'n, 'w) pool_world, download_error + 'hm response_data) prog" where
  "follow_cross_host_redirect oc de cfg fuel redir =
     (case uri_host (de_uri de) (new_uri redir) of
        None \<Rightarrow> ret (Inl (TooManyRedirects (lit ''redirect to URL without host'')))
      | Some new_host \<Rightarrow>
          (let new_port = port_or_default (de_uri de) (new_uri redir);
               rc = \<lparr>rc_user_agent = user_agent cfg, rc_request_timeout = request_timeout cfg,
                     rc_max_redirects = redirects_remaining redir\<rparr>
           in and_then (with_retry oc (de_retry de) (max_retries cfg) (retry_base_delay cfg)
                (fetch oc de cfg fuel rc (new_uri redir) new_host new_port)) (\<lambda>(result, _).
              ret (case result of
                 Inl e \<Rightarrow> Inl e
               | Inr (Response data) \<Rightarrow> Inr data
               | Inr (Redirect _) \<Rightarrow> Inl (TooManyRedirects (lit ''too many cross-host redirects''))))))"

text \<open>What becomes of the result of the first host: a redirect to another host is followed once.\<close>

definition accept_result ::
    "bool \<Rightarrow> ('h2, 'h1, 'n, 'w, 'req, 'uri, 'pq, 'hm, 'hv, 'body) download_env \<Rightarrow> config \<Rightarrow> nat \<Rightarrow>
     download_error + ('uri, 'hm) transport_result \<Rightarrow>
     (('h2, 'h1, 'n, 'w) pool_world, download_error + 'hm response_data) prog" where
  "accept_result oc de cfg fuel transport_result = (case transport_result of
       Inl e \<Rightarrow> ret (Inl e)
     | Inr r \<Rightarrow> (case r of
           Response data \<Rightarrow> ret (Inr data)
         | Redirect redir \<Rightarrow> follow_cross_host_redirect oc de cfg fuel redir))"

text \<open>The response, after retries and at most one redirect to another host, with the retries.\<close>

definition obtain_response ::
    "bool \<Rightarrow> ('h2, 'h1, 'n, 'w, 'req, 'uri, 'pq, 'hm, 'hv, 'body) download_env \<Rightarrow> config \<Rightarrow> nat \<Rightarrow>
     'uri \<Rightarrow> rstr \<Rightarrow> u16 \<Rightarrow> (('h2, 'h1, 'n, 'w) pool_world, (download_error + 'hm response_data) \<times> u32) prog" where
  "obtain_response oc de cfg fuel uri host port =
     (let rc = \<lparr>rc_user_agent = user_agent cfg, rc_request_timeout = request_timeout cfg,
                rc_max_redirects = max_redirects cfg\<rparr>
      in and_then (with_retry oc (de_retry de) (max_retries cfg) (retry_base_delay cfg)
           (fetch oc de cfg fuel rc uri host port)) (\<lambda>(transport_result, retries_attempted).
         and_then (accept_result oc de cfg fuel transport_result) (\<lambda>r. ret (r, retries_attempted))))"

section \<open>Saving the response\<close>

definition elapsed_since ::
    "('h2, 'h1, 'n, 'w, 'req, 'uri, 'pq, 'hm, 'hv, 'body) download_env \<Rightarrow> instant \<Rightarrow>
     (('h2, 'h1, 'n, 'w) pool_world, duration) prog" where
  "elapsed_since de start = and_then (de_now de) (\<lambda>t. ret (instant_since t start))"

definition download_failed ::
    "('h2, 'h1, 'n, 'w, 'req, 'uri, 'pq, 'hm, 'hv, 'body) download_env \<Rightarrow> rstr \<Rightarrow> instant \<Rightarrow> download_error \<Rightarrow> u32 \<Rightarrow>
     (('h2, 'h1, 'n, 'w) pool_world, rstr \<times> download_result) prog" where
  "download_failed de url_str start e retries =
     and_then (elapsed_since de start) (\<lambda>el.
     ret (url_str, \<lparr>url = url_str, outcome = Failure e el retries\<rparr>))"

definition content_hash_of :: "(bytes \<Rightarrow> bytes) \<Rightarrow> config \<Rightarrow> bytes \<Rightarrow> rstr option" where
  "content_hash_of sha cfg bs =
     (if naming_strategy cfg = ContentHash \<or> config.write_metadata cfg \<or> write_summary cfg
      then Some (hex_prefix 16 (sha bs)) else None)"

text \<open>The header map of the sidecar: of several values of a name the last one stays.\<close>

definition headers_map :: "('hm, 'hv) header_ops \<Rightarrow> 'hm \<Rightarrow> (rstr \<rightharpoonup> rstr)" where
  "headers_map ho headers = map_of (rev (map (\<lambda>(k, v). (k, header_str ho v)) (header_iter ho headers)))"

definition content_type_of :: "('hm, 'hv) header_ops \<Rightarrow> 'hm \<Rightarrow> rstr option" where
  "content_type_of ho headers = (case header_get ho headers (lit ''content-type'') of
      None \<Rightarrow> None | Some v \<Rightarrow> header_str_ok ho v)"

definition metadata_of ::
    "('hm, 'hv) header_ops \<Rightarrow> rstr \<Rightarrow> rstr \<Rightarrow> 'hm response_data \<Rightarrow> rstr option \<Rightarrow> duration \<Rightarrow> rstr \<Rightarrow> file_metadata" where
  "metadata_of ho url_str filename data hash el now =
     \<lparr>fm_url = url_str, fm_filename = filename, fm_size_bytes = of_nat (length (rd_bytes data)),
      fm_content_hash = hash, fm_content_type = content_type_of ho (rd_headers data),
      fm_elapsed_ms = elapsed_ms_f64 el, fm_downloaded_at = now,
      fm_headers = headers_map ho (rd_headers data)\<rparr>"

text \<open>A sidecar that cannot be written is only logged.\<close>

definition save_metadata ::
    "('h2, 'h1, 'n, 'w, 'req, 'uri, 'pq, 'hm, 'hv, 'body) download_env \<Rightarrow> path \<Rightarrow> rstr \<Rightarrow> rstr \<Rightarrow> 'hm response_data \<Rightarrow>
     rstr option \<Rightarrow> duration \<Rightarrow> (('h2, 'h1, 'n, 'w) pool_world, unit) prog" where
  "save_metadata de file_path url_str filename data hash el =
     and_then (de_utc_now de) (\<lambda>now.
     and_then (write_metadata_sidecar (de_fs de) (de_metadata_json de) file_path
         (metadata_of (de_headers de) url_str filename data hash el now)) (\<lambda>_. ret ()))"

definition save_response ::
    "bool \<Rightarrow> ('h2, 'h1, 'n, 'w, 'req, 'uri, 'pq, 'hm, 'hv, 'body) download_env \<Rightarrow> config \<Rightarrow> path \<Rightarrow> rstr \<Rightarrow> nat \<Rightarrow>
     instant \<Rightarrow> u32 \<Rightarrow> 'hm response_data \<Rightarrow> (('h2, 'h1, 'n, 'w) pool_world, rstr \<times> download_result) prog" where
  "save_response oc de cfg output_dir url_str first_index start retries data =
     (case validate_response (de_headers de) (rd_bytes data) (rd_headers data) of
        Inl e \<Rightarrow> download_failed de url_str start e retries
      | Inr _ \<Rightarrow>
          (let hash = content_hash_of (de_sha256 de) cfg (rd_bytes data)
           in and_then (lift_outcome (generate_filename oc (de_sha256 de) url_str first_index (rd_bytes data)
                  (naming_strategy cfg))) (\<lambda>filename.
              let file_path = path_join output_dir filename
              in and_then (write_image (de_fs de) (rd_bytes data) file_path) (\<lambda>written. case written of
                   Inl e \<Rightarrow> download_failed de url_str start e retries
                 | Inr _ \<Rightarrow>
                     and_then (elapsed_since de start) (\<lambda>el.
                     and_then (if config.write_metadata cfg
                         then save_metadata de file_path url_str filename data hash el else ret ()) (\<lambda>_.
                     ret (url_str, \<lparr>url = url_str,
                       outcome = Success file_path (of_nat (length (rd_bytes data))) hash el\<rparr>)))))))"

section \<open>download_one\<close>

text \<open>The permits are given back when the task ends, by a panic too.\<close>

definition with_permits ::
    "('h2, 'h1, 'n, 'w, 'req, 'uri, 'pq, 'hm, 'hv, 'body) download_env \<Rightarrow> rstr \<Rightarrow>
     (('h2, 'h1, 'n, 'w) pool_world, 'a) prog \<Rightarrow> (('h2, 'h1, 'n, 'w) pool_world, 'a) prog" where
  "with_permits de host m = (\<lambda>w.
     case m (wait_permit de (Some host) (wait_permit de None w)) of
       (Diverges, w') \<Rightarrow> (Diverges, w')
     | (r, w') \<Rightarrow> (r, release_permits de host w'))"

definition download_one ::
    "bool \<Rightarrow> ('h2, 'h1, 'n, 'w, 'req, 'uri, 'pq, 'hm, 'hv, 'body) download_env \<Rightarrow> config \<Rightarrow> nat \<Rightarrow> path \<Rightarrow> rstr \<Rightarrow> nat \<Rightarrow>
     (('h2, 'h1, 'n, 'w) pool_world, rstr \<times> download_result) prog" where
  "download_one oc de cfg fuel output_dir url_str first_index =
     and_then (de_now de) (\<lambda>start.
     case request_target (de_uri de) url_str of
       Inl e \<Rightarrow> download_failed de url_str start e 0
     | Inr (uri, host, port) \<Rightarrow>
         with_permits de host
           (and_then (obtain_response oc de cfg fuel uri host port) (\<lambda>(response, retries).
            case response of
              Inl e \<Rightarrow> download_failed de url_str start e retries
            | Inr data \<Rightarrow> save_response oc de cfg output_dir url_str first_index start retries data)))"

section \<open>Lemmas: where results come from\<close>

lemma fetch_cases:
  assumes "fetch oc de cfg fuel rc uri host port w = (Val r, w')"
  shows "(\<exists>e. r = Inl e \<and> acquire oc (de_pool de) cfg host port w = (Val (Inl e), w')) \<or>
     (\<exists>h w1 w2. acquire oc (de_pool de) cfg host port w = (Val (Inr h), w1) \<and>
        execute_request oc (de_uri de) (de_headers de) (de_http de) (sender_from (handle_sender h)) uri host rc fuel w1
          = (Val r, w2))"
  using assms by (auto simp: fetch_def try_then_eq_Val and_then_eq_Val)

text \<open>The result of a retry loop is the result of one of its calls.\<close>

lemma retried_call:
  "with_retry oc env maxr base op w = (Val (r, n), w') \<Longrightarrow> n \<le> maxr \<and> (\<exists>w1. op w1 = (Val r, w'))"
  by (auto simp: with_retry_iff word_le_nat_alt)

lemma fetched_response:
  assumes "oc \<or> rc_max_redirects rc \<noteq> 255" "timeout_lawful (de_http de)"
    and "fetch oc de cfg fuel rc uri host port w = (Val (Inr r), w')"
  shows "case r of Response d \<Rightarrow> complete_response (de_http de) d
     | Redirect x \<Rightarrow> redirects_remaining x < rc_max_redirects rc"
proof -
  have "\<exists>s w1 w2. execute_request oc (de_uri de) (de_headers de) (de_http de) s uri host rc fuel w1 = (Val (Inr r), w2)"
    using fetch_cases [OF assms(3)] by simp blast
  then obtain s w1 w2 where
    "execute_request oc (de_uri de) (de_headers de) (de_http de) s uri host rc fuel w1 = (Val (Inr r), w2)" by blast
  from execute_request_result [OF assms(1,2) this] show ?thesis by (cases r) simp_all
qed

lemma followed_response:
  assumes "oc \<or> redirects_remaining redir \<noteq> 255" "timeout_lawful (de_http de)"
    and "follow_cross_host_redirect oc de cfg fuel redir w = (Val (Inr data), w')"
  shows "complete_response (de_http de) data"
proof -
  define rc where "rc = \<lparr>rc_user_agent = user_agent cfg, rc_request_timeout = request_timeout cfg,
                     rc_max_redirects = redirects_remaining redir\<rparr>"
  then have rc: "rc_max_redirects rc = redirects_remaining redir" by simp
  have "\<exists>host port n w2. with_retry oc (de_retry de) (max_retries cfg) (retry_base_delay cfg)
        (fetch oc de cfg fuel rc (new_uri redir) host port) w = (Val (Inr (Response data), n), w2)"
    using assms(3) unfolding follow_cross_host_redirect_def rc_def
    by (auto simp: and_then_eq_Val Let_def split: option.splits sum.splits transport_result.splits) blast
  then obtain host port n w2 where "with_retry oc (de_retry de) (max_retries cfg) (retry_base_delay cfg)
        (fetch oc de cfg fuel rc (new_uri redir) host port) w = (Val (Inr (Response data), n), w2)" by blast
  from retried_call [OF this] obtain w3 where
    "fetch oc de cfg fuel rc (new_uri redir) host port w3 = (Val (Inr (Response data)), w2)" by blast
  from fetched_response [OF _ assms(2) this] rc assms(1) show ?thesis by simp
qed

lemma obtained_response:
  assumes "oc \<or> max_redirects cfg \<noteq> 255" "timeout_lawful (de_http de)"
    and "obtain_response oc de cfg fuel uri host port w = (Val (r, n), w')"
  shows "n \<le> max_retries cfg \<and> (\<forall>data. r = Inr data \<longrightarrow> complete_response (de_http de) data)"
proof -
  define rc where "rc = \<lparr>rc_user_agent = user_agent cfg, rc_request_timeout = request_timeout cfg,
                rc_max_redirects = max_redirects cfg\<rparr>"
  from assms(3) obtain t w1 where loop: "with_retry oc (de_retry de) (max_retries cfg) (retry_base_delay cfg)
        (fetch oc de cfg fuel rc uri host port) w = (Val (t, n), w1)"
    and rest: "accept_result oc de cfg fuel t w1 = (Val r, w')"
    by (auto simp: obtain_response_def and_then_eq_Val Let_def rc_def)
  from retried_call [OF loop] obtain w0 where n: "n \<le> max_retries cfg"
    and call: "fetch oc de cfg fuel rc uri host port w0 = (Val t, w1)" by blast
  have "complete_response (de_http de) data" if r: "r = Inr data" for data
  proof (cases t)
    case (Inl e)
    with rest r show ?thesis by (simp add: accept_result_def)
  next
    case (Inr q)
    have first: "case q of Response d \<Rightarrow> complete_response (de_http de) d
       | Redirect x \<Rightarrow> redirects_remaining x < rc_max_redirects rc"
      using assms(1) by (intro fetched_response [OF _ assms(2) call [unfolded Inr]]) (simp add: rc_def)
    show ?thesis
    proof (cases q)
      case (Response d)
      with rest r Inr first show ?thesis by (simp add: accept_result_def)
    next
      case (Redirect x)
      with first have "redirects_remaining x \<noteq> 255"
        using unat_u8_less [of "rc_max_redirects rc"] by (auto simp: word_less_nat_alt)
      with rest r Inr Redirect show ?thesis
        using followed_response [where redir = x and w = w1, OF _ assms(2)] by (auto simp: accept_result_def)
    qed
  qed
  with n show ?thesis by blast
qed

lemma download_failed_eq:
  "download_failed de u start e n w = (Val res, w') \<Longrightarrow>
     \<exists>el. res = (u, \<lparr>url = u, outcome = Failure e el n\<rparr>)"
  by (auto simp: download_failed_def and_then_eq_Val)

text \<open>What a saved response leaves.\<close>

definition saved ::
    "bool \<Rightarrow> ('h2, 'h1, 'n, 'w, 'req, 'uri, 'pq, 'hm, 'hv, 'body) download_env \<Rightarrow> config \<Rightarrow> path \<Rightarrow> rstr \<Rightarrow> nat \<Rightarrow>
     'hm response_data \<Rightarrow> path \<Rightarrow> u64 \<Rightarrow> rstr option \<Rightarrow> bool" where
  "saved oc de cfg output_dir url_str i data p sz hash \<longleftrightarrow>
     validate_response (de_headers de) (rd_bytes data) (rd_headers data) = Inr () \<and>
     (\<exists>name. generate_filename oc (de_sha256 de) url_str i (rd_bytes data) (naming_strategy cfg) = Val name \<and>
        p = path_join output_dir name) \<and>
     sz = of_nat (length (rd_bytes data)) \<and> hash = content_hash_of (de_sha256 de) cfg (rd_bytes data) \<and>
     (\<exists>w1 w2. fs_write (de_fs de) p (rd_bytes data) w1 = (Val (Inr ()), w2))"

lemma save_response_result:
  assumes "save_response oc de cfg output_dir u i start n data w = (Val res, w')"
  shows "(\<exists>e el. res = (u, \<lparr>url = u, outcome = Failure e el n\<rparr>)) \<or>
     (\<exists>p sz hash el. res = (u, \<lparr>url = u, outcome = Success p sz hash el\<rparr>) \<and>
        saved oc de cfg output_dir u i data p sz hash)"
proof (cases "validate_response (de_headers de) (rd_bytes data) (rd_headers data)")
  case (Inl e)
  with assms download_failed_eq show ?thesis by (fastforce simp: save_response_def)
next
  case valid: (Inr x)
  with assms obtain name written w1 where
    name: "generate_filename oc (de_sha256 de) u i (rd_bytes data) (naming_strategy cfg) = Val name"
    and written: "write_image (de_fs de) (rd_bytes data) (path_join output_dir name) w = (Val written, w1)"
    and rest: "(case written of
        Inl e \<Rightarrow> download_failed de u start e n
      | Inr _ \<Rightarrow> and_then (elapsed_since de start) (\<lambda>el.
          and_then (if config.write_metadata cfg
              then save_metadata de (path_join output_dir name) u name data
                (content_hash_of (de_sha256 de) cfg (rd_bytes data)) el else ret ()) (\<lambda>_.
          ret (u, \<lparr>url = u, outcome = Success (path_join output_dir name) (of_nat (length (rd_bytes data)))
            (content_hash_of (de_sha256 de) cfg (rd_bytes data)) el\<rparr>)))) w1 = (Val res, w')"
    by (auto simp: save_response_def and_then_eq_Val Let_def)
  show ?thesis
  proof (cases written)
    case (Inl e)
    with rest download_failed_eq show ?thesis by fastforce
  next
    case (Inr y)
    with written obtain x where "fs_write (de_fs de) (path_join output_dir name) (rd_bytes data) w = (Val x, w1)"
      and "(case x of Inl e \<Rightarrow> Inl (WriteError e) | Inr u \<Rightarrow> Inr u) = Inr ()"
      unfolding write_image_def and_then_eq_Val by auto
    then have "fs_write (de_fs de) (path_join output_dir name) (rd_bytes data) w = (Val (Inr ()), w1)"
      by (cases x) simp_all
    then have "\<exists>w1 w2. fs_write (de_fs de) (path_join output_dir name) (rd_bytes data) w1 = (Val (Inr ()), w2)"
      by blast
    moreover have "\<exists>el. res = (u, \<lparr>url = u, outcome = Success (path_join output_dir name)
        (of_nat (length (rd_bytes data))) (content_hash_of (de_sha256 de) cfg (rd_bytes data)) el\<rparr>)"
      using rest Inr by (auto simp: and_then_eq_Val)
    ultimately show ?thesis using valid name by (auto simp: saved_def)
  qed
qed

lemma with_permits_eq_Val:
  "with_permits de host m w = (Val r, w') \<Longrightarrow>
     \<exists>w1 w2. m w1 = (Val r, w2)"
  by (auto simp: with_permits_def split: prod.splits outcome.splits)

lemma download_one_result:
  assumes "oc \<or> max_redirects cfg \<noteq> 255" "timeout_lawful (de_http de)"
    and "download_one oc de cfg fuel output_dir u i w = (Val res, w')"
  shows "fst res = u \<and> url (snd res) = u \<and> (case outcome (snd res) of
      Failure e el n \<Rightarrow> n \<le> max_retries cfg
    | Success p sz hash el \<Rightarrow> \<exists>data. complete_response (de_http de) data \<and>
        saved oc de cfg output_dir u i data p sz hash)"
proof -
  obtain start w1 where start: "(case request_target (de_uri de) u of
       Inl e \<Rightarrow> download_failed de u start e 0
     | Inr (uri, host, port) \<Rightarrow> with_permits de host
           (and_then (obtain_response oc de cfg fuel uri host port) (\<lambda>(response, retries).
            case response of
              Inl e \<Rightarrow> download_failed de u start e retries
            | Inr data \<Rightarrow> save_response oc de cfg output_dir u i start retries data))) w1 = (Val res, w')"
    using assms(3) by (auto simp: download_one_def and_then_eq_Val)
  show ?thesis
  proof (cases "request_target (de_uri de) u")
    case (Inl e)
    then obtain el where "res = (u, \<lparr>url = u, outcome = Failure e el 0\<rparr>)"
      using start download_failed_eq by fastforce
    then show ?thesis by simp
  next
    case (Inr tgt)
    obtain uri host port where tgt: "tgt = (uri, host, port)" by (cases tgt)
    from start Inr tgt obtain r n w2 w3 w4 where
      r: "obtain_response oc de cfg fuel uri host port w2 = (Val (r, n), w3)"
      and rest: "(case r of
              Inl e \<Rightarrow> download_failed de u start e n
            | Inr data \<Rightarrow> save_response oc de cfg output_dir u i start n data) w3 = (Val res, w4)"
      by (auto dest!: with_permits_eq_Val simp: and_then_eq_Val)
    note got = obtained_response [OF assms(1,2) r]
    show ?thesis
    proof (cases r)
      case (Inl e)
      with rest obtain el where "res = (u, \<lparr>url = u, outcome = Failure e el n\<rparr>)"
        using download_failed_eq by fastforce
      with got show ?thesis by simp
    next
      case (Inr data)
      then have "save_response oc de cfg output_dir u i start n data w3 = (Val res, w4)" using rest by simp
      from save_response_result [OF this] got Inr show ?thesis by auto
    qed
  qed
qed

section \<open>Lemmas: what a download keeps\<close>

text \<open>
  The operations of the environment keep an invariant of the world; a program that a timeout
  drops at one of its awaits does so too.
\<close>

definition http_keeps :: "('w \<Rightarrow> bool) \<Rightarrow> ('h2, 'h1, 'req, 'uri, 'hm, 'body, 'w) http_ops \<Rightarrow> bool" where
  "http_keeps I ht \<longleftrightarrow> (\<forall>s. keeps I (sender_ready ht s)) \<and> (\<forall>s r. keeps I (sender_send ht s r)) \<and>
     (\<forall>b. keeps I (collect_body ht b)) \<and> (\<forall>d m. keeps I m \<longrightarrow> keeps I (timeout_within ht d m)) \<and>
     (\<forall>w. I w \<longrightarrow> I (snd (http_now ht w)))"

lemma keeps_try_map_err [wf_intros]: "keeps I m \<Longrightarrow> keeps I (try_map_err m f)"
  unfolding try_map_err_def by (intro keeps_and_then keeps_ret)

lemma redirect_step_keeps:
  "http_keeps I ht \<Longrightarrow> keeps I (redirect_step oc us ho ht host limit cur n resp)"
  unfolding redirect_step_def http_keeps_def
  by (intro keeps_and_then keeps_lift_outcome) (auto simp: Let_def simp del: ret_apply intro!: keeps_try_then keeps_and_then)

lemma redirect_loop_keeps:
  assumes "http_keeps I ht"
  shows "keeps I (redirect_loop oc us ho ht s host rc fuel cur n)"
proof (induction fuel arbitrary: cur n)
  case 0
  show ?case by (simp only: redirect_loop.simps keeps_lift_outcome)
next
  case (Suc fuel)
  have ops: "keeps I (sender_ready ht s)" "keeps I (sender_send ht s r)" "keeps I (collect_body ht b)" for s r b
    using assms by (simp_all add: http_keeps_def)
  have responses: "keeps I (error_response ho ht resp)" "keeps I (success_response ht resp)" for resp
    unfolding error_response_def success_response_def by (intro keeps_try_then keeps_try_map_err ops keeps_ret)+
  have again: "keeps I (case x of Inl r \<Rightarrow> ret (Inr r) | Inr (resolved, n) \<Rightarrow> redirect_loop oc us ho ht s host rc fuel resolved n)" for x
    using Suc.IH by (auto simp del: ret_apply split: sum.split prod.split)
  show ?case
    unfolding redirect_loop_Suc loop_round_def send_request_def
    by (intro keeps_try_then keeps_ret keeps_try_map_err ops)
      (auto simp del: ret_apply intro!: keeps_try_then redirect_step_keeps assms responses again)
qed

lemma execute_request_keeps:
  assumes "http_keeps I ht"
  shows "keeps I (execute_request oc us ho ht s uri host rc fuel)"
proof -
  have now: "keeps I (\<lambda>w. case http_now ht w of (t, w') \<Rightarrow> (Val t, w'))"
    using assms by (auto simp: http_keeps_def keeps_def split: prod.splits)
  have "keeps I (timeout_within ht d (execute_with_redirects oc us ho ht s uri host rc fuel))" for d
    using assms redirect_loop_keeps [OF assms, where us = us and ho = ho] by (simp add: http_keeps_def execute_with_redirects_def)
  then show ?thesis
    unfolding execute_request_def
    by (intro keeps_and_then now)
      (auto simp del: ret_apply split: option.split sum.split transport_result.split intro!: keeps_and_then now)
qed

text \<open>What the environment of a download keeps, and that its other tasks keep it too.\<close>

definition download_env_ok ::
    "config \<Rightarrow> ('h2, 'h1, 'n, 'w, 'req, 'uri, 'pq, 'hm, 'hv, 'body) download_env \<Rightarrow> bool" where
  "download_env_ok cfg de \<longleftrightarrow> env_ok cfg (de_pool de) \<and> http_keeps (world_ok cfg) (de_http de) \<and>
     (\<forall>d w. world_ok cfg w \<longrightarrow> world_ok cfg (sleep (de_retry de) d w)) \<and>
     (\<forall>p bs. keeps (world_ok cfg) (fs_write (de_fs de) p bs)) \<and>
     keeps (world_ok cfg) (de_now de) \<and> keeps (world_ok cfg) (de_utc_now de) \<and>
     (\<forall>h w. world_ok cfg w \<longrightarrow> world_ok cfg (wait_permit de h w)) \<and>
     (\<forall>h w. world_ok cfg w \<longrightarrow> world_ok cfg (release_permits de h w))"

lemma fetch_keeps:
  assumes "download_env_ok cfg de"
  shows "keeps (world_ok cfg) (fetch True de cfg fuel rc uri host port)"
proof (rule keepsI, goal_cases)
  case (1 w)
  have "keeps (world_ok cfg) (execute_request True (de_uri de) (de_headers de) (de_http de) s uri host rc fuel)" for s
    using assms by (intro execute_request_keeps) (simp add: download_env_ok_def)
  with assms 1 pooled.borrowed_inv [where cfg = cfg and env = "de_pool de" and key = "(host, port)" and usable = result_usable
      and use = "\<lambda>h. execute_request True (de_uri de) (de_headers de) (de_http de) (sender_from (handle_sender h)) uri host rc fuel"]
  show ?case by (simp add: fetch_def download_env_ok_def keepsD)
qed

text \<open>The request on a pooled connection is an operation the retry loop may repeat.\<close>

interpretation fetched: retried_operation
  "\<lambda>w. download_env_ok cfg de \<and> world_ok cfg w" "fetch True de cfg fuel rc uri host port" "de_retry de"
  for cfg and de :: "('h2, 'h1, 'n, 'w, 'req, 'uri, 'pq, 'hm, 'hv, 'body) download_env" and fuel rc uri host port
proof unfold_locales
  fix w :: "('h2, 'h1, 'n, 'w) pool_world" assume "download_env_ok cfg de \<and> world_ok cfg w"
  then show "download_env_ok cfg de \<and> world_ok cfg (snd (fetch True de cfg fuel rc uri host port w))"
    using keepsD [OF fetch_keeps, of cfg de w fuel rc uri host port] by simp
next
  fix w :: "('h2, 'h1, 'n, 'w) pool_world" and d assume "download_env_ok cfg de \<and> world_ok cfg w"
  then show "download_env_ok cfg de \<and> world_ok cfg (sleep (de_retry de) d w)"
    by (simp add: download_env_ok_def)
qed

lemma retried_fetch_keeps:
  "download_env_ok cfg de \<Longrightarrow>
     keeps (world_ok cfg) (with_retry True (de_retry de) maxr base (fetch True de cfg fuel rc uri host port))"
  using fetched.retry_inv [where cfg = cfg and de = de and oc = True and maxr = maxr and base = base and fuel = fuel
      and rc = rc and uri = uri and host = host and port = port]
  by (intro keepsI) simp

lemma obtain_response_keeps:
  assumes "download_env_ok cfg de"
  shows "keeps (world_ok cfg) (obtain_response True de cfg fuel uri host port)"
proof -
  have follow: "keeps (world_ok cfg) (follow_cross_host_redirect True de cfg fuel redir)" for redir
    unfolding follow_cross_host_redirect_def
    by (auto simp: Let_def simp del: ret_apply split: option.split prod.split
        intro!: keeps_and_then retried_fetch_keeps assms)
  show ?thesis
    unfolding obtain_response_def accept_result_def
    by (auto simp: Let_def simp del: ret_apply split: prod.split sum.split transport_result.split
        intro!: keeps_and_then retried_fetch_keeps follow assms)
qed

lemma save_response_keeps:
  assumes "download_env_ok cfg de"
  shows "keeps (world_ok cfg) (save_response oc de cfg output_dir u i start n data)"
    and "keeps (world_ok cfg) (download_failed de u start e n)"
proof -
  have ops: "keeps (world_ok cfg) (write_image (de_fs de) bs p)" "keeps (world_ok cfg) (elapsed_since de start)"
    "keeps (world_ok cfg) (de_utc_now de)" for bs p start
    using assms by (auto simp: download_env_ok_def write_image_def elapsed_since_def simp del: ret_apply intro!: keeps_and_then)
  show failed: "keeps (world_ok cfg) (download_failed de u start e n)" for e
    unfolding download_failed_def by (intro keeps_and_then ops keeps_ret)
  have sidecar: "keeps (world_ok cfg) (save_metadata de p u name data hash el)" for p name hash el
    unfolding save_metadata_def write_metadata_sidecar_def
    by (auto simp del: ret_apply split: sum.split intro!: keeps_and_then ops)
  show "keeps (world_ok cfg) (save_response oc de cfg output_dir u i start n data)"
    unfolding save_response_def
    by (auto simp: Let_def simp del: ret_apply split: sum.split intro!: keeps_and_then ops failed sidecar)
qed

lemma download_one_keeps:
  assumes "download_env_ok cfg de"
  shows "keeps (world_ok cfg) (download_one True de cfg fuel output_dir u i)"
proof -
  have permits: "keeps (world_ok cfg) m \<Longrightarrow> keeps (world_ok cfg) (with_permits de host m)" for m :: "('a, 'b, 'c, 'd) pool_world \<Rightarrow> (rstr \<times> download_result) outcome \<times> _" and host
    using assms unfolding download_env_ok_def keeps_def with_permits_def
    by (auto split: prod.splits outcome.splits) (metis snd_conv)+
  have now: "keeps (world_ok cfg) (de_now de)" using assms by (simp add: download_env_ok_def)
  show ?thesis
    unfolding download_one_def
    by (auto simp del: ret_apply split: sum.split prod.split
        intro!: keeps_and_then now permits save_response_keeps obtain_response_keeps assms)
qed

section \<open>Lemmas: a download ends\<close>

lemma ends_and_then_val:
  assumes "ends m" and "\<And>x w w'. m w = (Val x, w') \<Longrightarrow> fst (f x w') \<noteq> Diverges"
  shows "ends (and_then m f)"
  using assms unfolding ends_def and_then_def by (auto split: prod.splits outcome.splits) (metis fst_conv)

lemma finish_connection_ends: "ends (finish_connection env key h usable)"
proof -
  have notify: "ends (notify_waiter env)" by (simp add: notify_waiter_def)
  then have "ends (on_entry key (notify_waiter env) (ret ()))" by (intro ends_on_entry) simp_all
  moreover have "ends (on_entry key (and_then (modify g) (\<lambda>_. notify_waiter env)) (ret ()))" for g
    using notify by (intro ends_on_entry ends_and_then) simp_all
  ultimately show ?thesis
    unfolding finish_connection_def give_back_def return_h1_connection_def remove_dead_connection_def notify_h2_complete_def
    by (auto simp del: and_then_effect split: pool_handle_sender.split intro!: ends_and_then)
qed

text \<open>None of the operations of the environment is a loop of this development.\<close>

definition download_env_ends ::
    "('h2, 'h1, 'n, 'w, 'req, 'uri, 'pq, 'hm, 'hv, 'body) download_env \<Rightarrow> bool" where
  "download_env_ends de \<longleftrightarrow> (\<forall>host port. ends (open_connection (de_pool de) host port)) \<and>
     http_ends (de_http de) \<and> (\<forall>d m. ends m \<longrightarrow> ends (timeout_within (de_http de) d m)) \<and>
     (\<forall>p bs. ends (fs_write (de_fs de) p bs)) \<and> ends (de_now de) \<and> ends (de_utc_now de)"

lemma execute_request_ends:
  assumes "counter_safe oc (rc_max_redirects rc)" "http_ends ht" "256 \<le> fuel"
    and timeout: "\<And>d m. ends m \<Longrightarrow> ends (timeout_within ht d m)"
  shows "ends (execute_request oc us ho ht s uri host rc fuel)"
proof -
  have "Suc (unat (rc_max_redirects rc)) \<le> fuel" using assms(3) unat_u8_less [of "rc_max_redirects rc"] by simp
  then have "redirect_loop oc us ho ht s host rc fuel uri 0 w =
      redirect_loop oc us ho ht s host rc (Suc (unat (rc_max_redirects rc))) uri 0 w" for w
    by (rule redirect_loop_more [OF assms(1,2)])
  moreover have "ends (redirect_loop oc us ho ht s host rc (Suc (unat (rc_max_redirects rc))) uri 0)"
    using redirect_loop_enough [OF assms(1,2), where n = 0 and k = "Suc (unat (rc_max_redirects rc))" and us = us and
      ho = ho and s = s and host = host and cur = uri] by simp
  ultimately have "ends (execute_with_redirects oc us ho ht s uri host rc fuel)"
    by (simp add: ends_def execute_with_redirects_def)
  moreover have "ends (\<lambda>w. case http_now ht w of (t, w') \<Rightarrow> (Val t, w'))"
    by (auto simp: ends_def split: prod.splits)
  ultimately show ?thesis
    unfolding execute_request_def
    by (intro ends_and_then timeout)
      (auto simp del: ret_apply split: option.split sum.split transport_result.split intro!: ends_and_then)
qed

lemma fetch_ends:
  assumes "download_env_ends de" "counter_safe oc (rc_max_redirects rc)" "256 \<le> fuel"
  shows "ends (fetch oc de cfg fuel rc uri host port)"
  using assms unfolding fetch_def download_env_ends_def
  by (intro ends_try_then ends_and_then acquire_ends execute_request_ends finish_connection_ends) simp_all

lemma follow_ends:
  assumes "download_env_ends de" "counter_safe oc (redirects_remaining redir)" "256 \<le> fuel"
  shows "ends (follow_cross_host_redirect oc de cfg fuel redir)"
proof -
  have "ends (fetch oc de cfg fuel \<lparr>rc_user_agent = a, rc_request_timeout = d, rc_max_redirects = redirects_remaining redir\<rparr>
      uri host port)" for a d uri host port
    using assms by (intro fetch_ends) simp_all
  then show ?thesis
    unfolding follow_cross_host_redirect_def
    by (auto simp: Let_def simp del: ret_apply split: option.split prod.split intro!: ends_and_then with_retry_ends)
qed

lemma obtain_response_ends:
  assumes "download_env_ends de" "counter_safe oc (max_redirects cfg)" "256 \<le> fuel" "timeout_lawful (de_http de)"
  shows "ends (obtain_response oc de cfg fuel uri host port)"
proof -
  define rc where "rc = \<lparr>rc_user_agent = user_agent cfg, rc_request_timeout = request_timeout cfg,
                rc_max_redirects = max_redirects cfg\<rparr>"
  then have safe: "oc \<or> rc_max_redirects rc \<noteq> 255" using assms(2) by (simp add: counter_safe_def)
  have loop: "ends (with_retry oc (de_retry de) (max_retries cfg) (retry_base_delay cfg) (fetch oc de cfg fuel rc uri host port))"
    using assms by (intro with_retry_ends fetch_ends) (simp_all add: rc_def)
  have rest: "ends (accept_result oc de cfg fuel t)"
    if run: "with_retry oc (de_retry de) (max_retries cfg) (retry_base_delay cfg)
        (fetch oc de cfg fuel rc uri host port) w = (Val (t, n), w')" for t n w w'
  proof -
    have "ends (follow_cross_host_redirect oc de cfg fuel redir)" if t: "t = Inr (Redirect redir)" for redir
    proof -
      from retried_call [OF run] t obtain w1 where
        "fetch oc de cfg fuel rc uri host port w1 = (Val (Inr (Redirect redir)), w')" by blast
      from fetched_response [OF safe assms(4) this] have "redirects_remaining redir < rc_max_redirects rc" by simp
      then have "redirects_remaining redir \<noteq> 255"
        using unat_u8_less [of "rc_max_redirects rc"] by (auto simp: word_less_nat_alt)
      then show ?thesis using assms(1,3) by (intro follow_ends) (simp_all add: counter_safe_def)
    qed
    then show ?thesis
      by (auto simp: accept_result_def simp del: ret_apply split: sum.split transport_result.split)
  qed
  have rest': "fst ((case x of (t, n) \<Rightarrow> and_then (accept_result oc de cfg fuel t) (\<lambda>r. ret (r, n))) w') \<noteq> Diverges"
    if "with_retry oc (de_retry de) (max_retries cfg) (retry_base_delay cfg)
        (fetch oc de cfg fuel rc uri host port) w = (Val x, w')" for x w w'
  proof -
    obtain t n where x: "x = (t, n)" by (cases x)
    have "ends (and_then (accept_result oc de cfg fuel t) (\<lambda>r. ret (r, n)))"
      using rest that unfolding x by (intro ends_and_then ends_simps) blast
    then show ?thesis by (simp add: x ends_def)
  qed
  show ?thesis
    unfolding obtain_response_def Let_def rc_def [symmetric]
    by (intro ends_and_then_val loop rest')
qed

lemma slice_ends: "slice_to n s \<noteq> Diverges" "slice_from n s \<noteq> Diverges" "usize_sub oc a b \<noteq> Diverges"
proof -
  show "slice_to n s \<noteq> Diverges"
    by (induction n s rule: slice_to.induct) (subst slice_to.simps, auto split: list.splits simp: bind_outcome_ends)
  show "slice_from n s \<noteq> Diverges"
    by (induction n s rule: slice_from.induct) (subst slice_from.simps, auto split: list.splits)
  show "usize_sub oc a b \<noteq> Diverges" by (simp add: usize_sub_def)
qed

lemma generate_filename_ends: "generate_filename oc sha u i bs st \<noteq> Diverges"
proof -
  have "truncate_chars s \<noteq> Diverges" for s by (simp add: truncate_chars_def Let_def slice_ends)
  then have truncate: "truncate_filename oc s \<noteq> Diverges" for s
    by (simp add: truncate_filename_def Let_def bind_outcome_ends slice_ends split: option.split)
  have "extension_from_url u \<noteq> Diverges"
    by (simp add: extension_from_url_def Let_def bind_outcome_ends slice_ends split: option.split)
  then have ext: "url_or_magic_ext u bs \<noteq> Diverges"
    by (simp add: url_or_magic_ext_def bind_outcome_ends)
  show ?thesis
    by (cases st) (simp_all add: generate_filename_def bind_outcome_ends truncate ext url_based_name_def
        sequential_name_def content_hash_name_def file_header_name_def Let_def slice_ends split: option.split)
qed

lemma download_one_ends:
  assumes "download_env_ends de" "counter_safe oc (max_redirects cfg)" "256 \<le> fuel" "timeout_lawful (de_http de)"
  shows "ends (download_one oc de cfg fuel output_dir u i)"
proof -
  have ops: "ends (de_now de)" "ends (de_utc_now de)" "ends (write_image (de_fs de) bs p)" "ends (elapsed_since de start)" for bs p start
    using assms(1) by (auto simp: download_env_ends_def write_image_def elapsed_since_def simp del: ret_apply intro!: ends_and_then)
  have failed: "ends (download_failed de u start e n)" for start e n
    unfolding download_failed_def by (intro ends_and_then ops ends_simps)
  have sidecar: "ends (save_metadata de p u name data hash el)" for p name data hash el
    unfolding save_metadata_def write_metadata_sidecar_def
    by (auto simp del: ret_apply split: sum.split intro!: ends_and_then ops)
  have name: "ends (lift_outcome (generate_filename oc sha u i bs st))" for sha bs st
    by (simp add: ends_def generate_filename_ends)
  have save: "ends (save_response oc de cfg output_dir u i start n data)" for start n data
    unfolding save_response_def
    by (auto simp: Let_def simp del: ret_apply lift_outcome_apply split: sum.split intro!: ends_and_then ops failed sidecar name)
  have permits: "ends m \<Longrightarrow> ends (with_permits de host m)" for m :: "('a, 'b, 'c, 'd) pool_world \<Rightarrow> (rstr \<times> download_result) outcome \<times> _" and host
    unfolding ends_def with_permits_def by (auto split: prod.splits outcome.splits) (metis fst_conv)
  show ?thesis
    unfolding download_one_def
    by (auto simp del: ret_apply split: sum.split prod.split
        intro!: ends_and_then ops permits save failed obtain_response_ends assms)
qed

section \<open>Properties\<close>

text \<open>
  C2.  A download returns the result of its own URL.  A success has the complete body of a
  success response that passed the validation: its size, its hash when one was asked for,
  and the path, in the output directory under the generated name, to which exactly that
  body was written.  A failure reports at most \<open>max_retries\<close> retries.
\<close>
theorem download_returns_saved_body:
  assumes "oc \<or> max_redirects cfg \<noteq> 255" "timeout_lawful (de_http de)"
    and "download_one oc de cfg fuel output_dir u i w = (Val (v, r), w')"
  shows "v = u \<and> url r = u \<and> (case outcome r of
      Failure e el n \<Rightarrow> n \<le> max_retries cfg
    | Success p sz hash el \<Rightarrow> \<exists>data. complete_response (de_http de) data \<and>
        saved oc de cfg output_dir u i data p sz hash)"
  using download_one_result [OF assms] by simp


text \<open>
  A download ends, with a result or a panic: its retry loops, the redirect loop and the
  wait for a connection are bounded.  256 rounds of the redirect loop are enough for every
  limit, except for 255 without overflow checks.
\<close>
theorem download_terminates:
  assumes "oc \<or> max_redirects cfg \<noteq> 255" "download_env_ends de" "timeout_lawful (de_http de)" "256 \<le> fuel"
  shows "fst (download_one oc de cfg fuel output_dir u i w) \<noteq> Diverges"
  using download_one_ends [OF assms(2) _ assms(4,3)] assms(1) by (simp add: ends_def counter_safe_def)

text \<open>
  A server on one host that answers every request with a JPEG; the world counts the requests
  and writes.
\<close>

definition demo_pool :: "(unit, unit, unit, nat) pool_env" where
  "demo_pool = \<lparr>poll_ready = (\<lambda>s w. (PollReadyOk, w)), new_notify = (\<lambda>w. ((), w)), notify_one = (\<lambda>n w. w),
     lock_point = (\<lambda>pw. pw), wait_notified = (\<lambda>d n pw. pw), open_connection = (\<lambda>h p. ret (Inr (OpenedH1 ())))\<rparr>"

definition demo_download ::
    "(unit, unit, unit, nat, unit, rstr \<times> u16, rstr, (rstr \<times> bytes) list, bytes, unit) download_env" where
  "demo_download = \<lparr>de_pool = demo_pool,
     de_retry = \<lparr>subsec_nanos = (\<lambda>w. 0), sleep = (\<lambda>d w. w)\<rparr>,
     de_http = \<lparr>build_request = (\<lambda>p h a. Inr ()), sender_ready = (\<lambda>s. ret (Inr ())),
       sender_send = (\<lambda>s r (pools, n). (Val (Inr \<lparr>resp_status = 200, resp_headers = [], resp_body = ()\<rparr>), (pools, Suc n))),
       collect_body = (\<lambda>b. ret (Inr [255, 216, 255])), status_is_success = (\<lambda>s. s = 200),
       timeout_within = (\<lambda>d m. and_then m (\<lambda>r. ret (Some r))), http_now = (\<lambda>w. (0, w))\<rparr>,
     de_uri = demo_uri, de_headers = demo_headers,
     de_fs = \<lparr>fs_write = (\<lambda>p bs (pools, n). (Val (Inr ()), (pools, Suc n))), fs_create_dir_all = (\<lambda>p. ret (Inr ()))\<rparr>,
     de_sha256 = (\<lambda>bs. replicate 32 171), de_metadata_json = (\<lambda>m. Inr []), de_summary_json = (\<lambda>s. Inr []),
     de_now = ret 0, de_utc_now = ret [], wait_permit = (\<lambda>h pw. pw), release_permits = (\<lambda>h pw. pw)\<rparr>"

lemma demo_download_simps [simp]:
  "de_pool demo_download = demo_pool" "de_uri demo_download = demo_uri" "de_headers demo_download = demo_headers"
  "de_now demo_download = ret 0" "de_utc_now demo_download = ret []"
  "wait_permit demo_download h w = w" "release_permits demo_download host w = w"
  "sleep (de_retry demo_download) d w = w"
  by (simp_all add: demo_download_def)

lemma demo_download_lawful: "timeout_lawful (de_http demo_download)"
  by (auto simp: timeout_lawful_def demo_download_def and_then_eq_Val)

lemma demo_download_env_ok: "download_env_ok config_default demo_download"
proof -
  have "env_ok config_default demo_pool" by (simp add: env_ok_def demo_pool_def del: ret_apply)
  moreover have "http_keeps (world_ok config_default) (de_http demo_download)"
    by (auto simp: http_keeps_def demo_download_def simp del: ret_apply intro!: keeps_and_then)
      (auto simp: keeps_def world_ok_def)
  moreover have "keeps (world_ok config_default) (fs_write (de_fs demo_download) p bs)" for p bs
    by (auto simp: demo_download_def keeps_def world_ok_def)
  ultimately show ?thesis by (simp add: download_env_ok_def del: ret_apply)
qed

lemma demo_download_ends: "download_env_ends demo_download"
proof -
  have "http_ends (de_http demo_download)"
    by (auto simp: http_ends_def demo_download_def simp del: ret_apply) (auto simp: ends_def)
  moreover have "ends (fs_write (de_fs demo_download) p bs)" for p bs
    by (auto simp: demo_download_def ends_def)
  moreover have "ends m \<longrightarrow> ends (timeout_within (de_http demo_download) d m)" for d m
    by (auto simp: demo_download_def simp del: ret_apply intro!: ends_and_then)
  ultimately show ?thesis
    by (simp add: download_env_ends_def demo_pool_def del: ret_apply)
qed


theorem download_terminates_witness:
  "fst (download_one True demo_download config_default 256 (lit ''out'') (lit ''http://h/a.jpg'') 0 (Map.empty, 0)) \<noteq> Diverges"
  by (rule download_terminates) (simp_all add: demo_download_ends demo_download_lawful)

text \<open>A download of the demo server over a new connection; the pools of other hosts stay.\<close>

definition same_others :: "host_key \<Rightarrow> (host_key \<rightharpoonup> 'a) \<Rightarrow> (host_key \<rightharpoonup> 'a) \<Rightarrow> bool" where
  "same_others key pools pools' \<longleftrightarrow> (\<forall>k. k \<noteq> key \<longrightarrow> pools' k = pools k)"

lemma same_others_trans: "same_others key p q \<Longrightarrow> same_others key q r \<Longrightarrow> same_others key p r"
  by (simp add: same_others_def)

lemma demo_acquire:
  assumes "pools (host, port) = None"
  shows "\<exists>pools'. acquire True demo_pool cfg host port (pools, n) =
     (Val (Inr \<lparr>handle_sender = HandleH1 (), connection_id = 0\<rparr>), (pools', n)) \<and> same_others (host, port) pools pools'"
proof -
  have attempts: "max_acquire_attempts = Suc 31" by (simp add: max_acquire_attempts_def)
  have "determine_action True demo_pool cfg (host, port) (pools, n) =
      (Val (OpenNew True), (pools((host, port) \<mapsto> new_host_pool ()), n))"
    using assms by (simp add: determine_action_def on_entry_def demo_pool_def)
  moreover have "\<exists>hp. open_and_insert True demo_pool (host, port) True (pools((host, port) \<mapsto> new_host_pool ()), n) =
     (Val (Inr \<lparr>handle_sender = HandleH1 (), connection_id = 0\<rparr>), (pools((host, port) \<mapsto> hp), n))"
    by (simp add: open_and_insert_def demo_pool_def insert_opened_def on_entry_def dec_opening_def allocate_id_def
        and_then_def new_host_pool_def split_opened_def) (rule exI, rule refl)
  moreover have "lock_point demo_pool pw = pw" for pw by (simp add: demo_pool_def)
  ultimately have "\<exists>hp. acquire_loop True demo_pool cfg (host, port) (Suc k) (pools, n) =
     (Val (Inr \<lparr>handle_sender = HandleH1 (), connection_id = 0\<rparr>), (pools((host, port) \<mapsto> hp), n))" for k
    by (simp add: and_then_def)
  then show ?thesis unfolding acquire_def attempts by (fastforce simp: same_others_def)
qed

lemma demo_finish:
  "\<exists>pools'. finish_connection demo_pool key h usable (pools, n) = (Val (), (pools', n)) \<and> same_others key pools pools'"
  by (cases "handle_sender h"; cases "pools key")
    (simp_all add: finish_connection_def give_back_def return_h1_connection_def remove_dead_connection_def
      notify_h2_complete_def on_entry_def notify_waiter_def demo_pool_def and_then_def same_others_def)

lemma demo_request:
  "execute_request True demo_uri demo_headers (de_http demo_download) s uri host rc (Suc fuel) (pools, n) =
     (Val (Inr (Response \<lparr>rd_bytes = [255, 216, 255], rd_headers = [], rd_elapsed = instant_since 0 0\<rparr>)), (pools, Suc n))"
  by (simp add: execute_request_def execute_with_redirects_def redirect_loop.simps(2) demo_download_def
      send_request_def try_then_def and_then_def try_map_err_def map_err_def is_redirect_def success_response_def)

lemma demo_fetch:
  assumes "pools (host, port) = None"
  shows "\<exists>pools'. fetch True demo_download cfg 256 rc uri host port (pools, n) =
     (Val (Inr (Response \<lparr>rd_bytes = [255, 216, 255], rd_headers = [], rd_elapsed = instant_since 0 0\<rparr>)), (pools', Suc n)) \<and>
     same_others (host, port) pools pools'"
proof -
  obtain pools1 where acq: "acquire True demo_pool cfg host port (pools, n) =
     (Val (Inr \<lparr>handle_sender = HandleH1 (), connection_id = 0\<rparr>), (pools1, n))" "same_others (host, port) pools pools1"
    using demo_acquire [where pools = pools and host = host and port = port and cfg = cfg and n = n] assms by blast
  obtain pools2 where fin: "finish_connection demo_pool (host, port) \<lparr>handle_sender = HandleH1 (), connection_id = 0\<rparr>
      True (pools1, Suc n) = (Val (), (pools2, Suc n))" "same_others (host, port) pools1 pools2"
    using demo_finish by blast
  show ?thesis
    using acq(1) fin(1) same_others_trans [OF acq(2) fin(2)] demo_request [where fuel = 255]
    by (intro exI [of _ pools2]) (simp add: fetch_def try_then_def and_then_def result_usable_def)
qed

lemma demo_download_one:
  assumes "pools (host, port) = None" "request_target demo_uri u = Inr (uri, host, port)"
    and name: "generate_filename True (de_sha256 demo_download) u i [255, 216, 255] (naming_strategy cfg) = Val name"
    and cfg: "naming_strategy cfg \<noteq> ContentHash" "\<not> config.write_metadata cfg" "\<not> write_summary cfg"
  shows "\<exists>pools'. download_one True demo_download cfg 256 dir u i (pools, n) =
     (Val (u, \<lparr>url = u, outcome = Success (path_join dir name) 3 None (instant_since 0 0)\<rparr>), (pools', Suc (Suc n))) \<and>
     same_others (host, port) pools pools'"
proof -
  define rc where "rc = \<lparr>rc_user_agent = user_agent cfg, rc_request_timeout = request_timeout cfg,
         rc_max_redirects = max_redirects cfg\<rparr>"
  obtain pools' where "fetch True demo_download cfg 256 rc uri host port (pools, n) =
     (Val (Inr (Response \<lparr>rd_bytes = [255, 216, 255], rd_headers = [], rd_elapsed = instant_since 0 0\<rparr>)), (pools', Suc n))"
    and same: "same_others (host, port) pools pools'"
    using demo_fetch [where pools = pools and host = host and port = port and cfg = cfg and n = n and rc = rc and uri = uri] assms(1) by blast
  then have fetched: "with_retry True (de_retry demo_download) maxr base
      (fetch True demo_download cfg 256 rc uri host port) (pools, n) =
     (Val (Inr (Response \<lparr>rd_bytes = [255, 216, 255], rd_headers = [], rd_elapsed = instant_since 0 0\<rparr>), 0), (pools', Suc n))"
    for maxr base
    by (simp add: with_retry_def with_retry_from.simps)
  define data where "data = \<lparr>rd_bytes = [255, 216, 255 :: u8], rd_headers = [] :: (rstr \<times> bytes) list, rd_elapsed = instant_since 0 0\<rparr>"
  have got: "obtain_response True demo_download cfg 256 uri host port (pools, n) = (Val (Inr data, 0), (pools', Suc n))"
    by (simp add: obtain_response_def rc_def [symmetric] and_then_def fetched accept_result_def data_def)
  have fs: "fs_write (de_fs demo_download) p bs (pools, m) = (Val (Inr ()), (pools, Suc m))" for p bs pools m
    by (simp add: demo_download_def)
  have valid: "validate_response demo_headers (rd_bytes data) (rd_headers data) = Inr ()"
    by (simp add: validate_response_def demo_headers_def data_def)
  have len: "length (rd_bytes data) = 3" by (simp add: data_def)
  have name': "generate_filename True (de_sha256 demo_download) u i (rd_bytes data) (naming_strategy cfg) = Val name"
    using name by (simp add: data_def)
  have save: "save_response True demo_download cfg dir u i 0 0 data (pools', Suc n) =
     (Val (u, \<lparr>url = u, outcome = Success (path_join dir name) 3 None (instant_since 0 0)\<rparr>), (pools', Suc (Suc n)))"
    using cfg by (simp add: save_response_def valid and_then_def write_image_def fs elapsed_since_def content_hash_of_def
        name' len Let_def)
  show ?thesis
    using same by (intro exI [of _ pools']) (simp add: download_one_def assms(2) with_permits_def and_then_def got save)
qed

lemma demo_run:
  "\<exists>pools. download_one True demo_download config_default 256 (lit ''out'') (lit ''http://h/a.jpg'') 0 (Map.empty, 0) =
     (Val (lit ''http://h/a.jpg'', \<lparr>url = lit ''http://h/a.jpg'', outcome = Success (lit ''out/a.jpg'') 3 None (instant_since 0 0)\<rparr>),
      (pools, Suc (Suc 0)))"
proof -
  have target: "request_target demo_uri (lit ''http://h/a.jpg'') = Inr ((lit ''h'', 80), lit ''h'', 80)"
    by (simp add: request_target_def port_or_default_def demo_uri_def)
  have "last_segment_of (lit ''http://h/a.jpg'') = lit ''a.jpg''" by code_simp
  then have name: "generate_filename True sha (lit ''http://h/a.jpg'') 0 bs UrlBased = Val (lit ''a.jpg'')" for sha bs
    by (simp add: generate_filename_def url_based_name_def truncate_filename_def sanitize_def sanitize_char_def
        is_ascii_alphanumeric_def)
  have cfg: "naming_strategy config_default = UrlBased" "\<not> config.write_metadata config_default"
    "\<not> write_summary config_default"
    by (simp_all add: config_default_def naming_strategy_default_def)
  have "path_join (lit ''out'') (lit ''a.jpg'') = lit ''out/a.jpg''" by (simp add: path_join_def)
  with demo_download_one [OF _ target, where pools = Map.empty and cfg = config_default and n = 0 and i = 0] name cfg
  show ?thesis by (metis (no_types, lifting) naming_strategy.distinct(3))
qed

theorem download_returns_saved_body_witness:
  "\<exists>r w'. download_one True demo_download config_default 256 (lit ''out'') (lit ''http://h/a.jpg'') 0 (Map.empty, 0) =
       (Val (lit ''http://h/a.jpg'', r), w') \<and>
     (case outcome r of
        Failure e el n \<Rightarrow> False
      | Success p sz hash el \<Rightarrow> p = lit ''out/a.jpg'' \<and> sz = 3 \<and> hash = None \<and>
          (\<exists>data. complete_response (de_http demo_download) data \<and>
            saved True demo_download config_default (lit ''out'') (lit ''http://h/a.jpg'') 0 data p sz hash))"
proof -
  obtain pools where run: "download_one True demo_download config_default 256 (lit ''out'') (lit ''http://h/a.jpg'') 0 (Map.empty, 0) =
     (Val (lit ''http://h/a.jpg'', \<lparr>url = lit ''http://h/a.jpg'', outcome = Success (lit ''out/a.jpg'') 3 None (instant_since 0 0)\<rparr>),
      (pools, Suc (Suc 0)))"
    using demo_run by blast
  show ?thesis
    using run download_returns_saved_body [OF _ demo_download_lawful run] by simp
qed

end
