(* ===== verification/Batch.thy ===== *)
theory Batch
  imports Download Connect
begin

text \<open>
  \<open>download_batch_inner\<close> of \<open>orchestrator.rs\<close>: the URLs of a batch are deduplicated, one task
  per different URL is spawned, and the results are collected, until the deadline if there
  is one, and put back into the order of the input.  \<open>JoinSet\<close> (\<open>tokio\<close>) is a parameter: the
  results of its tasks, in the order in which they were joined.
\<close>

declare split_paired_All [simp del] split_paired_Ex [simp del]

section \<open>The downloader\<close>

record 'cfg downloader =
  dl_pool :: "'cfg connection_pool"
  dl_config :: config

text \<open>A new downloader, and what it owns: no host pools, and an empty DNS cache.\<close>

definition downloader_new ::
    "('store, 'anchor, 'provider, 'builder, 'cfg) rustls_ops \<Rightarrow> config \<Rightarrow> 'cfg downloader outcome" where
  "downloader_new ro cfg =
     bind_outcome (build_tls_config ro) (\<lambda>tls. Val \<lparr>dl_pool = pool_new cfg tls, dl_config = cfg\<rparr>)"

definition downloader_new_plain ::
    "('store, 'anchor, 'provider, 'builder, 'cfg) rustls_ops \<Rightarrow> config \<Rightarrow> 'cfg downloader outcome" where
  "downloader_new_plain ro cfg =
     bind_outcome (build_tls_config ro) (\<lambda>tls. Val \<lparr>dl_pool = pool_new_plain cfg tls, dl_config = cfg\<rparr>)"

definition downloader_state :: "config \<Rightarrow> 'w \<Rightarrow> ('h2, 'h1, 'n, ('ip, 'w) dns_world) pool_world" where
  "downloader_state cfg w = (Map.empty, (dns_new (dns_cache_ttl cfg), w))"

text \<open>The pool's environment with the connections of \<open>open_connection_inner\<close>.\<close>

definition connected_env ::
    "('ip, 'w) dns_env \<Rightarrow> ('ip, 'tcp, 'sn, 'cfg, 'tls, 'h2, 'h1, 'w) net_ops \<Rightarrow> 'cfg downloader \<Rightarrow>
     ('h2, 'h1, 'n, ('ip, 'w) dns_world) pool_env \<Rightarrow> ('h2, 'h1, 'n, ('ip, 'w) dns_world) pool_env" where
  "connected_env dns net dl env =
     env\<lparr>open_connection := (\<lambda>host port. on_env (open_connection_inner dns net (dl_pool dl) host port))\<rparr>"

section \<open>Deduplication\<close>

text \<open>\<open>dedup.entry(url).or_default().push(i)\<close> on an insertion-ordered map.\<close>

fun dedup_push :: "rstr \<Rightarrow> nat \<Rightarrow> (rstr \<times> nat list) list \<Rightarrow> (rstr \<times> nat list) list" where
  "dedup_push u i [] = [(u, [i])]"
| "dedup_push u i ((v, is) # es) = (if v = u then (v, is @ [i]) # es else (v, is) # dedup_push u i es)"

fun dedup_from :: "nat \<Rightarrow> rstr list \<Rightarrow> (rstr \<times> nat list) list \<Rightarrow> (rstr \<times> nat list) list" where
  "dedup_from i [] es = es"
| "dedup_from i (u # us) es = dedup_from (Suc i) us (dedup_push u i es)"

definition dedup :: "rstr list \<Rightarrow> (rstr \<times> nat list) list" where
  "dedup urls = dedup_from 0 urls []"

section \<open>Tasks\<close>

text \<open>
  A joined task returned, or panicked (\<open>None\<close>).  \<open>join_tasks tasks deadline\<close> runs the tasks and
  returns what was joined before the deadline, in the order of joining; then the remaining
  tasks are dropped.
\<close>

type_synonym 'w task = "('w, rstr \<times> download_result) prog"

type_synonym joined = "(rstr \<times> download_result) option"

type_synonym 'w join_set = "'w task list \<Rightarrow> instant option \<Rightarrow> ('w, joined list) prog"

definition batch_tasks ::
    "bool \<Rightarrow> ('h2, 'h1, 'n, 'w, 'req, 'uri, 'pq, 'hm, 'hv, 'body) download_env \<Rightarrow> config \<Rightarrow> nat \<Rightarrow> path \<Rightarrow>
     (rstr \<times> nat list) list \<Rightarrow> ('h2, 'h1, 'n, 'w) pool_world task list" where
  "batch_tasks oc de cfg fuel output_dir entries =
     map (\<lambda>(url_str, indices). download_one oc de cfg fuel output_dir url_str (indices ! 0)) entries"

text \<open>\<open>Instant::now() + d\<close> panics when the sum leaves the range of the clock.\<close>

definition batch_deadline ::
    "('h2, 'h1, 'n, 'w, 'req, 'uri, 'pq, 'hm, 'hv, 'body) download_env \<Rightarrow> config \<Rightarrow>
     (('h2, 'h1, 'n, 'w) pool_world, instant option) prog" where
  "batch_deadline de cfg = (case batch_timeout cfg of
      None \<Rightarrow> ret None
    | Some d \<Rightarrow> and_then (de_now de) (\<lambda>t. and_then (lift_outcome (instant_add t d)) (\<lambda>dl. ret (Some dl))))"

fun collect_results :: "joined list \<Rightarrow> (rstr \<rightharpoonup> download_result) \<Rightarrow> (rstr \<rightharpoonup> download_result)" where
  "collect_results [] result_map = result_map"
| "collect_results (Some (u, dr) # js) result_map = collect_results js (result_map(u \<mapsto> dr))"
| "collect_results (None # js) result_map = collect_results js result_map"

section \<open>Results\<close>

definition missing_error :: "config \<Rightarrow> download_error" where
  "missing_error cfg =
     (if batch_timeout cfg \<noteq> None then Timeout else ConnectionFailed (lit ''task panicked''))"

fun assemble_results ::
    "('h2, 'h1, 'n, 'w, 'req, 'uri, 'pq, 'hm, 'hv, 'body) download_env \<Rightarrow> config \<Rightarrow> instant \<Rightarrow>
     (rstr \<rightharpoonup> download_result) \<Rightarrow> rstr list \<Rightarrow> (('h2, 'h1, 'n, 'w) pool_world, download_result list) prog" where
  "assemble_results de cfg start result_map [] = ret []"
| "assemble_results de cfg start result_map (u # us) =
     and_then (case result_map u of
         Some r \<Rightarrow> ret r
       | None \<Rightarrow> and_then (elapsed_since de start) (\<lambda>el.
           ret \<lparr>url = u, outcome = Failure (missing_error cfg) el 0\<rparr>)) (\<lambda>r.
     and_then (assemble_results de cfg start result_map us) (\<lambda>rs. ret (r # rs)))"

text \<open>A summary that cannot be written is only logged.\<close>

definition save_summary ::
    "bool \<Rightarrow> ('h2, 'h1, 'n, 'w, 'req, 'uri, 'pq, 'hm, 'hv, 'body) download_env \<Rightarrow> config \<Rightarrow> path \<Rightarrow>
     download_result list \<Rightarrow> usize \<Rightarrow> usize \<Rightarrow> duration \<Rightarrow> (('h2, 'h1, 'n, 'w) pool_world, unit) prog" where
  "save_summary oc de cfg output_dir results urls_count unique batch_elapsed =
     (if write_summary cfg
      then and_then (write_batch_summary oc (de_fs de) (de_summary_json de) output_dir cfg results
             urls_count unique batch_elapsed) (\<lambda>_. ret ())
      else ret ())"

definition directory_failed :: "rstr list \<Rightarrow> rstr \<Rightarrow> download_result list" where
  "directory_failed urls e = map (\<lambda>u. \<lparr>url = u,
     outcome = Failure (WriteError (lit ''failed to create output directory: '' @ e)) dur_zero 0\<rparr>) urls"

definition run_batch ::
    "bool \<Rightarrow> ('h2, 'h1, 'n, 'w, 'req, 'uri, 'pq, 'hm, 'hv, 'body) download_env \<Rightarrow>
     ('h2, 'h1, 'n, 'w) pool_world join_set \<Rightarrow> config \<Rightarrow> nat \<Rightarrow> rstr list \<Rightarrow> path \<Rightarrow>
     (('h2, 'h1, 'n, 'w) pool_world, download_result list) prog" where
  "run_batch oc de join_tasks cfg fuel urls output_dir =
     and_then (de_now de) (\<lambda>batch_start.
     let entries = dedup urls in
     and_then (batch_deadline de cfg) (\<lambda>deadline.
     and_then (join_tasks (batch_tasks oc de cfg fuel output_dir entries) deadline) (\<lambda>joined.
     and_then (assemble_results de cfg batch_start (collect_results joined Map.empty) urls) (\<lambda>results.
     and_then (elapsed_since de batch_start) (\<lambda>batch_elapsed.
     and_then (save_summary oc de cfg output_dir results (length urls) (length entries) batch_elapsed) (\<lambda>_.
     and_then (lift_outcome (usize_sub oc (length results) (count_if is_success results))) (\<lambda>failed.
     ret results)))))))"

definition download_batch ::
    "bool \<Rightarrow> ('h2, 'h1, 'n, 'w, 'req, 'uri, 'pq, 'hm, 'hv, 'body) download_env \<Rightarrow>
     ('h2, 'h1, 'n, 'w) pool_world join_set \<Rightarrow> config \<Rightarrow> nat \<Rightarrow> rstr list \<Rightarrow> path \<Rightarrow>
     (('h2, 'h1, 'n, 'w) pool_world, download_result list) prog" where
  "download_batch oc de join_tasks cfg fuel urls output_dir =
     (if urls = [] then ret []
      else and_then (fs_create_dir_all (de_fs de) output_dir) (\<lambda>created. case created of
          Inl e \<Rightarrow> ret (directory_failed urls e)
        | Inr _ \<Rightarrow> run_batch oc de join_tasks cfg fuel urls output_dir))"

section \<open>Lemmas: the downloader\<close>

text \<open>Opening a connection changes no pool, and a new downloader has none.\<close>

lemma connected_env_ok: "env_ok cfg env \<Longrightarrow> env_ok cfg (connected_env dns net dl env)"
  by (auto simp: env_ok_def connected_env_def keeps_def on_env_def world_ok_def split: prod.splits)

lemma downloader_state_ok: "connections_per_host cfg < 2 ^ 64 \<Longrightarrow> world_ok cfg (downloader_state cfg w)"
  by (simp add: world_ok_def downloader_state_def pools_ok_def)

section \<open>Lemmas: deduplication\<close>

text \<open>What an entry list is for a prefix of the URLs.\<close>

definition dedup_ok :: "rstr list \<Rightarrow> (rstr \<times> nat list) list \<Rightarrow> bool" where
  "dedup_ok us es \<longleftrightarrow> map fst es = rev (remdups (rev us)) \<and>
     (\<forall>(u, is) \<in> set es. is = filter (\<lambda>i. us ! i = u) [0..<length us])"

lemma dedup_push_fst:
  "map fst (dedup_push u i es) = (if u \<in> set (map fst es) then map fst es else map fst es @ [u])"
  by (induction u i es rule: dedup_push.induct) auto

lemma dedup_push_set:
  assumes "distinct (map fst es)"
  shows "set (dedup_push u i es) = (\<lambda>(v, is). (v, if v = u then is @ [i] else is)) ` set es \<union>
     (if u \<in> set (map fst es) then {} else {(u, [i])})"
  using assms
proof (induction u i es rule: dedup_push.induct)
  case (1 u i)
  show ?case by simp
next
  case (2 u i v "is" es)
  show ?case
  proof (cases "v = u")
    case True
    with 2(2) have "(\<lambda>(v, is). (v, if v = u then is @ [i] else is)) x = x" if "x \<in> set es" for x
      using that by (cases x) (auto simp: rev_image_eqI)
    then have "(\<lambda>(v, is). (v, if v = u then is @ [i] else is)) ` set es = set es"
      by (simp add: image_cong [where g = "\<lambda>x. x"])
    with True show ?thesis by simp
  next
    case False
    with 2 show ?thesis by auto
  qed
qed

lemma dedup_ok_push:
  assumes "dedup_ok us es"
  shows "dedup_ok (us @ [u]) (dedup_push u (length us) es)"
proof -
  have fst: "map fst es = rev (remdups (rev us))" and entries: "\<forall>(u, is) \<in> set es. is = filter (\<lambda>i. us ! i = u) [0..<length us]"
    using assms by (auto simp: dedup_ok_def)
  have keys: "set (map fst es) = set us" and dist: "distinct (map fst es)" using fst by simp_all
  have old: "filter (\<lambda>i. (us @ [u]) ! i = v) [0..<length us] = filter (\<lambda>i. us ! i = v) [0..<length us]" for v
    by (rule filter_cong) (simp_all add: nth_append)
  have positions: "filter (\<lambda>i. (us @ [u]) ! i = v) [0..<length (us @ [u])] =
      filter (\<lambda>i. us ! i = v) [0..<length us] @ (if v = u then [length us] else [])" for v
    by (simp add: old)
  have none: "filter (\<lambda>i. us ! i = u) [0..<length us] = []" if "u \<notin> set us"
    using that by (auto simp: filter_empty_conv)
  have "is = filter (\<lambda>i. (us @ [u]) ! i = v) [0..<length (us @ [u])]"
    if "(v, is) \<in> set (dedup_push u (length us) es)" for v "is"
    using that entries none unfolding positions dedup_push_set [OF dist] keys
    by (auto split: if_splits)
  moreover have "map fst (dedup_push u (length us) es) = rev (remdups (rev (us @ [u])))"
    unfolding dedup_push_fst keys using fst by simp
  ultimately show ?thesis by (auto simp: dedup_ok_def)
qed

lemma dedup_ok_from:
  "dedup_ok us es \<Longrightarrow> dedup_ok (us @ vs) (dedup_from (length us) vs es)"
proof (induction vs arbitrary: us es)
  case Nil
  then show ?case by simp
next
  case (Cons v vs)
  from Cons.IH [OF dedup_ok_push [OF Cons.prems, of v]] show ?case by simp
qed

lemma dedup_ok_dedup: "dedup_ok urls (dedup urls)"
  using dedup_ok_from [of "[]" "[]" urls] by (simp add: dedup_ok_def dedup_def)

text \<open>The first of the positions that satisfy a predicate.\<close>

lemma first_position:
  assumes "xs = filter P [0..<n]" "i < n" "P i"
  shows "xs ! 0 < n \<and> P (xs ! 0) \<and> (\<forall>j < xs ! 0. \<not> P j)"
proof -
  have mem: "k \<in> set xs \<longleftrightarrow> k < n \<and> P k" for k using assms(1) by auto
  then obtain x ys where xs: "xs = x # ys" using assms(2,3) by (cases xs) auto
  have "sorted xs" using assms(1) by (simp add: sorted_wrt_filter)
  then have least: "x \<le> k" if "k \<in> set xs" for k using that xs by auto
  have "\<not> P j" if "j < x" for j
    using least [of j] mem [of j] mem [of x] that xs by auto
  with mem [of x] xs show ?thesis by simp
qed

section \<open>Lemmas: joined results\<close>

text \<open>
  What the documentation of \<open>JoinSet\<close> promises: every joined result is that of a task of its
  own, and without a deadline all tasks are joined.
\<close>

definition joined_from :: "'w task list \<Rightarrow> joined list \<Rightarrow> nat list \<Rightarrow> bool" where
  "joined_from tasks js order \<longleftrightarrow> distinct order \<and> set order \<subseteq> {..<length tasks} \<and> length order = length js \<and>
     (\<forall>k < length js. \<exists>w1 w2. (tasks ! (order ! k)) w1 = ((case js ! k of Some r \<Rightarrow> Val r | None \<Rightarrow> Panic), w2))"

definition join_lawful :: "'w join_set \<Rightarrow> bool" where
  "join_lawful join_tasks \<longleftrightarrow> (\<forall>tasks dl w js w'. join_tasks tasks dl w = (Val js, w') \<longrightarrow>
     (\<exists>order. joined_from tasks js order \<and> (dl = None \<longrightarrow> length order = length tasks)))"

lemma join_lawfulD:
  assumes "join_lawful join_tasks" "join_tasks tasks dl w = (Val js, w')"
  shows "\<exists>order. joined_from tasks js order \<and> (dl = None \<longrightarrow> length order = length tasks)"
  using assms(1) [unfolded join_lawful_def, rule_format, OF assms(2)] .

lemma collect_results_Some:
  "collect_results js m u = Some r \<Longrightarrow> m u = Some r \<or> Some (u, r) \<in> set js"
  by (induction js m rule: collect_results.induct) (auto split: if_splits)

lemma collect_results_None:
  "collect_results js m u = None \<Longrightarrow> m u = None \<and> (\<forall>r. Some (u, r) \<notin> set js)"
  by (induction js m rule: collect_results.induct) (auto split: if_splits)

lemma download_one_url:
  assumes "download_one oc de cfg fuel output_dir u i w = (Val (v, r), w')"
  shows "v = u \<and> url r = u"
proof -
  obtain start w1 where start: "(case request_target (de_uri de) u of
       Inl e \<Rightarrow> download_failed de u start e 0
     | Inr (uri, host, port) \<Rightarrow> with_permits de host
           (and_then (obtain_response oc de cfg fuel uri host port) (\<lambda>(response, retries).
            case response of
              Inl e \<Rightarrow> download_failed de u start e retries
            | Inr data \<Rightarrow> save_response oc de cfg output_dir u i start retries data))) w1 = (Val (v, r), w')"
    using assms by (auto simp: download_one_def and_then_eq_Val)
  have failed: "v = u \<and> url r = u" if "download_failed de u start e n w2 = (Val (v, r), w3)" for e n w2 w3
    using download_failed_eq [OF that] by auto
  show ?thesis
  proof (cases "request_target (de_uri de) u")
    case (Inl e)
    with start failed show ?thesis by simp
  next
    case (Inr tgt)
    then obtain x n w2 w3 where "(case x of
              Inl e \<Rightarrow> download_failed de u start e n
            | Inr data \<Rightarrow> save_response oc de cfg output_dir u i start n data) w2 = (Val (v, r), w3)"
      using start by (cases tgt) (auto dest!: with_permits_eq_Val simp: and_then_eq_Val)
    then show ?thesis
      using failed save_response_result by (cases x) fastforce+
  qed
qed

lemma assemble_results_eq:
  "assemble_results de cfg start m us w = (Val rs, w') \<Longrightarrow>
     list_all2 (\<lambda>u r. case m u of Some x \<Rightarrow> r = x
       | None \<Rightarrow> \<exists>el. r = \<lparr>url = u, outcome = Failure (missing_error cfg) el 0\<rparr>) us rs"
proof (induction us arbitrary: w rs w')
  case Nil
  then show ?case by simp
next
  case (Cons u us)
  from Cons.prems obtain r w1 where
    r: "(case m u of Some r \<Rightarrow> ret r
       | None \<Rightarrow> and_then (elapsed_since de start) (\<lambda>el.
           ret \<lparr>url = u, outcome = Failure (missing_error cfg) el 0\<rparr>)) w = (Val r, w1)"
    and rest: "and_then (assemble_results de cfg start m us) (\<lambda>rs. ret (r # rs)) w1 = (Val rs, w')"
    unfolding assemble_results.simps and_then_eq_Val [of "case m u of Some r \<Rightarrow> ret r | None \<Rightarrow> _"] by blast
  from rest have "\<exists>rs' w2. assemble_results de cfg start m us w1 = (Val rs', w2) \<and> rs = r # rs'"
    unfolding and_then_eq_Val by auto
  then obtain rs' w2 where rs: "assemble_results de cfg start m us w1 = (Val rs', w2)" "rs = r # rs'" by blast
  from r have "case m u of Some x \<Rightarrow> r = x
       | None \<Rightarrow> \<exists>el. r = \<lparr>url = u, outcome = Failure (missing_error cfg) el 0\<rparr>"
    by (auto simp: and_then_eq_Val split: option.splits)
  with Cons.IH [OF rs(1)] rs(2) show ?case by simp
qed

lemma run_batch_cases:
  assumes "run_batch oc de join_tasks cfg fuel urls output_dir w = (Val rs, w')"
  shows "\<exists>start js dl w1 w2 w3 w4. (batch_timeout cfg = None \<longrightarrow> dl = None) \<and>
     join_tasks (batch_tasks oc de cfg fuel output_dir (dedup urls)) dl w1 = (Val js, w2) \<and>
     assemble_results de cfg start (collect_results js Map.empty) urls w3 = (Val rs, w4)"
proof -
  from assms obtain start dl js res w1 w2 w3 w4 w5 where
    dl: "batch_deadline de cfg w1 = (Val dl, w2)"
    and js: "join_tasks (batch_tasks oc de cfg fuel output_dir (dedup urls)) dl w2 = (Val js, w3)"
    and res: "assemble_results de cfg start (collect_results js Map.empty) urls w3 = (Val res, w4)"
    and "ret res w5 = (Val rs, w')"
    unfolding run_batch_def Let_def and_then_eq_Val by (elim exE conjE) (rule that; assumption)
  from dl have none: "batch_timeout cfg = None \<longrightarrow> dl = None" by (cases "batch_timeout cfg") (simp_all add: batch_deadline_def)
  have "res = rs" using \<open>ret res w5 = (Val rs, w')\<close> by simp
  then show ?thesis by (intro exI conjI) (rule none js res [unfolded \<open>res = rs\<close>])+
qed

text \<open>The first position of a URL, which its task gets for the name of the file.\<close>

definition first_at :: "rstr list \<Rightarrow> rstr \<Rightarrow> nat \<Rightarrow> bool" where
  "first_at urls u i \<longleftrightarrow> i < length urls \<and> urls ! i = u \<and> (\<forall>j < i. urls ! j \<noteq> u)"

lemma dedup_entry:
  assumes "(u, is) \<in> set (dedup urls)"
  shows "first_at urls u (is ! 0)"
proof -
  have "dedup_ok urls (dedup urls)" by (rule dedup_ok_dedup)
  then have "is": "is = filter (\<lambda>i. urls ! i = u) [0..<length urls]" and keys: "map fst (dedup urls) = rev (remdups (rev urls))"
    using assms by (auto simp: dedup_ok_def)
  have "u \<in> set (map fst (dedup urls))" using assms by force
  then obtain i where "i < length urls" "urls ! i = u" unfolding keys by (auto simp: in_set_conv_nth)
  from first_position [OF "is" this] show ?thesis by (simp add: first_at_def)
qed

text \<open>The result of a URL: that of its one task, or the error of a missing one.\<close>

definition batch_result ::
    "bool \<Rightarrow> ('h2, 'h1, 'n, 'w, 'req, 'uri, 'pq, 'hm, 'hv, 'body) download_env \<Rightarrow> config \<Rightarrow> nat \<Rightarrow> rstr list \<Rightarrow> path \<Rightarrow>
     rstr \<Rightarrow> download_result \<Rightarrow> bool" where
  "batch_result oc de cfg fuel urls output_dir u r \<longleftrightarrow> url r = u \<and>
     ((\<exists>i w1 w2. first_at urls u i \<and> download_one oc de cfg fuel output_dir u i w1 = (Val (u, r), w2)) \<or>
      (\<exists>el. outcome r = Failure (missing_error cfg) el 0) \<and>
        (batch_timeout cfg = None \<longrightarrow>
          (\<exists>i w1 w2. first_at urls u i \<and> download_one oc de cfg fuel output_dir u i w1 = (Panic, w2))))"

lemma joined_result:
  assumes joined: "joined_from (batch_tasks oc de cfg fuel output_dir (dedup urls)) js order"
    and found: "collect_results js Map.empty u = Some r"
  shows "batch_result oc de cfg fuel urls output_dir u r"
proof -
  from collect_results_Some [OF found] have "Some (u, r) \<in> set js" by simp
  then obtain k where k: "k < length js" "js ! k = Some (u, r)" by (auto simp: in_set_conv_nth)
  then have "order ! k \<in> set order" using joined by (simp add: joined_from_def)
  then have less: "order ! k < length (dedup urls)" using joined by (auto simp: joined_from_def batch_tasks_def)
  obtain v "is" where entry: "dedup urls ! (order ! k) = (v, is)" by fastforce
  from joined k obtain w1 w2 where "(batch_tasks oc de cfg fuel output_dir (dedup urls) ! (order ! k)) w1 = (Val (u, r), w2)"
    unfolding joined_from_def by fastforce
  then have run: "download_one oc de cfg fuel output_dir v (is ! 0) w1 = (Val (u, r), w2)"
    using less entry by (simp add: batch_tasks_def)
  from download_one_url [OF run] have "v = u" "url r = u" by simp_all
  moreover have "(v, is) \<in> set (dedup urls)" using less entry nth_mem by metis
  ultimately show ?thesis using run dedup_entry by (auto simp: batch_result_def)
qed

lemma missing_result:
  assumes joined: "joined_from (batch_tasks oc de cfg fuel output_dir (dedup urls)) js order"
    and all: "batch_timeout cfg = None \<Longrightarrow> length order = length (dedup urls)"
    and found: "collect_results js Map.empty u = None" and u: "u \<in> set urls"
  shows "batch_result oc de cfg fuel urls output_dir u \<lparr>url = u, outcome = Failure (missing_error cfg) el 0\<rparr>"
proof (cases "batch_timeout cfg = None")
  case True
  have "set (map fst (dedup urls)) = set urls" using dedup_ok_dedup [of urls] by (simp add: dedup_ok_def)
  with u obtain j where j: "j < length (dedup urls)" "fst (dedup urls ! j) = u"
    by (metis (no_types, lifting) in_set_conv_nth length_map nth_map)
  then obtain "is" where entry: "dedup urls ! j = (u, is)" by (metis prod.collapse)
  have "card (set order) = length (dedup urls)" "set order \<subseteq> {..<length (dedup urls)}"
    using joined all [OF True] by (auto simp: joined_from_def distinct_card batch_tasks_def)
  then have "set order = {..<length (dedup urls)}" by (intro card_subset_eq) simp_all
  with j(1) obtain k where k: "k < length js" "order ! k = j"
    using joined by (auto simp: joined_from_def in_set_conv_nth) (metis in_set_conv_nth lessThan_iff)
  from joined k obtain w1 w2 where
    run: "download_one oc de cfg fuel output_dir u (is ! 0) w1 = ((case js ! k of Some r \<Rightarrow> Val r | None \<Rightarrow> Panic), w2)"
    using j(1) entry unfolding joined_from_def by (auto simp: batch_tasks_def)
  have "js ! k = None"
  proof (rule ccontr)
    assume "js ! k \<noteq> None"
    then obtain v r where vr: "js ! k = Some (v, r)" by auto
    with run download_one_url have "v = u" by fastforce
    with vr k(1) have "Some (u, r) \<in> set js" by (metis nth_mem)
    with collect_results_None [OF found] show False by blast
  qed
  with run dedup_entry [of u "is" urls] entry j(1) show ?thesis
    by (auto simp: batch_result_def) (metis nth_mem)
next
  case False
  then obtain d where "batch_timeout cfg = Some d" by auto
  then show ?thesis by (simp add: batch_result_def)
qed

lemma download_batch_result:
  assumes "join_lawful join_tasks" "download_batch oc de join_tasks cfg fuel urls output_dir w = (Val rs, w')"
  shows "(\<exists>e. rs = directory_failed urls e) \<or>
     list_all2 (batch_result oc de cfg fuel urls output_dir) urls rs"
proof (cases "urls = []")
  case True
  with assms(2) show ?thesis by (simp add: download_batch_def)
next
  case False
  with assms(2) obtain created :: "rstr + unit" and w1 where "(case created of
          Inl e \<Rightarrow> ret (directory_failed urls e)
        | Inr _ \<Rightarrow> run_batch oc de join_tasks cfg fuel urls output_dir) w1 = (Val rs, w')"
    by (simp add: download_batch_def and_then_eq_Val) (elim exE conjE, rule that)
  then consider e where "rs = directory_failed urls e"
    | "run_batch oc de join_tasks cfg fuel urls output_dir w1 = (Val rs, w')"
    by (cases created) auto
  then show ?thesis
  proof cases
    case 1
    then show ?thesis by blast
  next
    case 2
    obtain start js dl w2 w3 w4 w5 where dl: "batch_timeout cfg = None \<longrightarrow> dl = None"
      and js: "join_tasks (batch_tasks oc de cfg fuel output_dir (dedup urls)) dl w2 = (Val js, w3)"
      and rs: "assemble_results de cfg start (collect_results js Map.empty) urls w4 = (Val rs, w5)"
      using run_batch_cases [OF 2] by (elim exE conjE) (rule that)
    from join_lawfulD [OF assms(1) js] obtain order where
      joined: "joined_from (batch_tasks oc de cfg fuel output_dir (dedup urls)) js order"
      and all: "dl = None \<longrightarrow> length order = length (dedup urls)"
      by (auto simp: batch_tasks_def)
    have "list_all2 (batch_result oc de cfg fuel urls output_dir) urls rs"
    proof (rule list_all2_all_nthI)
      show "length urls = length rs" using assemble_results_eq [OF rs] by (rule list_all2_lengthD)
      fix k assume k: "k < length urls"
      note this_result = list_all2_nthD [OF assemble_results_eq [OF rs] k]
      show "batch_result oc de cfg fuel urls output_dir (urls ! k) (rs ! k)"
      proof (cases "collect_results js Map.empty (urls ! k)")
        case None
        then obtain el where "rs ! k = \<lparr>url = urls ! k, outcome = Failure (missing_error cfg) el 0\<rparr>"
          using this_result by auto
        with missing_result [OF joined _ None] dl all k show ?thesis by simp
      next
        case (Some r)
        with joined_result [OF joined Some] this_result show ?thesis by simp
      qed
    qed
    then show ?thesis by blast
  qed
qed

lemma download_batch_urls:
  assumes "join_lawful join_tasks" "download_batch oc de join_tasks cfg fuel urls output_dir w = (Val rs, w')"
  shows "map url rs = urls"
proof -
  consider e where "rs = directory_failed urls e"
    | "list_all2 (batch_result oc de cfg fuel urls output_dir) urls rs"
    using download_batch_result [OF assms] by blast
  then show ?thesis
  proof cases
    case 1
    then show ?thesis by (auto simp: directory_failed_def comp_def)
  next
    case 2
    then show ?thesis
      by (intro nth_equalityI) (auto simp: list_all2_conv_all_nth batch_result_def)
  qed
qed

text \<open>Where a successful download of a batch was saved.\<close>

lemma batch_success_path:
  assumes "join_lawful join_tasks" "download_batch oc de join_tasks cfg fuel urls output_dir w = (Val rs, w')"
    and "i < length urls" "outcome (rs ! i) = Success p sz hash el"
    and "oc \<or> max_redirects cfg \<noteq> 255" "timeout_lawful (de_http de)"
  shows "\<exists>k bs n. first_at urls (urls ! i) k \<and> p = path_join output_dir n \<and>
     generate_filename oc (de_sha256 de) (urls ! i) k bs (naming_strategy cfg) = Val n"
proof -
  have "rs \<noteq> directory_failed urls e" for e
    using assms(3,4) by (auto simp: directory_failed_def)
  then have "batch_result oc de cfg fuel urls output_dir (urls ! i) (rs ! i)"
    using download_batch_result [OF assms(1,2)] assms(3) by (auto simp: list_all2_conv_all_nth)
  with assms(4) obtain k w1 w2 where k: "first_at urls (urls ! i) k"
    and run: "download_one oc de cfg fuel output_dir (urls ! i) k w1 = (Val (urls ! i, rs ! i), w2)"
    unfolding batch_result_def by (elim conjE disjE exE) auto
  from download_one_result [OF assms(5,6) run] assms(4) obtain data where
    "saved oc de cfg output_dir (urls ! i) k data p sz hash" by auto
  with k show ?thesis unfolding saved_def by blast
qed

lemma sequential_path_join:
  assumes "generate_filename oc sha u i bs Sequential = Val n" "i < 2 ^ 64"
  shows "path_join dir n = (if dir = [] \<or> last dir = ch_slash then dir else dir @ [ch_slash]) @ n"
proof -
  obtain e where n: "n = show_nat_pad3 i @ ch_dot # e" using sequential_generated [OF assms] by blast
  have "ch_slash \<notin> set (show_nat_pad3 i)" using show_nat_pad3_digits [of ch_slash i] by (auto simp: is_ascii_digit_def)
  then have "hd n \<noteq> ch_slash" by (cases "show_nat_pad3 i") (auto simp: n)
  then show ?thesis by (simp add: path_join_def)
qed

text \<open>A batch ends if its tasks do and the join set returns when they do.\<close>

definition join_ends :: "'w join_set \<Rightarrow> bool" where
  "join_ends join_tasks \<longleftrightarrow> (\<forall>tasks dl. (\<forall>t \<in> set tasks. ends t) \<longrightarrow> ends (join_tasks tasks dl))"

lemma instant_add_ends: "instant_add t d \<noteq> Diverges"
  by (simp add: instant_add_def)

lemma assemble_results_ends: "ends (de_now de) \<Longrightarrow> ends (assemble_results de cfg start m us)"
  by (induction us)
    (auto simp: elapsed_since_def simp del: ret_apply split: option.split intro!: ends_and_then)

lemma save_summary_ends: "(\<And>p bs. ends (fs_write (de_fs de) p bs)) \<Longrightarrow> ends (save_summary oc de cfg dir rs n m el)"
  unfolding save_summary_def write_batch_summary_def write_image_def
  by (auto simp del: ret_apply split: sum.split intro!: ends_and_then ends_lift summarize_ends)

lemma run_batch_ends:
  assumes "download_env_ends de" "counter_safe oc (max_redirects cfg)" "256 \<le> fuel" "timeout_lawful (de_http de)" "join_ends join_tasks"
  shows "ends (run_batch oc de join_tasks cfg fuel urls output_dir)"
proof -
  have ops: "ends (de_now de)" "ends (fs_write (de_fs de) p bs)" for p bs
    using assms(1) by (simp_all add: download_env_ends_def)
  have "ends (batch_deadline de cfg)"
    unfolding batch_deadline_def
    by (auto simp del: ret_apply split: option.split intro!: ends_and_then ends_lift ops instant_add_ends)
  moreover have "ends (join_tasks (batch_tasks oc de cfg fuel output_dir entries) dl)" for entries dl
    using assms(5) [unfolded join_ends_def, rule_format, of "batch_tasks oc de cfg fuel output_dir entries"]
      download_one_ends [OF assms(1-4)]
    by (fastforce simp: batch_tasks_def)
  ultimately show ?thesis
    unfolding run_batch_def Let_def elapsed_since_def
    by (intro ends_and_then ops assemble_results_ends save_summary_ends ends_simps)
qed

section \<open>Properties\<close>


text \<open>
  A URL that is given several times is downloaded once: all its positions have the same
  outcome, a missing one the same error.
\<close>
theorem duplicates_share_result:
  assumes "download_batch oc de join_tasks cfg fuel urls output_dir w = (Val rs, w')"
    and "i < length urls" "j < length urls" "urls ! i = urls ! j"
  shows "rs ! i = rs ! j \<or>
     (\<exists>el el'. outcome (rs ! i) = Failure (missing_error cfg) el 0 \<and> outcome (rs ! j) = Failure (missing_error cfg) el' 0)"
proof (cases "urls = []")
  case True
  with assms(2) show ?thesis by simp
next
  case False
  with assms(1) obtain created :: "rstr + unit" and w1 where "(case created of
          Inl e \<Rightarrow> ret (directory_failed urls e)
        | Inr _ \<Rightarrow> run_batch oc de join_tasks cfg fuel urls output_dir) w1 = (Val rs, w')"
    by (simp add: download_batch_def and_then_eq_Val) (elim exE conjE, rule that)
  then consider e where "rs = directory_failed urls e"
    | "run_batch oc de join_tasks cfg fuel urls output_dir w1 = (Val rs, w')"
    by (cases created) auto
  then show ?thesis
  proof cases
    case 1
    with assms(2-4) show ?thesis by (simp add: directory_failed_def)
  next
    case 2
    obtain start js w4 w5 where "assemble_results de cfg start (collect_results js Map.empty) urls w4 = (Val rs, w5)"
      using run_batch_cases [OF 2] by (elim exE conjE) (rule that)
    note results = assemble_results_eq [OF this]
    from list_all2_nthD [OF results assms(2)] list_all2_nthD [OF results assms(3)] assms(4) show ?thesis
      by (cases "collect_results js Map.empty (urls ! i)") auto
  qed
qed

text \<open>
  C21.  Deduplication is the specification: one entry per different URL, in the order of the
  first positions, with exactly its positions in increasing order.
\<close>
theorem dedup_refines:
  "dedup urls = map (\<lambda>u. (u, filter (\<lambda>i. urls ! i = u) [0..<length urls])) (rev (remdups (rev urls)))"
proof -
  have "dedup_ok urls (dedup urls)" by (rule dedup_ok_dedup)
  then have keys: "map fst (dedup urls) = rev (remdups (rev urls))"
    and entries: "\<And>e. e \<in> set (dedup urls) \<Longrightarrow> e = (fst e, filter (\<lambda>i. urls ! i = fst e) [0..<length urls])"
    by (auto simp: dedup_ok_def)
  have "dedup urls = map (\<lambda>e. (fst e, filter (\<lambda>i. urls ! i = fst e) [0..<length urls])) (dedup urls)"
    by (rule map_idI [symmetric]) (rule entries [symmetric])
  also have "\<dots> = map (\<lambda>u. (u, filter (\<lambda>i. urls ! i = u) [0..<length urls])) (map fst (dedup urls))"
    by simp
  finally show ?thesis unfolding keys .
qed

text \<open>
  C4.  With Sequential names nothing is overwritten: of two different URLs of a batch that
  were both saved, the paths are different.
\<close>
theorem sequential_batch_no_overwrite:
  assumes "naming_strategy cfg = Sequential" "oc \<or> max_redirects cfg \<noteq> 255" "timeout_lawful (de_http de)"
    and "join_lawful join_tasks" "length urls < 2 ^ 64"
    and "download_batch oc de join_tasks cfg fuel urls output_dir w = (Val rs, w')"
    and "i < length urls" "j < length urls" "urls ! i \<noteq> urls ! j"
    and "outcome (rs ! i) = Success p sz hash el" "outcome (rs ! j) = Success p' sz' hash' el'"
  shows "p \<noteq> p'"
proof
  assume "p = p'"
  note success = batch_success_path [OF assms(4,6) _ _ assms(2,3)]
  from success [OF assms(7,10)] success [OF assms(8,11)] obtain k bs k' bs' n n' where
    k: "first_at urls (urls ! i) k" "first_at urls (urls ! j) k'"
    and n: "generate_filename oc (de_sha256 de) (urls ! i) k bs Sequential = Val n"
      "generate_filename oc (de_sha256 de) (urls ! j) k' bs' Sequential = Val n'"
    and p: "p = path_join output_dir n" "p' = path_join output_dir n'"
    unfolding assms(1) by blast
  have less: "k < 2 ^ 64" "k' < 2 ^ 64" using k assms(5) by (auto simp: first_at_def)
  have "n = n'"
    using \<open>p = p'\<close> sequential_path_join [OF n(1) less(1)] sequential_path_join [OF n(2) less(2)] by (simp add: p)
  then have "k = k'" using sequential_names_injective [OF less n(1)] n(2) by simp
  with k assms(9) show False by (auto simp: first_at_def)
qed


text \<open>Tasks that are run one after the other.\<close>

fun run_tasks :: "'w task list \<Rightarrow> ('w, joined list) prog" where
  "run_tasks [] = ret []"
| "run_tasks (t # ts) = (\<lambda>w. case t w of
      (Val r, w') \<Rightarrow> and_then (run_tasks ts) (\<lambda>js. ret (Some r # js)) w'
    | (Panic, w') \<Rightarrow> and_then (run_tasks ts) (\<lambda>js. ret (None # js)) w'
    | (Diverges, w') \<Rightarrow> (Diverges, w'))"

lemma run_tasks_joined:
  "run_tasks ts w = (Val js, w') \<Longrightarrow> length js = length ts \<and>
     (\<forall>k < length js. \<exists>w1 w2. (ts ! k) w1 = ((case js ! k of Some r \<Rightarrow> Val r | None \<Rightarrow> Panic), w2))"
proof (induction ts arbitrary: w js w')
  case Nil
  then show ?case by simp
next
  case (Cons t ts)
  obtain x w1 where t: "t w = (x, w1)" by fastforce
  with Cons.prems obtain js' w2 where js': "run_tasks ts w1 = (Val js', w2)"
    and js: "js = (case x of Val r \<Rightarrow> Some r | _ \<Rightarrow> None) # js'" and x: "x \<noteq> Diverges"
    by (cases x) (auto simp: and_then_eq_Val)
  have "(\<exists>w1 w2. ((t # ts) ! k) w1 = ((case js ! k of Some r \<Rightarrow> Val r | None \<Rightarrow> Panic), w2))" if "k < length js" for k
  proof (cases k)
    case 0
    with js t x show ?thesis by (cases x) auto
  next
    case (Suc m)
    with that Cons.IH [OF js'] js show ?thesis by simp
  qed
  with Cons.IH [OF js'] js show ?case by simp
qed

lemma run_tasks_lawful: "join_lawful (\<lambda>tasks dl. run_tasks tasks)"
  unfolding join_lawful_def
proof (intro allI impI)
  fix tasks :: "'a task list" and dl :: "instant option" and w js w'
  assume "run_tasks tasks w = (Val js, w')"
  from run_tasks_joined [OF this] have "joined_from tasks js [0..<length tasks]"
    by (auto simp: joined_from_def)
  then show "\<exists>order. joined_from tasks js order \<and> (dl = None \<longrightarrow> length order = length tasks)"
    by (intro exI [of _ "[0..<length tasks]"]) simp
qed

lemma run_tasks_ends: "join_ends (\<lambda>tasks dl. run_tasks tasks)"
proof -
  have "(\<forall>t \<in> set tasks. ends t) \<Longrightarrow> ends (run_tasks tasks)" for tasks :: "'a task list"
  proof (induction tasks)
    case (Cons t ts)
    then have IH: "ends (run_tasks ts)" and t: "ends t" by auto
    have "fst (run_tasks (t # ts) w) \<noteq> Diverges" for w
    proof -
      obtain r w' where tw: "t w = (r, w')" by (cases "t w")
      have rest: "fst (and_then (run_tasks ts) (\<lambda>js. ret (j # js)) w') \<noteq> Diverges" for j
        using ends_and_then [OF IH ends_simps(1), of "\<lambda>js. j # js"] by (simp add: ends_def)
      show ?thesis
        using t rest by (cases r) (auto simp: ends_def tw dest: spec [of _ w])
    qed
    then show ?case by (simp add: ends_def)
  qed (simp add: ends_def)
  then show ?thesis by (simp add: join_ends_def)
qed


definition demo_urls :: "rstr list" where
  "demo_urls = [lit ''http://h/a.jpg'', lit ''http://h/a.jpg'']"

lemma demo_batch_run:
  "\<exists>w'. download_batch True demo_download (\<lambda>tasks dl. run_tasks tasks) config_default 256 demo_urls (lit ''out'')
      (Map.empty, 0) =
    (Val (replicate 2 \<lparr>url = lit ''http://h/a.jpg'', outcome = Success (lit ''out/a.jpg'') 3 None (instant_since 0 0)\<rparr>), w')"
proof -
  have entries: "dedup demo_urls = [(lit ''http://h/a.jpg'', [0, 1])]"
    by (simp add: dedup_def demo_urls_def del: lit_simps)
  have urls: "demo_urls \<noteq> []" by (simp add: demo_urls_def)
  have create: "fs_create_dir_all (de_fs demo_download) p w = (Val (Inr ()), w)" for p w
    by (simp add: demo_download_def)
  have cfg: "batch_timeout config_default = None" "write_summary config_default = False"
    by (simp_all add: config_default_def)
  obtain pools where run: "download_one True demo_download config_default 256 (lit ''out'') (lit ''http://h/a.jpg'') 0 (Map.empty, 0) =
     (Val (lit ''http://h/a.jpg'', \<lparr>url = lit ''http://h/a.jpg'', outcome = Success (lit ''out/a.jpg'') 3 None (instant_since 0 0)\<rparr>),
      (pools, Suc (Suc 0)))"
    using demo_run by blast
  show ?thesis
    by (simp add: download_batch_def urls and_then_def create run_batch_def Let_def batch_deadline_def cfg entries
        batch_tasks_def run save_summary_def elapsed_since_def is_success_def del: lit_simps)
      (simp add: demo_urls_def and_then_def is_success_def numeral_2_eq_2 del: lit_simps)
qed


theorem duplicates_share_result_witness:
  "\<exists>rs w'. download_batch True demo_download (\<lambda>tasks dl. run_tasks tasks) config_default 256 demo_urls (lit ''out'')
      (Map.empty, 0) = (Val rs, w') \<and> rs ! 0 = rs ! 1"
proof -
  obtain rs w' where run: "download_batch True demo_download (\<lambda>tasks dl. run_tasks tasks) config_default 256 demo_urls
      (lit ''out'') (Map.empty, 0) = (Val rs, w')"
    and rs: "rs = replicate 2 \<lparr>url = lit ''http://h/a.jpg'', outcome = Success (lit ''out/a.jpg'') 3 None (instant_since 0 0)\<rparr>"
    using demo_batch_run by blast
  have "outcome (rs ! 0) = Success (lit ''out/a.jpg'') 3 None (instant_since 0 0)"
    by (simp add: rs numeral_2_eq_2 del: lit_simps)
  moreover have "0 < length demo_urls" "1 < length demo_urls" "demo_urls ! 0 = demo_urls ! 1"
    by (simp_all add: demo_urls_def)
  note same = duplicates_share_result [OF run this]
  ultimately have "rs ! 0 = rs ! 1" by (auto simp del: lit_simps)
  with run show ?thesis by blast
qed

text \<open>Two URLs of different hosts under Sequential names.\<close>

definition demo_numbered :: config where
  "demo_numbered = config_default\<lparr>naming_strategy := Sequential\<rparr>"

definition demo_two_urls :: "rstr list" where
  "demo_two_urls = [lit ''http://h/a.jpg'', lit ''http://i/a.jpg'']"

lemma demo_numbered_run:
  "\<exists>w'. download_batch True demo_download (\<lambda>tasks dl. run_tasks tasks) demo_numbered 256 demo_two_urls (lit ''out'')
      (Map.empty, 0) =
    (Val [\<lparr>url = lit ''http://h/a.jpg'', outcome = Success (path_join (lit ''out'') (lit ''000.jpg'')) 3 None (instant_since 0 0)\<rparr>,
       \<lparr>url = lit ''http://i/a.jpg'', outcome = Success (path_join (lit ''out'') (lit ''001.jpg'')) 3 None (instant_since 0 0)\<rparr>], w')"
proof -
  have entries: "dedup demo_two_urls = [(lit ''http://h/a.jpg'', [0]), (lit ''http://i/a.jpg'', [Suc 0])]" by code_simp
  have cfg: "naming_strategy demo_numbered = Sequential" "batch_timeout demo_numbered = None"
    "\<not> write_summary demo_numbered" "\<not> config.write_metadata demo_numbered"
    by (simp_all add: demo_numbered_def config_default_def)
  have target: "request_target demo_uri (lit ''http://h/a.jpg'') = Inr ((lit ''h'', 80), lit ''h'', 80)"
    "request_target demo_uri (lit ''http://i/a.jpg'') = Inr ((lit ''i'', 80), lit ''i'', 80)"
    by (simp_all add: request_target_def port_or_default_def demo_uri_def)
  have names: "generate_filename True (\<lambda>bs. replicate 32 171) (lit ''http://h/a.jpg'') 0 [255, 216, 255] Sequential = Val (lit ''000.jpg'')"
    "generate_filename True (\<lambda>bs. replicate 32 171) (lit ''http://i/a.jpg'') (Suc 0) [255, 216, 255] Sequential = Val (lit ''001.jpg'')"
    by code_simp+
  have sha: "de_sha256 demo_download = (\<lambda>bs. replicate 32 171)" by (simp add: demo_download_def)
  obtain pools where first: "download_one True demo_download demo_numbered 256 (lit ''out'') (lit ''http://h/a.jpg'') 0 (Map.empty, 0) =
     (Val (lit ''http://h/a.jpg'', \<lparr>url = lit ''http://h/a.jpg'',
        outcome = Success (path_join (lit ''out'') (lit ''000.jpg'')) 3 None (instant_since 0 0)\<rparr>), (pools, Suc (Suc 0)))"
    and others: "same_others (lit ''h'', 80) Map.empty pools"
    using demo_download_one [where pools = Map.empty and cfg = demo_numbered and n = 0 and dir = "lit ''out''" and i = 0,
        OF _ target(1)] names(1) cfg sha by fastforce
  have "pools (lit ''i'', 80) = None" using others by (simp add: same_others_def)
  from demo_download_one [where pools = pools and cfg = demo_numbered and n = "Suc (Suc 0)" and dir = "lit ''out''" and i = "Suc 0",
      OF this target(2)] names(2) cfg sha
  obtain pools' where second: "download_one True demo_download demo_numbered 256 (lit ''out'') (lit ''http://i/a.jpg'') (Suc 0)
      (pools, Suc (Suc 0)) = (Val (lit ''http://i/a.jpg'', \<lparr>url = lit ''http://i/a.jpg'',
        outcome = Success (path_join (lit ''out'') (lit ''001.jpg'')) 3 None (instant_since 0 0)\<rparr>), (pools', Suc (Suc (Suc (Suc 0)))))"
    by fastforce
  have urls: "demo_two_urls \<noteq> []" by (simp add: demo_two_urls_def)
  have create: "fs_create_dir_all (de_fs demo_download) p w = (Val (Inr ()), w)" for p w
    by (simp add: demo_download_def)
  have differ: "lit ''http://h/a.jpg'' \<noteq> lit ''http://i/a.jpg''" by simp
  show ?thesis
    by (simp add: download_batch_def urls and_then_def create run_batch_def Let_def batch_deadline_def cfg entries
        batch_tasks_def first second save_summary_def elapsed_since_def is_success_def del: lit_simps)
      (simp add: demo_two_urls_def and_then_def is_success_def differ del: lit_simps)
qed

theorem sequential_batch_no_overwrite_witness:
  "path_join (lit ''out'') (lit ''000.jpg'') \<noteq> path_join (lit ''out'') (lit ''001.jpg'')"
proof -
  obtain w' where run: "download_batch True demo_download (\<lambda>tasks dl. run_tasks tasks) demo_numbered 256 demo_two_urls (lit ''out'')
      (Map.empty, 0) =
    (Val [\<lparr>url = lit ''http://h/a.jpg'', outcome = Success (path_join (lit ''out'') (lit ''000.jpg'')) 3 None (instant_since 0 0)\<rparr>,
       \<lparr>url = lit ''http://i/a.jpg'', outcome = Success (path_join (lit ''out'') (lit ''001.jpg'')) 3 None (instant_since 0 0)\<rparr>], w')"
    using demo_numbered_run by blast
  have cfg: "naming_strategy demo_numbered = Sequential" by (simp add: demo_numbered_def)
  have urls: "length demo_two_urls < 2 ^ 64" "0 < length demo_two_urls" "1 < length demo_two_urls"
    "demo_two_urls ! 0 \<noteq> demo_two_urls ! 1"
    by (simp_all add: demo_two_urls_def)
  show ?thesis
    by (rule sequential_batch_no_overwrite [OF cfg disjI1 [OF TrueI] demo_download_lawful run_tasks_lawful urls(1) run urls(2-4)])
      (simp_all del: lit_simps)
qed

end
