(* ===== verification/Permits.thy ===== *)
theory Permits
  imports Batch
begin

text \<open>
  The semaphores of a batch in \<open>orchestrator.rs\<close>: one for all downloads, and one per host that
  is created by the first task that needs it.  A task waits for both, in this order, and
  gives both back when it ends.  A step of the relation is one such action of one task; the
  tasks of the \<open>JoinSet\<close> may be interleaved in any way, and dropped when the batch times
  out.  A semaphore of \<open>tokio\<close> is the number of its free permits.
\<close>

section \<open>Permits\<close>

record permits =
  free_global :: usize
  free_host :: "rstr \<rightharpoonup> usize"

definition permits_new :: "config \<Rightarrow> permits" where
  "permits_new cfg = \<lparr>free_global = max_concurrent_global cfg, free_host = Map.empty\<rparr>"

text \<open>\<open>sems.entry(host).or_insert_with(...)\<close>.\<close>

definition host_entry :: "config \<Rightarrow> rstr \<Rightarrow> permits \<Rightarrow> permits" where
  "host_entry cfg host p = (case free_host p host of
      Some n \<Rightarrow> p
    | None \<Rightarrow> p\<lparr>free_host := (free_host p)(host \<mapsto> max_concurrent_per_host cfg)\<rparr>)"

definition acquire_global :: "permits \<Rightarrow> permits option" where
  "acquire_global p = (if free_global p = 0 then None else Some (p\<lparr>free_global := free_global p - 1\<rparr>))"

definition acquire_host :: "rstr \<Rightarrow> permits \<Rightarrow> permits option" where
  "acquire_host host p = (case free_host p host of
      None \<Rightarrow> None
    | Some n \<Rightarrow> if n = 0 then None else Some (p\<lparr>free_host := (free_host p)(host \<mapsto> n - 1)\<rparr>))"

text \<open>The drops of the two permits.\<close>

definition release_global :: "permits \<Rightarrow> permits" where
  "release_global p = p\<lparr>free_global := free_global p + 1\<rparr>"

definition release_host :: "rstr \<Rightarrow> permits \<Rightarrow> permits" where
  "release_host host p = (case free_host p host of
      None \<Rightarrow> p | Some n \<Rightarrow> p\<lparr>free_host := (free_host p)(host \<mapsto> n + 1)\<rparr>)"

section \<open>Tasks\<close>

text \<open>Where a task of the batch is.\<close>

datatype task_phase =
    Spawned
  | WaitGlobal rstr
  | LookupHost rstr
  | WaitHost rstr
  | Downloading rstr
  | Finished

record batch_state =
  bt_permits :: permits
  bt_tasks :: "task_phase list"

text \<open>
  The moves of one task whose URL has the host \<open>target\<close> (\<open>None\<close> for a URL that is refused),
  up to its end; a task that is dropped or panics gives back what it holds.
\<close>

inductive task_step :: "config \<Rightarrow> rstr option \<Rightarrow> permits \<Rightarrow> task_phase \<Rightarrow> permits \<Rightarrow> task_phase \<Rightarrow> bool" for cfg where
  task_refused: "task_step cfg None p Spawned p Finished"
| task_started: "task_step cfg (Some h) p Spawned p (WaitGlobal h)"
| task_global: "acquire_global p = Some p' \<Longrightarrow> task_step cfg t p (WaitGlobal h) p' (LookupHost h)"
| task_lookup: "task_step cfg t p (LookupHost h) (host_entry cfg h p) (WaitHost h)"
| task_host: "acquire_host h p = Some p' \<Longrightarrow> task_step cfg t p (WaitHost h) p' (Downloading h)"
| task_done: "task_step cfg t p (Downloading h) (release_global (release_host h p)) Finished"

fun drop_permits :: "task_phase \<Rightarrow> permits \<Rightarrow> permits" where
  "drop_permits (LookupHost h) p = release_global p"
| "drop_permits (WaitHost h) p = release_global p"
| "drop_permits (Downloading h) p = release_global (release_host h p)"
| "drop_permits ph p = p"

inductive_simps task_step_waiting [simp]: "task_step cfg t p (WaitGlobal h) p' ph'" "task_step cfg t p (WaitHost h) p' ph'"
inductive_simps task_step_finished [simp]: "task_step cfg t p Finished p' ph'"

text \<open>\<open>targets\<close> are the hosts of the unique URLs, one per task.\<close>

definition batch_init :: "config \<Rightarrow> rstr option list \<Rightarrow> batch_state \<Rightarrow> bool" where
  "batch_init cfg targets s \<longleftrightarrow>
     s = \<lparr>bt_permits = permits_new cfg, bt_tasks = replicate (length targets) Spawned\<rparr>"

definition batch_moves :: "config \<Rightarrow> rstr option list \<Rightarrow> batch_state \<Rightarrow> batch_state \<Rightarrow> bool" where
  "batch_moves cfg targets s s' \<longleftrightarrow> (\<exists>i p ph. i < length targets \<and> i < length (bt_tasks s) \<and>
     task_step cfg (targets ! i) (bt_permits s) (bt_tasks s ! i) p ph \<and>
     s' = \<lparr>bt_permits = p, bt_tasks = (bt_tasks s)[i := ph]\<rparr>)"

definition batch_drops :: "batch_state \<Rightarrow> batch_state \<Rightarrow> bool" where
  "batch_drops s s' \<longleftrightarrow> (\<exists>i < length (bt_tasks s).
     s' = \<lparr>bt_permits = drop_permits (bt_tasks s ! i) (bt_permits s), bt_tasks = (bt_tasks s)[i := Finished]\<rparr>)"

text \<open>The steps of a batch; tasks are dropped only when it can time out.\<close>

definition batch_step :: "config \<Rightarrow> rstr option list \<Rightarrow> batch_state \<Rightarrow> batch_state \<Rightarrow> bool" where
  "batch_step cfg targets s s' \<longleftrightarrow>
     batch_moves cfg targets s s' \<or> batch_timeout cfg \<noteq> None \<and> batch_drops s s'"

section \<open>Invariant\<close>

fun holds_global :: "task_phase \<Rightarrow> bool" where
  "holds_global (LookupHost h) = True"
| "holds_global (WaitHost h) = True"
| "holds_global (Downloading h) = True"
| "holds_global ph = False"

text \<open>Every permit is free or held; the semaphore of a host exists when a task waits for it.\<close>

definition permits_ok :: "config \<Rightarrow> batch_state \<Rightarrow> bool" where
  "permits_ok cfg s \<longleftrightarrow>
     free_global (bt_permits s) + count_if holds_global (bt_tasks s) = max_concurrent_global cfg \<and>
     (\<forall>h. case free_host (bt_permits s) h of
        None \<Rightarrow> count_if (\<lambda>ph. ph = WaitHost h \<or> ph = Downloading h) (bt_tasks s) = 0
      | Some n \<Rightarrow> n + count_if (\<lambda>ph. ph = Downloading h) (bt_tasks s) = max_concurrent_per_host cfg)"

text \<open>One task moves: the changes of the free permits match the changes of what it holds.\<close>

definition moved_ok :: "config \<Rightarrow> permits \<Rightarrow> task_phase \<Rightarrow> permits \<Rightarrow> task_phase \<Rightarrow> bool" where
  "moved_ok cfg p ph p' ph' \<longleftrightarrow>
     free_global p' + of_bool (holds_global ph') = free_global p + of_bool (holds_global ph) \<and>
     (\<forall>h. case free_host p h of
        None \<Rightarrow> (case free_host p' h of
            None \<Rightarrow> ph' \<noteq> WaitHost h \<and> ph' \<noteq> Downloading h
          | Some m \<Rightarrow> m = max_concurrent_per_host cfg \<and> ph' \<noteq> Downloading h)
      | Some n \<Rightarrow> (case free_host p' h of
            None \<Rightarrow> False
          | Some m \<Rightarrow> m + of_bool (ph' = Downloading h) = n + of_bool (ph = Downloading h)))"

lemma count_if_of_bool:
  "i < length xs \<Longrightarrow> count_if P (xs[i := y]) + of_bool (P (xs ! i)) = count_if P xs + of_bool (P y)"
  using count_if_update [of i xs P y] by (simp split: if_splits)

lemma permits_okD:
  assumes "permits_ok cfg s"
  shows "free_global (bt_permits s) + count_if holds_global (bt_tasks s) = max_concurrent_global cfg"
    and "free_host (bt_permits s) h = None \<Longrightarrow> count_if (\<lambda>ph. ph = WaitHost h \<or> ph = Downloading h) (bt_tasks s) = 0"
    and "free_host (bt_permits s) h = Some n \<Longrightarrow>
      n + count_if (\<lambda>ph. ph = Downloading h) (bt_tasks s) = max_concurrent_per_host cfg"
  using assms spec [of "\<lambda>h. case free_host (bt_permits s) h of
        None \<Rightarrow> count_if (\<lambda>ph. ph = WaitHost h \<or> ph = Downloading h) (bt_tasks s) = 0
      | Some n \<Rightarrow> n + count_if (\<lambda>ph. ph = Downloading h) (bt_tasks s) = max_concurrent_per_host cfg" h]
  by (simp_all add: permits_ok_def)

lemma moved_okD:
  assumes "moved_ok cfg p ph p' ph'"
  shows "free_global p' + of_bool (holds_global ph') = free_global p + of_bool (holds_global ph)"
    and "case free_host p h of
        None \<Rightarrow> (case free_host p' h of
            None \<Rightarrow> ph' \<noteq> WaitHost h \<and> ph' \<noteq> Downloading h
          | Some m \<Rightarrow> m = max_concurrent_per_host cfg \<and> ph' \<noteq> Downloading h)
      | Some n \<Rightarrow> (case free_host p' h of
            None \<Rightarrow> False
          | Some m \<Rightarrow> m + of_bool (ph' = Downloading h) = n + of_bool (ph = Downloading h))"
  using assms unfolding moved_ok_def by blast+

lemma permits_ok_moved:
  assumes ok: "permits_ok cfg s" and i: "i < length (bt_tasks s)"
    and moved: "moved_ok cfg (bt_permits s) (bt_tasks s ! i) p' ph'"
  shows "permits_ok cfg \<lparr>bt_permits = p', bt_tasks = (bt_tasks s)[i := ph']\<rparr>"
proof -
  let ?tasks = "(bt_tasks s)[i := ph']"
  have global: "free_global p' + count_if holds_global ?tasks = max_concurrent_global cfg"
    using permits_okD(1) [OF ok] moved_okD(1) [OF moved] count_if_of_bool [OF i, of holds_global ph'] by linarith
  have "case free_host p' h of
        None \<Rightarrow> count_if (\<lambda>ph. ph = WaitHost h \<or> ph = Downloading h) ?tasks = 0
      | Some n \<Rightarrow> n + count_if (\<lambda>ph. ph = Downloading h) ?tasks = max_concurrent_per_host cfg" for h
  proof (cases "free_host (bt_permits s) h")
    case None
    note zero = permits_okD(2) [OF ok None]
    have all: "ph = ph' \<or> ph \<noteq> WaitHost h \<and> ph \<noteq> Downloading h" if "ph \<in> set ?tasks" for ph
      using that zero set_update_subset_insert [of "bt_tasks s" i ph'] by (auto simp: count_if_zero)
    show ?thesis
    proof (cases "free_host p' h")
      case none': None
      with moved_okD(2) [OF moved, of h] None all show ?thesis by (auto simp: count_if_zero)
    next
      case (Some m)
      with moved_okD(2) [OF moved, of h] None have m: "m = max_concurrent_per_host cfg" "ph' \<noteq> Downloading h" by simp_all
      with all have "count_if (\<lambda>ph. ph = Downloading h) ?tasks = 0" by (auto simp: count_if_zero)
      with m Some show ?thesis by simp
    qed
  next
    case (Some n)
    with moved_okD(2) [OF moved, of h] obtain m where m: "free_host p' h = Some m"
      "m + of_bool (ph' = Downloading h) = n + of_bool (bt_tasks s ! i = Downloading h)"
      by (cases "free_host p' h") simp_all
    with permits_okD(3) [OF ok Some] count_if_of_bool [OF i, of "\<lambda>ph. ph = Downloading h" ph']
    show ?thesis by simp
  qed
  with global show ?thesis unfolding permits_ok_def batch_state.simps by blast
qed

text \<open>The semaphore of a host a task waits for or holds exists.\<close>

lemma permits_ok_host:
  assumes "permits_ok cfg s" "i < length (bt_tasks s)" "bt_tasks s ! i = WaitHost h \<or> bt_tasks s ! i = Downloading h"
  obtains n where "free_host (bt_permits s) h = Some n"
proof (cases "free_host (bt_permits s) h")
  case None
  then have "count_if (\<lambda>ph. ph = WaitHost h \<or> ph = Downloading h) (bt_tasks s) = 0"
    by (rule permits_okD(2) [OF assms(1)])
  moreover have "0 < count_if (\<lambda>ph. ph = WaitHost h \<or> ph = Downloading h) (bt_tasks s)"
    using assms(2,3) by (intro count_if_nth_pos) auto
  ultimately show thesis by simp
next
  case (Some n)
  then show thesis by (rule that)
qed

lemma task_step_moved:
  assumes "permits_ok cfg s" "i < length (bt_tasks s)"
    and "task_step cfg t (bt_permits s) (bt_tasks s ! i) p' ph'"
  shows "moved_ok cfg (bt_permits s) (bt_tasks s ! i) p' ph'"
  using assms(3)
proof (cases rule: task_step.cases)
  case (task_global h)
  then show ?thesis by (auto simp: moved_ok_def acquire_global_def split: option.splits if_splits)
next
  case (task_lookup h)
  then show ?thesis by (auto simp: moved_ok_def host_entry_def split: option.splits)
next
  case (task_host h)
  then show ?thesis by (auto simp: moved_ok_def acquire_host_def split: option.splits if_splits)
next
  case (task_done h)
  then obtain n where "free_host (bt_permits s) h = Some n"
    using permits_ok_host [OF assms(1,2)] by blast
  with task_done show ?thesis by (auto simp: moved_ok_def release_host_def release_global_def split: option.splits)
qed (auto simp: moved_ok_def split: option.split)

lemma drop_moved:
  assumes "permits_ok cfg s" "i < length (bt_tasks s)"
  shows "moved_ok cfg (bt_permits s) (bt_tasks s ! i) (drop_permits (bt_tasks s ! i) (bt_permits s)) Finished"
proof (cases "bt_tasks s ! i")
  case (Downloading h)
  then obtain n where "free_host (bt_permits s) h = Some n"
    using permits_ok_host [OF assms] by blast
  with Downloading show ?thesis by (auto simp: moved_ok_def release_host_def release_global_def split: option.splits)
qed (simp_all add: moved_ok_def release_global_def split: option.split)

lemma batch_step_ok: "permits_ok cfg s \<Longrightarrow> batch_step cfg targets s s' \<Longrightarrow> permits_ok cfg s'"
  unfolding batch_step_def batch_moves_def batch_drops_def
  using permits_ok_moved [OF _ _ task_step_moved] permits_ok_moved [OF _ _ drop_moved] by blast

lemma batch_init_ok: "batch_init cfg targets s \<Longrightarrow> permits_ok cfg s"
  by (auto simp: batch_init_def permits_ok_def permits_new_def count_if_def filter_empty_conv)

interpretation permits: invariant_system "batch_init cfg targets" "batch_step cfg targets"
  "\<lambda>s. permits_ok cfg s \<and> length (bt_tasks s) = length targets"
  for cfg targets
proof unfold_locales
  show "batch_init cfg targets s \<Longrightarrow> permits_ok cfg s \<and> length (bt_tasks s) = length targets" for s
    using batch_init_ok by (auto simp: batch_init_def)
  show "permits_ok cfg s \<and> length (bt_tasks s) = length targets \<Longrightarrow> batch_step cfg targets s s' \<Longrightarrow>
      permits_ok cfg s' \<and> length (bt_tasks s') = length targets" for s s'
    using batch_step_ok [of cfg s targets s'] by (auto simp: batch_step_def batch_moves_def batch_drops_def simp del: split_paired_Ex)
qed

section \<open>Progress\<close>

text \<open>How many moves a task still has to make, at most.\<close>

fun moves_left :: "task_phase \<Rightarrow> nat" where
  "moves_left Spawned = 5"
| "moves_left (WaitGlobal h) = 4"
| "moves_left (LookupHost h) = 3"
| "moves_left (WaitHost h) = 2"
| "moves_left (Downloading h) = 1"
| "moves_left Finished = 0"

definition batch_moves_left :: "batch_state \<Rightarrow> nat" where
  "batch_moves_left s = sum_list (map moves_left (bt_tasks s))"

lemma task_step_left: "task_step cfg t p ph p' ph' \<Longrightarrow> moves_left ph' < moves_left ph"
  by (induction rule: task_step.induct) simp_all

lemma batch_moves_less:
  assumes "batch_moves cfg targets s s'"
  shows "batch_moves_left s' < batch_moves_left s"
proof -
  obtain i p ph where i: "i < length (bt_tasks s)" and step: "task_step cfg (targets ! i) (bt_permits s) (bt_tasks s ! i) p ph"
    and s': "s' = \<lparr>bt_permits = p, bt_tasks = (bt_tasks s)[i := ph]\<rparr>"
    using assms by (auto simp: batch_moves_def)
  have "map moves_left (bt_tasks s) ! i \<le> sum_list (map moves_left (bt_tasks s))"
    using i by (intro elem_le_sum_list) simp
  with i task_step_left [OF step] show ?thesis
    by (simp add: s' batch_moves_left_def map_update sum_list_update)
qed

text \<open>A task moves when one of the rules applies to it.\<close>

lemma moves_of_task:
  assumes "task_step cfg (targets ! j) (bt_permits s) ph p ph'" "bt_tasks s ! j = ph"
    and "j < length (bt_tasks s)" "length (bt_tasks s) = length targets"
  shows "\<exists>s'. batch_moves cfg targets s s'"
  using assms unfolding batch_moves_def by auto

lemma downloading_moves:
  assumes "j < length (bt_tasks s)" "bt_tasks s ! j = Downloading h" "length (bt_tasks s) = length targets"
  shows "\<exists>s'. batch_moves cfg targets s s'"
  by (rule moves_of_task [OF task_done assms(2,1,3)])

text \<open>
  One that holds the global permit never waits for one that does not: what it may wait for
  is held by tasks that are downloading.
\<close>

lemma holder_moves:
  assumes ok: "permits_ok cfg s" and len: "length (bt_tasks s) = length targets"
    and pos: "0 < max_concurrent_per_host cfg"
    and j: "j < length (bt_tasks s)" "holds_global (bt_tasks s ! j)"
  shows "\<exists>s'. batch_moves cfg targets s s'"
proof (cases "bt_tasks s ! j")
  case (LookupHost h)
  show ?thesis by (rule moves_of_task [OF task_lookup LookupHost j(1) len])
next
  case (Downloading h)
  from downloading_moves [OF j(1) this len] show ?thesis .
next
  case (WaitHost h)
  show ?thesis
  proof (cases "count_if (\<lambda>ph. ph = Downloading h) (bt_tasks s) = 0")
    case True
    obtain n where n: "free_host (bt_permits s) h = Some n"
      using permits_ok_host [OF ok j(1)] WaitHost by blast
    then have "n = max_concurrent_per_host cfg" using permits_okD(3) [OF ok n] True by simp
    with n pos show ?thesis
      using moves_of_task [OF _ WaitHost j(1) len] by (auto simp: acquire_host_def)
  next
    case False
    then obtain k where "k < length (bt_tasks s)" "bt_tasks s ! k = Downloading h"
      by (auto simp: count_if_zero in_set_conv_nth)
    with len show ?thesis by (intro downloading_moves)
  qed
qed (use j in simp_all)

lemma batch_can_move:
  assumes ok: "permits_ok cfg s" and len: "length (bt_tasks s) = length targets"
    and pos: "0 < max_concurrent_global cfg" "0 < max_concurrent_per_host cfg"
    and i: "i < length (bt_tasks s)" "bt_tasks s ! i \<noteq> Finished"
  shows "\<exists>s'. batch_moves cfg targets s s'"
proof (cases "bt_tasks s ! i")
  case Spawned
  show ?thesis
  proof (cases "targets ! i")
    case None
    show ?thesis by (rule moves_of_task [OF task_refused [folded None] Spawned i(1) len])
  next
    case (Some h)
    show ?thesis by (rule moves_of_task [OF task_started [of cfg h, folded Some] Spawned i(1) len])
  qed
next
  case (WaitGlobal h)
  show ?thesis
  proof (cases "count_if holds_global (bt_tasks s) = 0")
    case True
    with permits_okD(1) [OF ok] pos(1) show ?thesis
      using moves_of_task [OF _ WaitGlobal i(1) len] by (auto simp: acquire_global_def)
  next
    case False
    then obtain j where "j < length (bt_tasks s)" "holds_global (bt_tasks s ! j)"
      by (auto simp: count_if_zero in_set_conv_nth)
    with holder_moves [OF ok len pos(2)] show ?thesis by blast
  qed
qed (use i holder_moves [OF ok len pos(2)] in simp_all)

section \<open>No permits\<close>

text \<open>A task with a host that has not begun to download.\<close>

definition not_begun :: "rstr option \<Rightarrow> task_phase \<Rightarrow> bool" where
  "not_begun t ph \<longleftrightarrow> t = None \<or> ph = Spawned \<or> (\<exists>h. ph = WaitGlobal h \<or> ph = LookupHost h \<or> ph = WaitHost h)"

lemma not_begun_step:
  assumes ok: "permits_ok cfg s" and i: "i < length (bt_tasks s)"
    and zero: "max_concurrent_global cfg = 0 \<or> max_concurrent_per_host cfg = 0"
    and step: "task_step cfg t (bt_permits s) (bt_tasks s ! i) p ph" and "not_begun t (bt_tasks s ! i)"
  shows "not_begun t ph"
  using step
proof (cases rule: task_step.cases)
  case (task_host h)
  then obtain n where n: "free_host (bt_permits s) h = Some n" "0 < n"
    by (auto simp: acquire_host_def split: option.splits if_splits)
  have "0 < count_if holds_global (bt_tasks s)"
    using task_host i by (intro count_if_nth_pos) auto
  with permits_okD(1) [OF ok] permits_okD(3) [OF ok n(1)] n(2) zero show ?thesis by simp
qed (use assms(5) in \<open>auto simp: not_begun_def\<close>)

lemma nothing_begins:
  assumes zero: "max_concurrent_global cfg = 0 \<or> max_concurrent_per_host cfg = 0" and "batch_timeout cfg = None"
    and "reachable (batch_init cfg targets) (batch_step cfg targets) s"
  shows "\<forall>i < length targets. not_begun (targets ! i) (bt_tasks s ! i)"
  using assms(3)
proof (induction rule: reachable.induct)
  case (reachable_init s)
  then show ?case by (simp add: batch_init_def not_begun_def)
next
  case (reachable_step s s')
  have ok: "permits_ok cfg s" "length (bt_tasks s) = length targets"
    using permits.reachable_inv [OF reachable_step.hyps(1)] by simp_all
  from reachable_step.hyps(2) assms(2) obtain i p ph where i: "i < length targets"
    and step: "task_step cfg (targets ! i) (bt_permits s) (bt_tasks s ! i) p ph"
    and s': "s' = \<lparr>bt_permits = p, bt_tasks = (bt_tasks s)[i := ph]\<rparr>"
    by (auto simp: batch_step_def batch_moves_def)
  have "not_begun (targets ! i) ph"
    using not_begun_step [OF ok(1) _ zero step] reachable_step.IH i ok(2) by simp
  with reachable_step.IH i show ?case by (auto simp: s' nth_list_update ok(2))
qed

section \<open>Properties\<close>

text \<open>
  C14.  In every reachable state of a batch, in every interleaving of its tasks and with
  tasks dropped at any await, at most \<open>max_concurrent_global\<close> downloads are running, and for
  every host at most \<open>max_concurrent_per_host\<close>; when all tasks have ended all permits are free.
\<close>
theorem concurrency_limits:
  assumes "reachable (batch_init cfg targets) (batch_step cfg targets) s"
  shows "count_if (\<lambda>ph. \<exists>h. ph = Downloading h) (bt_tasks s) \<le> max_concurrent_global cfg \<and>
     (\<forall>h. count_if (\<lambda>ph. ph = Downloading h) (bt_tasks s) \<le> max_concurrent_per_host cfg) \<and>
     ((\<forall>ph \<in> set (bt_tasks s). ph = Finished) \<longrightarrow> free_global (bt_permits s) = max_concurrent_global cfg)"
proof -
  have ok: "permits_ok cfg s" using permits.reachable_inv [OF assms] by simp
  have "count_if (\<lambda>ph. \<exists>h. ph = Downloading h) xs \<le> count_if holds_global xs" for xs
    by (induction xs) auto
  from this [of "bt_tasks s"] permits_okD(1) [OF ok]
  have global: "count_if (\<lambda>ph. \<exists>h. ph = Downloading h) (bt_tasks s) \<le> max_concurrent_global cfg" by linarith
  have host: "count_if (\<lambda>ph. ph = Downloading h) (bt_tasks s) \<le> max_concurrent_per_host cfg" for h
  proof (cases "free_host (bt_permits s) h")
    case None
    have "count_if (\<lambda>ph. ph = Downloading h) xs \<le> count_if (\<lambda>ph. ph = WaitHost h \<or> ph = Downloading h) xs" for xs
      by (induction xs) auto
    from this [of "bt_tasks s"] permits_okD(2) [OF ok None] show ?thesis by simp
  next
    case (Some n)
    from permits_okD(3) [OF ok this] show ?thesis by simp
  qed
  have "count_if holds_global (bt_tasks s) = 0" if "\<forall>ph \<in> set (bt_tasks s). ph = Finished"
    using that by (auto simp: count_if_zero)
  with permits_okD(1) [OF ok] global host show ?thesis by auto
qed

text \<open>
  C16.  The two semaphores do not deadlock: with both limits positive, in every reachable
  state in which a task has not ended some task can move, and every move leaves fewer moves,
  at most five per task.  So however the tasks are interleaved, the batch ends.
\<close>
theorem batch_ends:
  assumes "reachable (batch_init cfg targets) (batch_step cfg targets) s"
    and "0 < max_concurrent_global cfg" "0 < max_concurrent_per_host cfg"
  shows "((\<exists>ph \<in> set (bt_tasks s). ph \<noteq> Finished) \<longrightarrow> (\<exists>s'. batch_moves cfg targets s s')) \<and>
     (\<forall>s'. batch_moves cfg targets s s' \<longrightarrow> batch_moves_left s' < batch_moves_left s)"
proof -
  have "permits_ok cfg s" "length (bt_tasks s) = length targets"
    using permits.reachable_inv [OF assms(1)] by simp_all
  note can_move = batch_can_move [OF this assms(2,3)]
  show ?thesis using can_move batch_moves_less by (metis in_set_conv_nth)
qed

text \<open>
  With a limit of 0, which the configuration accepts, and no batch timeout, no task with
  a host ever starts its download: the batch waits for ever, and no refused URL changes that.
\<close>
theorem zero_limit_blocks_batch:
  assumes "max_concurrent_global cfg = 0 \<or> max_concurrent_per_host cfg = 0" "batch_timeout cfg = None"
    and "reachable (batch_init cfg targets) (batch_step cfg targets) s" "i < length targets" "targets ! i = Some h"
  shows "bt_tasks s ! i \<noteq> Finished \<and> (\<forall>h'. bt_tasks s ! i \<noteq> Downloading h')"
  using nothing_begins [OF assms(1-3)] assms(4,5) by (auto simp: not_begun_def)

text \<open>Two URLs of one host, under limits of one.\<close>

definition demo_limits :: "nat \<Rightarrow> config" where
  "demo_limits n = config_default\<lparr>max_concurrent_global := 1, max_concurrent_per_host := n\<rparr>"

lemma demo_batch_reachable:
  "reachable (batch_init (demo_limits n) [Some [104], Some [104]]) (batch_step (demo_limits n) [Some [104], Some [104]])
     \<lparr>bt_permits = permits_new (demo_limits n), bt_tasks = [WaitGlobal [104], Spawned]\<rparr>"
proof -
  let ?t = "[Some [104], Some [104]] :: rstr option list"
  have "batch_init (demo_limits n) ?t \<lparr>bt_permits = permits_new (demo_limits n), bt_tasks = [Spawned, Spawned]\<rparr>"
    by (simp add: batch_init_def)
  moreover have "task_step (demo_limits n) (Some [104]) (permits_new (demo_limits n)) Spawned
      (permits_new (demo_limits n)) (WaitGlobal [104])"
    by (rule task_started)
  then have "batch_moves (demo_limits n) ?t \<lparr>bt_permits = permits_new (demo_limits n), bt_tasks = [Spawned, Spawned]\<rparr>
      \<lparr>bt_permits = permits_new (demo_limits n), bt_tasks = [WaitGlobal [104], Spawned]\<rparr>"
    unfolding batch_moves_def
    by (intro exI [of _ 0] exI [of _ "permits_new (demo_limits n)"] exI [of _ "WaitGlobal [104]"]) simp
  ultimately show ?thesis by (intro reachable_step [OF reachable_init]) (auto simp: batch_step_def)
qed

theorem concurrency_limits_witness:
  "count_if (\<lambda>ph. \<exists>h. ph = Downloading h) [WaitGlobal [104], Spawned] \<le> 1 \<and>
   count_if (\<lambda>ph. ph = Downloading [104]) [WaitGlobal [104], Spawned] \<le> max_concurrent_per_host (demo_limits 1)"
  using concurrency_limits [OF demo_batch_reachable [of 1]] by (simp add: demo_limits_def)

theorem batch_ends_witness:
  "\<exists>s'. batch_moves (demo_limits 1) [Some [104], Some [104]]
     \<lparr>bt_permits = permits_new (demo_limits 1), bt_tasks = [WaitGlobal [104], Spawned]\<rparr> s'"
  using batch_ends [OF demo_batch_reachable [of 1]] by (simp add: demo_limits_def)

theorem zero_limit_blocks_batch_witness:
  "[WaitGlobal [104], Spawned] ! 0 \<noteq> Finished"
  using zero_limit_blocks_batch [OF _ _ demo_batch_reachable [of 0], of 0 "[104]"]
  by (simp add: demo_limits_def config_default_def)

end
