(* ===== verification/Batch_System.thy ===== *)
theory Batch_System
  imports Permits Pool_Spec
begin

text \<open>
  The tasks of a batch with the permits and the pool they share: a task uses the pool only
  while it is downloading, and its download ends only when it has given its connection
  back.  A task that is dropped loses its permits and leaves the pool as it is.  The pools
  are those that earlier batches of the same downloader left.
\<close>

declare split_paired_All [simp del] split_paired_Ex [simp del]

section \<open>The composed system\<close>

record ('h2, 'h1, 'n, 'w) batch_system =
  bs_batch :: batch_state
  bs_pool :: "('h2, 'h1, 'n, 'w) pool_system"

definition downloading :: "task_phase \<Rightarrow> bool" where
  "downloading ph \<longleftrightarrow> (\<exists>h. ph = Downloading h)"

lemma downloading_simps [simp]:
  "downloading (Downloading h)" "\<not> downloading Spawned" "\<not> downloading (WaitGlobal h)" "\<not> downloading (LookupHost h)"
  "\<not> downloading (WaitHost h)" "\<not> downloading Finished"
  by (simp_all add: downloading_def)

text \<open>
  A permit move of task \<open>i\<close>, a step of task \<open>i\<close> in the pool, the drop of task \<open>i\<close>, or a
  change of the connections.
\<close>

inductive system_step ::
    "bool \<Rightarrow> ('h2, 'h1, 'n, 'w) pool_env \<Rightarrow> config \<Rightarrow> rstr option list \<Rightarrow>
     ('h2, 'h1, 'n, 'w) batch_system \<Rightarrow> ('h2, 'h1, 'n, 'w) batch_system \<Rightarrow> bool"
  for oc env cfg targets where
  sys_permit:
    "i < length (bt_tasks b) \<Longrightarrow> i < length targets \<Longrightarrow> task_step cfg (targets ! i) (bt_permits b) (bt_tasks b ! i) p ph \<Longrightarrow>
     sys_tasks s ! i = Idle \<Longrightarrow>
     system_step oc env cfg targets \<lparr>bs_batch = b, bs_pool = s\<rparr>
       \<lparr>bs_batch = \<lparr>bt_permits = p, bt_tasks = (bt_tasks b)[i := ph]\<rparr>, bs_pool = s\<rparr>"
| sys_pool:
    "i < length (bt_tasks b) \<Longrightarrow> downloading (bt_tasks b ! i) \<Longrightarrow> pool_step oc env cfg False s s' \<Longrightarrow>
     sys_tasks s' = (sys_tasks s)[i := t] \<Longrightarrow>
     system_step oc env cfg targets \<lparr>bs_batch = b, bs_pool = s\<rparr> \<lparr>bs_batch = b, bs_pool = s'\<rparr>"
| sys_drop:
    "batch_timeout cfg \<noteq> None \<Longrightarrow> i < length (bt_tasks b) \<Longrightarrow>
     system_step oc env cfg targets \<lparr>bs_batch = b, bs_pool = System pools w ts\<rparr>
       \<lparr>bs_batch = \<lparr>bt_permits = drop_permits (bt_tasks b ! i) (bt_permits b), bt_tasks = (bt_tasks b)[i := Finished]\<rparr>,
        bs_pool = System pools w (ts[i := Idle])\<rparr>"
| sys_world:
    "system_step oc env cfg targets \<lparr>bs_batch = b, bs_pool = System pools w ts\<rparr>
       \<lparr>bs_batch = b, bs_pool = System pools w' ts\<rparr>"

text \<open>A batch starts with new permits, idle tasks and any pools that satisfy the invariant.\<close>

definition system_init :: "config \<Rightarrow> rstr option list \<Rightarrow> ('h2, 'h1, 'n, 'w) batch_system \<Rightarrow> bool" where
  "system_init cfg targets x \<longleftrightarrow> batch_init cfg targets (bs_batch x) \<and>
     pool_inv cfg (batch_timeout cfg \<noteq> None) (bs_pool x) \<and> sys_tasks (bs_pool x) = replicate (length targets) Idle"

section \<open>Invariant\<close>

text \<open>Only a downloading task has business in the pool.\<close>

definition system_inv :: "config \<Rightarrow> rstr option list \<Rightarrow> ('h2, 'h1, 'n, 'w) batch_system \<Rightarrow> bool" where
  "system_inv cfg targets x \<longleftrightarrow> permits_ok cfg (bs_batch x) \<and> length (bt_tasks (bs_batch x)) = length targets \<and>
     pool_inv cfg (batch_timeout cfg \<noteq> None) (bs_pool x) \<and> length (sys_tasks (bs_pool x)) = length targets \<and>
     (\<forall>i < length targets. sys_tasks (bs_pool x) ! i \<noteq> Idle \<longrightarrow> downloading (bt_tasks (bs_batch x) ! i))"

lemma pool_step_more: "pool_step oc env cfg False s s' \<Longrightarrow> pool_step oc env cfg cancels s s'"
  by (induction rule: pool_step.induct) (auto intro: pool_step.intros)

lemma system_step_inv:
  assumes "system_step oc env cfg targets x x'" "system_inv cfg targets x"
  shows "system_inv cfg targets x'"
  using assms
proof (induction rule: system_step.induct)
  case (sys_permit i b p ph s)
  have ok: "permits_ok cfg b" using sys_permit.prems by (simp add: system_inv_def)
  from permits_ok_moved [OF ok sys_permit.hyps(1) task_step_moved [OF ok sys_permit.hyps(1,3)]]
  show ?case using sys_permit.prems sys_permit.hyps(1,4) by (auto simp: system_inv_def nth_list_update)
next
  case (sys_pool i b s s' t)
  have "pool_inv cfg (batch_timeout cfg \<noteq> None) s'"
    using sys_pool.prems by (intro pool_step_inv [OF _ pool_step_more [OF sys_pool.hyps(3)]]) (simp add: system_inv_def)
  with sys_pool.prems sys_pool.hyps(1,2,4) show ?case by (auto simp: system_inv_def nth_list_update)
next
  case (sys_drop i b pools w ts)
  have ok: "permits_ok cfg b" using sys_drop.prems by (simp add: system_inv_def)
  have "pool_inv cfg True (System pools w ts)" "i < length ts"
    using sys_drop.prems sys_drop.hyps by (simp_all add: system_inv_def)
  then have "pool_inv cfg True (System pools w (ts[i := Idle]))"
    using pool_step_inv [OF _ step_cancel [of True i ts oc env cfg pools w]] by simp
  with permits_ok_moved [OF ok sys_drop.hyps(2) drop_moved [OF ok sys_drop.hyps(2)]] sys_drop.prems sys_drop.hyps
  show ?case by (auto simp: system_inv_def nth_list_update)
next
  case (sys_world b pools w ts w')
  then show ?case by (simp add: system_inv_def)
qed

lemma system_init_inv: "system_init cfg targets x \<Longrightarrow> system_inv cfg targets x"
  using batch_init_ok by (auto simp: system_init_def system_inv_def batch_init_def)

interpretation batch_pool: invariant_system "system_init cfg targets" "system_step oc env cfg targets" "system_inv cfg targets"
  for cfg targets oc env
  by unfold_locales (rule system_init_inv, assumption, rule system_step_inv)

section \<open>Properties\<close>

lemma users_downloading:
  assumes "system_inv cfg targets x"
  shows "count_if (\<lambda>t. t \<noteq> Idle) (sys_tasks (bs_pool x)) \<le> count_if downloading (bt_tasks (bs_batch x))"
  using assms by (intro count_if_pointwise) (auto simp: system_inv_def)


section \<open>A batch of one URL\<close>

lemma pool_step_length: "pool_step oc env cfg cancels s s' \<Longrightarrow> length (sys_tasks s') = length (sys_tasks s)"
  by (induction rule: pool_step.induct) simp_all

text \<open>A run of the pool by the only task of a batch is a run of the system.\<close>

lemma pool_run_lifts:
  assumes "reachable (\<lambda>s. s = s0) (pool_step oc env cfg False) s"
    and "reachable ini (system_step oc env cfg targets) \<lparr>bs_batch = b, bs_pool = s0\<rparr>"
    and "length (bt_tasks b) = 1" "downloading (bt_tasks b ! 0)" "length (sys_tasks s0) = 1"
  shows "reachable ini (system_step oc env cfg targets) \<lparr>bs_batch = b, bs_pool = s\<rparr> \<and> length (sys_tasks s) = 1"
  using assms(1)
proof (induction rule: reachable.induct)
  case (reachable_init s)
  with assms(2,5) show ?case by simp
next
  case (reachable_step s s')
  have one: "length (sys_tasks s') = 1"
    using pool_step_length [OF reachable_step.hyps(2)] reachable_step.IH by simp
  with reachable_step.IH have "sys_tasks s' = (sys_tasks s)[0 := sys_tasks s' ! 0]"
    by (auto simp: length_Suc_conv)
  then have "system_step oc env cfg targets \<lparr>bs_batch = b, bs_pool = s\<rparr> \<lparr>bs_batch = b, bs_pool = s'\<rparr>"
    using reachable_step.hyps(2) assms(3,4) by (intro sys_pool [where i = 0]) simp_all
  with reachable_step.IH one show ?case by (blast intro: reachable.reachable_step)
qed

text \<open>A permit move of that task, while it has no business in the pool.\<close>

lemma permit_move_lifts:
  assumes "reachable ini (system_step oc env cfg [t]) \<lparr>bs_batch = \<lparr>bt_permits = p, bt_tasks = [ph]\<rparr>, bs_pool = s\<rparr>"
    and "task_step cfg t p ph p' ph'" "sys_tasks s = [Idle]"
  shows "reachable ini (system_step oc env cfg [t]) \<lparr>bs_batch = \<lparr>bt_permits = p', bt_tasks = [ph']\<rparr>, bs_pool = s\<rparr>"
  using reachable_step [OF assms(1) sys_permit [where i = 0 and p = p' and ph = ph']] assms(2,3) by simp

definition demo_pool_end :: "(nat, nat, unit, nat) pool_system" where
  "demo_pool_end = System [demo_key \<mapsto> (h1_entry ())
     \<lparr>connections := [\<lparr>conn_id = 0, conn_sender = ConnH1 (Some 7)\<rparr>]\<rparr>] 0 [Idle]"

lemma demo_pool_run:
  "reachable (\<lambda>s. s = System Map.empty 0 [Idle]) (pool_step True quiet_env config_default False) demo_pool_end"
proof -
  let ?ini = "\<lambda>s. s = System Map.empty 0 [Idle]"
  let ?run = "reachable ?ini (pool_step True quiet_env config_default False)"
  have "?run (System Map.empty 0 [Idle])" by (rule reachable_init) simp
  from take_first [OF this, of demo_key "OpenNew True" "[demo_key \<mapsto> new_host_pool ()]" 0]
  have "?run (System [demo_key \<mapsto> new_host_pool ()] 0 [Opening demo_key True])"
    by (simp add: determine_action_def on_entry_def quiet_env_def after_action_def)
  from take_opened [OF this _ switched_run(1) [where ?s1.0 = 7]]
  have "?run (System [demo_key \<mapsto> h1_entry ()] 0 [Holding demo_key demo_handle])"
    by (simp add: ids_left_def new_host_pool_def after_insert_def demo_handle_def)
  then show ?thesis
    unfolding demo_pool_end_def
    by (rule take_back [of _ _ _ _ _ _ _ _ _ True])
      (simp add: give_back_def give_back_eqs demo_handle_def h1_entry_def quiet_env_def)
qed

lemma demo_batch_end:
  "\<exists>p. reachable (system_init config_default [Some [104]]) (system_step True quiet_env config_default [Some [104]])
     \<lparr>bs_batch = \<lparr>bt_permits = p, bt_tasks = [Finished]\<rparr>, bs_pool = demo_pool_end\<rparr>"
proof -
  let ?run = "reachable (system_init config_default [Some [104]]) (system_step True quiet_env config_default [Some [104]])"
  let ?s0 = "System Map.empty 0 [Idle] :: (nat, nat, unit, nat) pool_system"
  let ?p0 = "permits_new config_default"
  define p1 where "p1 = ?p0\<lparr>free_global := free_global ?p0 - 1\<rparr>"
  define p2 where "p2 = host_entry config_default [104] p1"
  define p3 where "p3 = p2\<lparr>free_host := (free_host p2)([104] \<mapsto> max_concurrent_per_host config_default - 1)\<rparr>"
  have "pool_inv config_default cancels ?s0" for cancels
    by (rule pool_init_inv) (simp add: pool_init_def)
  then have "?run \<lparr>bs_batch = \<lparr>bt_permits = ?p0, bt_tasks = [Spawned]\<rparr>, bs_pool = ?s0\<rparr>"
    by (intro reachable_init) (simp add: system_init_def batch_init_def)
  from permit_move_lifts [OF this task_started]
  have "?run \<lparr>bs_batch = \<lparr>bt_permits = ?p0, bt_tasks = [WaitGlobal [104]]\<rparr>, bs_pool = ?s0\<rparr>" by simp
  from permit_move_lifts [OF this task_global [of _ p1]]
  have "?run \<lparr>bs_batch = \<lparr>bt_permits = p1, bt_tasks = [LookupHost [104]]\<rparr>, bs_pool = ?s0\<rparr>"
    by (simp add: acquire_global_def p1_def permits_new_def config_default_def)
  from permit_move_lifts [OF this task_lookup]
  have "?run \<lparr>bs_batch = \<lparr>bt_permits = p2, bt_tasks = [WaitHost [104]]\<rparr>, bs_pool = ?s0\<rparr>"
    by (simp add: p2_def)
  from permit_move_lifts [OF this task_host [of _ _ p3]]
  have "?run \<lparr>bs_batch = \<lparr>bt_permits = p3, bt_tasks = [Downloading [104]]\<rparr>, bs_pool = ?s0\<rparr>"
    by (simp add: acquire_host_def p3_def p2_def p1_def host_entry_def permits_new_def config_default_def)
  from pool_run_lifts [OF demo_pool_run this]
  have "?run \<lparr>bs_batch = \<lparr>bt_permits = p3, bt_tasks = [Downloading [104]]\<rparr>, bs_pool = demo_pool_end\<rparr>" by simp
  from permit_move_lifts [OF this task_done] show ?thesis by (auto simp: demo_pool_end_def)
qed


end
