(* ===== verification/Isolation.thy ===== *)
theory Isolation
  imports Batch
begin

text \<open>
  Which connections a download uses.  The pool keeps, for every host and port, connections
  that were opened for that host and port, and hands out no other: with TLS a request
  travels on a connection whose handshake was made for the name of its host.  The pools
  may be changed at every await by other tasks that keep this, as they do.
\<close>

declare split_paired_All [simp del] split_paired_Ex [simp del]

section \<open>Programs with a result\<close>

text \<open>A program that keeps an invariant of the world and returns only what satisfies \<open>Q\<close>.\<close>

definition yields :: "('w \<Rightarrow> bool) \<Rightarrow> ('a \<Rightarrow> bool) \<Rightarrow> ('w, 'a) prog \<Rightarrow> bool" where
  "yields I Q m \<longleftrightarrow> (\<forall>w. I w \<longrightarrow> I (snd (m w)) \<and> (\<forall>x w'. m w = (Val x, w') \<longrightarrow> Q x))"

lemma yieldsD: "yields I Q m \<Longrightarrow> I w \<Longrightarrow> m w = (Val x, w') \<Longrightarrow> Q x \<and> I w'"
  unfolding yields_def by (metis snd_conv)

lemma yieldsD': "yields I Q m \<Longrightarrow> I w \<Longrightarrow> I (snd (m w)) \<and> (\<forall>x w'. m w = (Val x, w') \<longrightarrow> Q x)"
  by (simp add: yields_def)

lemma yields_keeps: "yields I Q m \<Longrightarrow> keeps I m"
  by (simp add: yields_def keeps_def)

lemma keeps_yields: "keeps I m \<Longrightarrow> yields I (\<lambda>_. True) m"
  by (simp add: yields_def keeps_def)

lemma yields_ret: "Q x \<Longrightarrow> yields I Q (ret x)"
  by (simp add: yields_def)

lemma yields_and_then:
  assumes "yields I Q m" "\<And>x. Q x \<Longrightarrow> yields I R (f x)"
  shows "yields I R (and_then m f)"
  unfolding yields_def
proof (intro allI impI)
  fix w assume I: "I w"
  obtain r w1 where m: "m w = (r, w1)" by (cases "m w")
  have "I w1" using assms(1) I m unfolding yields_def by (metis snd_conv)
  with assms I m show "I (snd (and_then m f w)) \<and> (\<forall>x w'. and_then m f w = (Val x, w') \<longrightarrow> R x)"
    by (cases r) (auto simp: and_then_def yields_def)
qed

lemmas keeps_then_yields = yields_and_then [OF keeps_yields]

section \<open>Connections of a host\<close>

text \<open>The connection behind a sender of the pool, of a handle, and of a request.\<close>

fun pooled_sender :: "('h2, 'h1) connection_sender \<Rightarrow> ('h2, 'h1) opened_connection option" where
  "pooled_sender (ConnH2 s) = Some (OpenedH2 s)"
| "pooled_sender (ConnH1 s) = map_option OpenedH1 s"

fun handle_connection :: "('h2, 'h1) pool_handle_sender \<Rightarrow> ('h2, 'h1) opened_connection" where
  "handle_connection (HandleH2 s) = OpenedH2 s"
| "handle_connection (HandleH1 s) = OpenedH1 s"

text \<open>\<open>P key c\<close>: the connection \<open>c\<close> was opened for \<open>key\<close>.\<close>

definition own_connections ::
    "(host_key \<Rightarrow> ('h2, 'h1) opened_connection \<Rightarrow> bool) \<Rightarrow> host_key \<Rightarrow> ('h2, 'h1) pooled_connection list \<Rightarrow> bool" where
  "own_connections P key cs \<longleftrightarrow> (\<forall>c \<in> set cs. \<forall>s. pooled_sender (conn_sender c) = Some s \<longrightarrow> P key s)"

definition own_pools ::
    "(host_key \<Rightarrow> ('h2, 'h1) opened_connection \<Rightarrow> bool) \<Rightarrow> ('h2, 'h1, 'n, 'w) pool_world \<Rightarrow> bool" where
  "own_pools P pw \<longleftrightarrow> (\<forall>key hp. fst pw key = Some hp \<longrightarrow> own_connections P key (connections hp))"

definition own_handle ::
    "(host_key \<Rightarrow> ('h2, 'h1) opened_connection \<Rightarrow> bool) \<Rightarrow> host_key \<Rightarrow> ('h2, 'h1) pool_handle \<Rightarrow> bool" where
  "own_handle P key h \<longleftrightarrow> P key (handle_connection (handle_sender h))"

text \<open>What the environment does: other tasks keep the pools as they are meant, and a new connection is one for its host.\<close>

definition own_env ::
    "(host_key \<Rightarrow> ('h2, 'h1) opened_connection \<Rightarrow> bool) \<Rightarrow> ('h2, 'h1, 'n, 'w) pool_env \<Rightarrow> bool" where
  "own_env P env \<longleftrightarrow> keeps (own_pools P) (effect (lock_point env)) \<and>
     (\<forall>d n. keeps (own_pools P) (effect (wait_notified env d n))) \<and>
     (\<forall>host port. yields (own_pools P) (\<lambda>r. \<forall>opened. r = Inr opened \<longrightarrow> P (host, port) opened)
        (open_connection env host port))"

lemma own_envD:
  assumes "own_env P env"
  shows "keeps (own_pools P) (effect (lock_point env))" "keeps (own_pools P) (effect (wait_notified env d n))"
    "yields (own_pools P) (\<lambda>r. \<forall>opened. r = Inr opened \<longrightarrow> P (host, port) opened) (open_connection env host port)"
  using assms by (simp_all add: own_env_def)

lemma own_simps [simp]:
  "own_connections P key []"
  "own_connections P key (c # cs) \<longleftrightarrow>
     (\<forall>s. pooled_sender (conn_sender c) = Some s \<longrightarrow> P key s) \<and> own_connections P key cs"
  "own_connections P key (cs @ ds) \<longleftrightarrow> own_connections P key cs \<and> own_connections P key ds"
  by (auto simp: own_connections_def)

lemma own_subset: "own_connections P key cs \<Longrightarrow> set ds \<subseteq> set cs \<Longrightarrow> own_connections P key ds"
  by (auto simp: own_connections_def)

lemma own_pools_update:
  "own_pools P (pools, w) \<Longrightarrow> own_connections P key (connections hp) \<Longrightarrow> own_pools P (pools(key \<mapsto> hp), w')"
  by (simp add: own_pools_def)

lemma own_pools_remove: "own_pools P (pools, w) \<Longrightarrow> own_pools P (pools(key := None), w')"
  by (simp add: own_pools_def)

lemma own_pools_world: "own_pools P (pools, w) \<Longrightarrow> own_pools P (pools, w')"
  by (simp add: own_pools_def)

section \<open>The pool hands out what it keeps\<close>

text \<open>A program on an entry, with the entry's connections as its invariant.\<close>

abbreviation own_entry ::
    "(host_key \<Rightarrow> ('h2, 'h1) opened_connection \<Rightarrow> bool) \<Rightarrow> host_key \<Rightarrow> ('h2, 'h1, 'n) host_pool \<times> 'w \<Rightarrow> bool" where
  "own_entry P key hw \<equiv> own_connections P key (connections (fst hw))"

lemma on_entry_yields:
  assumes "yields (own_entry P key) Q m" "yields (own_pools P) Q absent"
  shows "yields (own_pools P) Q (on_entry key m absent)"
  unfolding yields_def
proof (intro allI impI)
  fix pw :: "('a, 'b, 'c, 'd) pool_world" assume own: "own_pools P pw"
  obtain pools w where pw: "pw = (pools, w)" by (cases pw)
  show "own_pools P (snd (on_entry key m absent pw)) \<and> (\<forall>x w'. on_entry key m absent pw = (Val x, w') \<longrightarrow> Q x)"
  proof (cases "pools key")
    case None
    with assms(2) own show ?thesis by (simp add: pw on_entry_def yields_def)
  next
    case (Some hp)
    obtain r hp' w' where run: "m (hp, w) = (r, (hp', w'))" by (cases "m (hp, w)") auto
    from own Some have "own_connections P key (connections hp)" by (simp add: pw own_pools_def)
    with assms(1) run have "own_connections P key (connections hp')" "\<And>x. r = Val x \<Longrightarrow> Q x"
      unfolding yields_def by (metis fst_conv snd_conv)+
    with own Some run show ?thesis by (simp add: pw on_entry_def own_pools_update)
  qed
qed

lemma on_entry_keeps:
  "keeps (own_entry P key) m \<Longrightarrow> keeps (own_pools P) absent \<Longrightarrow> keeps (own_pools P) (on_entry key m absent)"
  by (rule yields_keeps [OF on_entry_yields [OF keeps_yields keeps_yields]])

lemma modify_keeps:
  "(\<And>hp. own_connections P key (connections hp) \<Longrightarrow> own_connections P key (connections (g hp))) \<Longrightarrow>
     keeps (own_entry P key) (modify g)"
  by (simp add: keeps_def modify_def split: prod.split)

lemma entry_keeps:
  "keeps (own_entry P key) (dec_opening oc)" "keeps (own_entry P key) (allocate_id oc)"
  "keeps (own_entry P key) (notify_waiter env)"
  by (auto simp: keeps_def dec_opening_def allocate_id_def notify_waiter_def and_then_def
      split: prod.splits outcome.splits)

lemma take_idle_own:
  "take_idle cs = Some (h, cs') \<Longrightarrow> own_connections P key cs \<Longrightarrow> own_handle P key h \<and> own_connections P key cs'"
  by (induction cs arbitrary: h cs')
    (auto simp: own_handle_def split: connection_sender.splits option.splits prod.splits)

lemma put_back_own: "P key (OpenedH1 s) \<Longrightarrow> own_connections P key cs \<Longrightarrow> own_connections P key (put_back i s cs)"
  by (induction cs) (auto split: connection_sender.splits)

definition own_action ::
    "(host_key \<Rightarrow> ('h2, 'h1) opened_connection \<Rightarrow> bool) \<Rightarrow> host_key \<Rightarrow> ('h2, 'h1, 'n) acquire_action \<Rightarrow> bool" where
  "own_action P key a \<longleftrightarrow> (\<forall>h. a = ReturnExisting h \<longrightarrow> own_handle P key h)"

lemma own_action_simps [simp]:
  "own_action P key (ReturnExisting h) = own_handle P key h" "own_action P key (OpenNew f)" "own_action P key (Wait n)"
  by (simp_all add: own_action_def)

lemma reads_yields: "(\<And>w. I w \<Longrightarrow> Q (f w)) \<Longrightarrow> yields I Q (reads f)"
  by (simp add: yields_def reads_def)

lemma scale_or_wait_yields: "yields (own_entry P key) (own_action P key) (scale_or_wait oc cfg)"
  by (auto simp: yields_def scale_or_wait_def and_then_def split: prod.splits outcome.splits if_splits)

lemma h1_action_yields: "yields (own_entry P key) (own_action P key) (h1_action oc cfg)"
  unfolding yields_def
proof (intro allI impI)
  fix hw :: "('a, 'b, 'c) host_pool \<times> 'd" assume own: "own_entry P key hw"
  obtain hp w where hw: "hw = (hp, w)" by (cases hw)
  show "own_entry P key (snd (h1_action oc cfg hw)) \<and> (\<forall>x w'. h1_action oc cfg hw = (Val x, w') \<longrightarrow> own_action P key x)"
  proof (cases "take_idle (connections hp)")
    case None
    with own yieldsD' [OF scale_or_wait_yields, of P key hw oc cfg] show ?thesis by (simp add: hw h1_action_def)
  next
    case (Some r)
    with own take_idle_own [of "connections hp" "fst r" "snd r" P key] show ?thesis
      by (cases r) (simp add: hw h1_action_def and_then_def)
  qed
qed

lemma h2_action_yields: "yields (own_entry P key) (own_action P key) (h2_action oc env cfg)"
  unfolding yields_def
proof (intro allI impI)
  fix hw :: "('a, 'b, 'c) host_pool \<times> 'd" assume own: "own_entry P key hw"
  obtain hp w where hw: "hw = (hp, w)" by (cases hw)
  obtain live w1 where live: "retain_live env (connections hp) w = (Val live, w1)" "subseq live (connections hp)"
    using retain_live_returns [of env "connections hp" w] by blast
  have own_live: "own_connections P key live"
    using own live(2) by (auto simp: hw intro!: own_subset [of P key "connections hp"] dest: subseq_set)
  obtain r w2 where r: "find_ready env live w1 = (Val r, w2)"
    "\<And>h. r = Some h \<Longrightarrow> \<exists>c s. c \<in> set live \<and> conn_sender c = ConnH2 s \<and>
        h = \<lparr>handle_sender = HandleH2 s, connection_id = conn_id c\<rparr>"
    using find_ready_returns [of env live w1] by blast
  have "own_handle P key h" if "r = Some h" for h
    using r(2) [OF that] own_live by (auto simp: own_handle_def own_connections_def)
  then show "own_entry P key (snd (h2_action oc env cfg hw)) \<and> (\<forall>x w'. h2_action oc env cfg hw = (Val x, w') \<longrightarrow> own_action P key x)"
    using yieldsD' [OF scale_or_wait_yields, of P key "(hp\<lparr>connections := live\<rparr>, w2)" oc cfg] own_live
    by (cases r) (simp_all add: hw h2_action_def on_env_def and_then_def live(1) r(1) yields_def)
qed

lemma determine_action_yields: "yields (own_pools P) (own_action P key) (determine_action oc env cfg key)"
  unfolding determine_action_def
proof (rule on_entry_yields)
  show "yields (own_entry P key) (own_action P key)
      (and_then (reads (\<lambda>(hp, w). protocol hp)) (\<lambda>p. case p of
            Http2 \<Rightarrow> h2_action oc env cfg
          | Http1 \<Rightarrow> h1_action oc cfg))"
    by (intro keeps_then_yields keeps_reads) (simp add: h1_action_yields h2_action_yields split: negotiated_protocol.split)
  show "yields (own_pools P) (own_action P key)
      (\<lambda>(pools, w). case new_notify env w of
          (n, w') \<Rightarrow> (Val (OpenNew True), (pools(key \<mapsto> new_host_pool n), w')))"
    by (auto simp: yields_def new_host_pool_def intro!: own_pools_update split: prod.splits)
qed

lemma insert_opened_yields:
  assumes "P key opened"
  shows "yields (own_pools P) (\<lambda>r. \<forall>h. r = Inr h \<longrightarrow> own_handle P key h) (insert_opened oc key is_first opened)"
proof -
  obtain hs ps where so: "split_opened opened = (hs, ps)" by (cases "split_opened opened")
  have own: "P key (handle_connection hs)" "\<And>s. pooled_sender ps = Some s \<Longrightarrow> P key s"
    using assms so by (cases opened; auto simp: split_opened_def)+
  show ?thesis
    unfolding insert_opened_def so prod.case
    by (intro on_entry_yields keeps_then_yields entry_keeps modify_keeps yields_ret)
      (simp_all add: own own_handle_def split: if_split)
qed

lemma fail_opened_keeps: "keeps (own_pools P) (fail_opened oc env key)"
proof -
  have dec: "keeps (own_pools P) (on_entry key (dec_opening oc) (ret ()))"
    and told: "keeps (own_pools P) (on_entry key (notify_waiter env) (ret ()))"
    by (intro on_entry_keeps entry_keeps keeps_ret)+
  show ?thesis
    unfolding fail_opened_def
  proof (intro keeps_and_then dec keepsI)
    fix pw :: "('a, 'b, 'c, 'd) pool_world" assume own: "own_pools P pw"
    from own keepsD [OF told own] show "own_pools P (snd ((\<lambda>(pools, w). case pools key of
         None \<Rightarrow> (Val (), (pools, w))
       | Some hp \<Rightarrow>
           if connections hp = [] \<and> opening_count hp = 0
           then (Val (), (pools(key := None), w))
           else on_entry key (notify_waiter env) (ret ()) (pools, w)) pw))"
      by (cases pw) (simp add: own_pools_remove split: option.split)
  qed
qed

lemma open_and_insert_yields:
  assumes "own_env P env"
  shows "yields (own_pools P) (\<lambda>r. \<forall>h. r = Inr h \<longrightarrow> own_handle P key h) (open_and_insert oc env key is_first)"
proof -
  note env = own_envD [OF assms]
  show ?thesis
    unfolding open_and_insert_def
  proof (rule yields_and_then [OF env(3)])
    fix r :: "download_error + ('a, 'b) opened_connection" assume "\<forall>opened. r = Inr opened \<longrightarrow> P (fst key, snd key) opened"
    then show "yields (own_pools P) (\<lambda>r. \<forall>h. r = Inr h \<longrightarrow> own_handle P key h)
       (case r of
         Inr opened \<Rightarrow>
           and_then (effect (lock_point env)) (\<lambda>_. insert_opened oc key is_first opened)
       | Inl e \<Rightarrow>
           and_then (effect (lock_point env)) (\<lambda>_.
           and_then (fail_opened oc env key) (\<lambda>_. ret (Inl e))))"
      by (auto simp del: and_then_effect ret_apply split: sum.split
          intro!: keeps_then_yields env(1) insert_opened_yields fail_opened_keeps yields_ret)
  qed
qed

lemma acquire_yields:
  assumes "own_env P env"
  shows "yields (own_pools P) (\<lambda>r. \<forall>h. r = Inr h \<longrightarrow> own_handle P (host, port) h) (acquire oc env cfg host port)"
proof -
  note env = own_envD [OF assms]
  have "yields (own_pools P) (\<lambda>r. \<forall>h. r = Inr h \<longrightarrow> own_handle P key h) (acquire_loop oc env cfg key n)" for key n
  proof (induction n)
    case 0
    show ?case by (simp add: yields_def)
  next
    case (Suc n)
    show ?case
      unfolding acquire_loop.simps
    proof (rule keeps_then_yields [OF env(1)], rule yields_and_then [OF determine_action_yields])
      fix a :: "('a, 'b, 'c) acquire_action" assume "own_action P key a"
      then show "yields (own_pools P) (\<lambda>r. \<forall>h. r = Inr h \<longrightarrow> own_handle P key h)
         (case a of
           ReturnExisting h \<Rightarrow> ret (Inr h)
         | OpenNew is_first \<Rightarrow> open_and_insert oc env key is_first
         | Wait nt \<Rightarrow> and_then (effect (wait_notified env notify_wait_timeout nt)) (\<lambda>_. acquire_loop oc env cfg key n))"
        using Suc.IH open_and_insert_yields [OF assms]
        by (cases a) (simp_all add: yields_ret keeps_then_yields env(2) del: and_then_effect ret_apply)
    qed
  qed
  then show ?thesis by (simp add: acquire_def)
qed

lemma give_back_own:
  assumes "own_handle P key h"
  shows "keeps (own_pools P) (give_back env key h usable)"
proof -
  have "keeps (own_pools P) (return_h1_connection env key i s)" if "P key (OpenedH1 s)" for i s
    unfolding return_h1_connection_def
    by (intro on_entry_keeps keeps_and_then entry_keeps keeps_ret modify_keeps)
      (simp add: put_back_own [of P key s, OF that])
  moreover have "keeps (own_pools P) (remove_dead_connection env key i)" for i
    unfolding remove_dead_connection_def
    by (intro on_entry_keeps keeps_and_then entry_keeps keeps_ret modify_keeps)
      (auto intro: own_subset)
  moreover have "keeps (own_pools P) (notify_h2_complete env key)"
    unfolding notify_h2_complete_def by (intro on_entry_keeps entry_keeps keeps_ret)
  ultimately show ?thesis
    using assms by (auto simp: give_back_def own_handle_def split: pool_handle_sender.split)
qed

lemma finish_connection_own:
  "own_env P env \<Longrightarrow> own_handle P key h \<Longrightarrow> keeps (own_pools P) (finish_connection env key h usable)"
  unfolding finish_connection_def by (intro keeps_and_then own_envD give_back_own)

section \<open>What a new connection is\<close>

text \<open>
  A connection that \<open>open_connection_inner\<close> returned for a key; and one over a TLS session
  that was set up for the name of the host, with the shared configuration.
\<close>

definition opened_for ::
    "('ip, 'w) dns_env \<Rightarrow> ('ip, 'tcp, 'sn, 'cfg, 'tls, 'h2, 'h1, 'w) net_ops \<Rightarrow> 'cfg connection_pool \<Rightarrow>
     host_key \<Rightarrow> ('h2, 'h1) opened_connection \<Rightarrow> bool" where
  "opened_for dns net cp key opened \<longleftrightarrow>
     (\<exists>s s'. open_connection_inner dns net cp (fst key) (snd key) s = (Val (Inr opened), s'))"

definition over_tls ::
    "('ip, 'tcp, 'sn, 'cfg, 'tls, 'h2, 'h1, 'w) net_ops \<Rightarrow> 'cfg connection_pool \<Rightarrow> rstr \<Rightarrow>
     ('h2, 'h1) opened_connection \<Rightarrow> bool" where
  "over_tls net cp host opened \<longleftrightarrow> (\<exists>sn stream tls s1 s2 s3. server_name net host = Inr sn \<and>
     tls_connect net (cp_tls_config cp) sn stream s1 = (Val (Inr tls), s2) \<and>
     (case opened of
        OpenedH2 s \<Rightarrow> h2_handshake net (http2_options (cp_config cp)) tls s2 = (Val (Inr s), s3)
      | OpenedH1 s \<Rightarrow> h1_handshake net tls s2 = (Val (Inr s), s3)))"

lemma tls_connection_over_tls:
  assumes "tls_connection net cp host stream s = (Val (Inr opened), s')"
  shows "over_tls net cp host opened"
proof -
  obtain sn tls s1 where sn: "server_name net host = Inr sn"
    and tls: "tls_connect net (cp_tls_config cp) sn stream s = (Val (Inr tls), s1)"
    and rest: "(case negotiated (alpn_protocol net tls) of
       Http2 \<Rightarrow> try_then (try_map_err (h2_handshake net (http2_options (cp_config cp)) tls) h2_handshake_error) (\<lambda>s.
                ret (Inr (OpenedH2 s)))
     | Http1 \<Rightarrow> try_then (try_map_err (h1_handshake net tls) h1_handshake_error) (\<lambda>s.
                ret (Inr (OpenedH1 s)))) s1 = (Val (Inr opened), s')"
    using assms by (auto simp: tls_connection_def try_then_eq_Val try_map_err_eq_Val)
  have "case opened of
        OpenedH2 s \<Rightarrow> h2_handshake net (http2_options (cp_config cp)) tls s1 = (Val (Inr s), s')
      | OpenedH1 s \<Rightarrow> h1_handshake net tls s1 = (Val (Inr s), s')"
    using rest
    by (auto simp: try_then_eq_Val try_map_err_eq_Val split: negotiated_protocol.splits)
  with sn tls show ?thesis unfolding over_tls_def by blast
qed

lemma opened_for_over_tls:
  assumes "opened_for dns net cp (host, port) opened" "\<not> cp_plain_mode cp"
  shows "over_tls net cp host opened"
proof -
  obtain s s' where "open_connection_inner dns net cp host port s = (Val (Inr opened), s')"
    using assms(1) by (auto simp: opened_for_def)
  then show ?thesis
    using assms(2) tls_connection_over_tls by (fastforce simp: open_connection_inner_def try_then_eq_Val)
qed

text \<open>With \<open>open_connection_inner\<close> as the source of connections only the awaits are left to assume.\<close>

definition own_awaits ::
    "(host_key \<Rightarrow> ('h2, 'h1) opened_connection \<Rightarrow> bool) \<Rightarrow> ('h2, 'h1, 'n, 'w) pool_env \<Rightarrow> bool" where
  "own_awaits P env \<longleftrightarrow> (\<forall>pw. own_pools P pw \<longrightarrow> own_pools P (lock_point env pw)) \<and>
     (\<forall>d n pw. own_pools P pw \<longrightarrow> own_pools P (wait_notified env d n pw))"

lemma connected_env_own:
  "own_awaits (opened_for dns net (dl_pool dl)) env \<Longrightarrow>
     own_env (opened_for dns net (dl_pool dl)) (connected_env dns net dl env)"
  by (auto simp: own_env_def own_awaits_def connected_env_def keeps_effect yields_def on_env_def opened_for_def
      dest: own_pools_world split: prod.splits)

section \<open>Senders that a request does not use\<close>

text \<open>The same requests with other operations on senders.\<close>

definition with_senders ::
    "('h2, 'h1, 'req, 'uri, 'hm, 'body, 'w) http_ops \<Rightarrow> (('h2, 'h1) sender \<Rightarrow> ('w, rstr + unit) prog) \<Rightarrow>
     (('h2, 'h1) sender \<Rightarrow> 'req \<Rightarrow> ('w, rstr + ('hm, 'body) http_response) prog) \<Rightarrow>
     ('h2, 'h1, 'req, 'uri, 'hm, 'body, 'w) http_ops" where
  "with_senders ht ready send = ht\<lparr>sender_ready := ready, sender_send := send\<rparr>"

lemma with_senders_simps [simp]:
  "build_request (with_senders ht ready send) = build_request ht" "collect_body (with_senders ht ready send) = collect_body ht"
  "status_is_success (with_senders ht ready send) = status_is_success ht"
  "timeout_within (with_senders ht ready send) = timeout_within ht" "http_now (with_senders ht ready send) = http_now ht"
  "sender_ready (with_senders ht ready send) = ready" "sender_send (with_senders ht ready send) = send"
  by (simp_all add: with_senders_def)

lemma redirect_loop_senders:
  assumes "ready s = sender_ready ht s" "send s = sender_send ht s"
  shows "redirect_loop oc us ho (with_senders ht ready send) s host rc fuel current n = redirect_loop oc us ho ht s host rc fuel current n"
proof (induction fuel arbitrary: current n)
  case 0
  show ?case by simp
next
  case (Suc fuel)
  have same: "send_request (with_senders ht ready send) s = send_request ht s"
    "redirect_step oc us ho (with_senders ht ready send) = redirect_step oc us ho ht"
    "error_response ho (with_senders ht ready send) = error_response ho ht"
    "success_response (with_senders ht ready send) = success_response ht"
    by (intro ext, simp only: send_request_def redirect_step_def error_response_def success_response_def
        with_senders_simps assms)+
  show ?case unfolding redirect_loop.simps same Suc.IH with_senders_simps ..
qed

lemma execute_request_senders:
  "ready s = sender_ready ht s \<Longrightarrow> send s = sender_send ht s \<Longrightarrow>
     execute_request oc us ho (with_senders ht ready send) s uri host rc fuel = execute_request oc us ho ht s uri host rc fuel"
  unfolding execute_request_def execute_with_redirects_def with_senders_simps by (simp only: redirect_loop_senders)

fun sender_connection :: "('h2, 'h1) sender \<Rightarrow> ('h2, 'h1) opened_connection" where
  "sender_connection (SenderH2 s) = OpenedH2 s"
| "sender_connection (SenderH1 s) = OpenedH1 s"

lemma sender_from_connection [simp]: "sender_connection (sender_from hs) = handle_connection hs"
  by (cases hs) simp_all

section \<open>Properties\<close>

text \<open>
  C12.  A connection that \<open>acquire\<close> hands out for a host and port is one that was opened for
  them: with TLS, its session was set up for the name of that host, under the shared
  configuration.  The pools stay that way, while the connection is used and when it is given
  back, whatever became of it.
\<close>
theorem connections_belong_to_host:
  assumes "own_awaits (opened_for dns net (dl_pool dl)) env" "own_pools (opened_for dns net (dl_pool dl)) pw"
    and "acquire oc (connected_env dns net dl env) cfg host port pw = (Val (Inr h), pw')"
  shows "own_handle (opened_for dns net (dl_pool dl)) (host, port) h \<and>
     (\<not> cp_plain_mode (dl_pool dl) \<longrightarrow> over_tls net (dl_pool dl) host (handle_connection (handle_sender h))) \<and>
     own_pools (opened_for dns net (dl_pool dl)) pw' \<and>
     own_pools (opened_for dns net (dl_pool dl))
       (snd (finish_connection (connected_env dns net dl env) (host, port) h usable pw'))"
proof -
  note own = connected_env_own [OF assms(1)]
  from yieldsD [OF acquire_yields [OF own] assms(2,3)]
  have "own_handle (opened_for dns net (dl_pool dl)) (host, port) h" "own_pools (opened_for dns net (dl_pool dl)) pw'"
    by simp_all
  then show ?thesis
    using opened_for_over_tls [of dns net "dl_pool dl" host port]
      keepsD [OF finish_connection_own [OF own]] by (auto simp: own_handle_def)
qed

text \<open>
  C13.  A request of a download is sent on connections of its own host and port only: what
  the senders of other hosts would do has no influence on it, whatever redirects, errors and
  timeouts it meets.
\<close>
theorem requests_stay_on_host:
  assumes "own_env P (de_pool de)" "own_pools P pw"
    and "\<And>s. P (host, port) (sender_connection s) \<Longrightarrow> ready s = sender_ready (de_http de) s \<and> send s = sender_send (de_http de) s"
  shows "fetch oc (de\<lparr>de_http := with_senders (de_http de) ready send\<rparr>) cfg fuel rc uri host port pw =
     fetch oc de cfg fuel rc uri host port pw"
proof -
  obtain r pw1 where run: "acquire oc (de_pool de) cfg host port pw = (r, pw1)"
    by (cases "acquire oc (de_pool de) cfg host port pw")
  have same: "execute_request oc us ho (with_senders (de_http de) ready send) (sender_from (handle_sender h)) uri host rc fuel =
      execute_request oc us ho (de_http de) (sender_from (handle_sender h)) uri host rc fuel"
    if "r = Val (Inr h)" for h us ho
  proof -
    have "own_handle P (host, port) h"
      using yieldsD [OF acquire_yields [OF assms(1)] assms(2) run [unfolded that]] by simp
    then show ?thesis
      using assms(3) [of "sender_from (handle_sender h)"] by (intro execute_request_senders) (simp_all add: own_handle_def)
  qed
  show ?thesis
  proof (cases "\<exists>h. r = Val (Inr h)")
    case True
    then obtain h where h: "r = Val (Inr h)" by blast
    have fields: "de_pool (de\<lparr>de_http := ht\<rparr>) = de_pool de" "de_uri (de\<lparr>de_http := ht\<rparr>) = de_uri de"
      "de_headers (de\<lparr>de_http := ht\<rparr>) = de_headers de" "de_http (de\<lparr>de_http := ht\<rparr>) = ht" for ht
      by simp_all
    show ?thesis
      unfolding fetch_def fields try_then_def and_then_def by (simp add: run h same [OF h])
  next
    case False
    then show ?thesis by (cases r) (auto simp: fetch_def try_then_def and_then_def run split: sum.split)
  qed
qed

section \<open>Witnesses\<close>

text \<open>The demo server over TLS, with a pool that no other task uses.\<close>

definition solo_env :: "(nat, nat, unit, (nat, nat) dns_world) pool_env" where
  "solo_env = \<lparr>poll_ready = (\<lambda>s w. (PollReadyOk, w)), new_notify = (\<lambda>w. ((), w)), notify_one = (\<lambda>n w. w),
     lock_point = (\<lambda>pw. pw), wait_notified = (\<lambda>d n pw. pw),
     open_connection = (\<lambda>host port. ret (Inl Timeout))\<rparr>"

definition demo_tls :: "unit downloader" where
  "demo_tls = \<lparr>dl_pool = pool_new config_default (), dl_config = config_default\<rparr>"

lemma demo_opens:
  "\<exists>s. open_connection_inner demo_dns demo_net (pool_new config_default ()) (lit ''h'') 443 (dns_new (from_secs 1), 0) =
     (Val (Inr (OpenedH2 5)), s)"
  by (simp add: open_connection_inner_def resolve_def resolve_miss_def cache_insert_def and_then_def try_then_def
      demo_dns_def dns_new_def read_clock_def on_env_def instant_add_def instant_limit_def tcp_stream_def
      demo_net_def pool_new_def tls_connection_def try_map_err_def map_err_def negotiated_def as_bytes_def utf8_char_def)

lemma demo_acquires:
  "\<exists>pw'. acquire True (connected_env demo_dns demo_net demo_tls solo_env) config_default (lit ''h'') 443
      (Map.empty, (dns_new (from_secs 1), 0)) =
     (Val (Inr \<lparr>handle_sender = HandleH2 5, connection_id = 0\<rparr>), pw')"
proof -
  obtain s where "open_connection_inner demo_dns demo_net (pool_new config_default ()) (lit ''h'') 443
      (dns_new (from_secs 1), 0) = (Val (Inr (OpenedH2 5)), s)"
    using demo_opens by blast
  then have loop: "\<exists>pw'. acquire_loop True (connected_env demo_dns demo_net demo_tls solo_env) config_default (lit ''h'', 443) (Suc n)
      (Map.empty, (dns_new (from_secs 1), 0)) =
      (Val (Inr \<lparr>handle_sender = HandleH2 5, connection_id = 0\<rparr>), pw')" for n
    by (simp add: determine_action_def on_entry_def new_host_pool_def
        connected_env_def solo_env_def demo_tls_def open_and_insert_def on_env_def insert_opened_def dec_opening_def
        allocate_id_def split_opened_def opened_protocol_def and_then_def usize_add_def)
  have attempts: "max_acquire_attempts = Suc 31" by (simp add: max_acquire_attempts_def)
  show ?thesis unfolding acquire_def attempts by (rule loop)
qed

theorem connections_belong_to_host_witness:
  "over_tls demo_net (pool_new config_default ()) (lit ''h'') (OpenedH2 5)"
proof -
  have "own_awaits P solo_env" for P by (simp add: own_awaits_def solo_env_def)
  moreover have "own_pools P (Map.empty, (dns_new (from_secs 1), 0))" for P by (simp add: own_pools_def)
  moreover obtain pw' where "acquire True (connected_env demo_dns demo_net demo_tls solo_env) config_default (lit ''h'') 443
      (Map.empty, (dns_new (from_secs 1), 0)) = (Val (Inr \<lparr>handle_sender = HandleH2 5, connection_id = 0\<rparr>), pw')"
    using demo_acquires by blast
  ultimately have "\<not> cp_plain_mode (dl_pool demo_tls) \<longrightarrow>
      over_tls demo_net (dl_pool demo_tls) (lit ''h'') (handle_connection (HandleH2 5))"
    using connections_belong_to_host by fastforce
  then show ?thesis by (simp add: demo_tls_def pool_new_def)
qed

text \<open>A server whose HTTP/2 senders would panic, when all its connections are HTTP/1.1.\<close>

definition only_h1 :: "(unit, unit) sender \<Rightarrow> ('w, 'a) prog \<Rightarrow> ('w, 'a) prog" where
  "only_h1 s m = (case s of SenderH1 _ \<Rightarrow> m | SenderH2 _ \<Rightarrow> lift_outcome Panic)"

theorem requests_stay_on_host_witness:
  "fetch True (demo_download\<lparr>de_http := with_senders (de_http demo_download)
       (\<lambda>s. only_h1 s (sender_ready (de_http demo_download) s)) (\<lambda>s r. only_h1 s (sender_send (de_http demo_download) s r))\<rparr>)
     config_default 256 \<lparr>rc_user_agent = [], rc_request_timeout = dur_zero, rc_max_redirects = 5\<rparr> (lit ''h'', 80) (lit ''h'') 80 (Map.empty, 0) =
   fetch True demo_download config_default 256 \<lparr>rc_user_agent = [], rc_request_timeout = dur_zero, rc_max_redirects = 5\<rparr>
     (lit ''h'', 80) (lit ''h'') 80 (Map.empty, 0)"
proof (rule requests_stay_on_host [where P = "\<lambda>key c. c = OpenedH1 ()"])
  show "own_env (\<lambda>key c. c = OpenedH1 ()) (de_pool demo_download)"
    by (simp add: own_env_def demo_pool_def keeps_effect yields_def)
  show "own_pools (\<lambda>key c. c = OpenedH1 ()) (Map.empty, 0)" by (simp add: own_pools_def)
  fix s :: "(unit, unit) sender" assume "sender_connection s = OpenedH1 ()"
  then have "s = SenderH1 ()" by (cases s) simp_all
  then show "only_h1 s (sender_ready (de_http demo_download) s) = sender_ready (de_http demo_download) s \<and>
     (\<lambda>r. only_h1 s (sender_send (de_http demo_download) s r)) = sender_send (de_http demo_download) s"
    by (simp add: only_h1_def)
qed

end
