(* ===== verification/Recovery.thy ===== *)
theory Recovery
  imports Batch
begin

text \<open>
  When a download succeeds: transient failures are retried, and the first response that is
  complete is saved, with as many retries left as the configuration allows.
\<close>

declare split_paired_All [simp del] split_paired_Ex [simp del]

section \<open>The first success of the retry loop\<close>

text \<open>The calls before number \<open>k\<close> fail with errors that are retried, and that call returns \<open>x\<close>.\<close>

definition succeeds_after ::
    "'w retry_env \<Rightarrow> duration \<Rightarrow> ('w, download_error + 'a) prog \<Rightarrow> 'w \<Rightarrow> nat \<Rightarrow> 'a \<Rightarrow> 'w \<Rightarrow> bool" where
  "succeeds_after env base op w k x w' \<longleftrightarrow>
     (\<forall>j < k. \<exists>e v. call env base op w j = (Val (Inl e), v) \<and> is_retryable e) \<and>
     call env base op w k = (Val (Inr x), w')"

lemma with_retry_succeeds:
  assumes "succeeds_after env base op w k x w'" "k \<le> unat (maxr :: u32)"
  shows "with_retry oc env maxr base op w = (Val (Inr x, of_nat k), w')"
proof -
  have "k < 2 ^ 32" using assms(2) unsigned_less [of maxr, where 'a = nat] by simp
  then have k: "unat (of_nat k :: u32) = k" by (simp add: unat_of_nat take_bit_nat_eq_self)
  have "retried (fst (call env base op w j))" if "j < k" for j
    using assms(1) that by (fastforce simp: succeeds_after_def retried_def)
  then show ?thesis
    using assms unfolding with_retry_iff k by (simp add: succeeds_after_def retried_def)
qed

section \<open>Saving\<close>

text \<open>The response passes validation, its file and, when asked for, its sidecar are written.\<close>

definition can_be_saved ::
    "bool \<Rightarrow> ('h2, 'h1, 'n, 'w, 'req, 'uri, 'pq, 'hm, 'hv, 'body) download_env \<Rightarrow> config \<Rightarrow> path \<Rightarrow> rstr \<Rightarrow> nat \<Rightarrow>
     'hm response_data \<Rightarrow> rstr \<Rightarrow> ('h2, 'h1, 'n, 'w) pool_world \<Rightarrow> bool" where
  "can_be_saved oc de cfg dir u i data name w \<longleftrightarrow>
     validate_response (de_headers de) (rd_bytes data) (rd_headers data) = Inr () \<and>
     generate_filename oc (de_sha256 de) u i (rd_bytes data) (naming_strategy cfg) = Val name \<and>
     (\<exists>w1. fs_write (de_fs de) (path_join dir name) (rd_bytes data) w = (Val (Inr ()), w1) \<and>
        (\<exists>t w2. de_now de w1 = (Val t, w2) \<and>
           (config.write_metadata cfg \<longrightarrow> (\<forall>hash el. \<exists>w3.
              save_metadata de (path_join dir name) u name data hash el w2 = (Val (), w3)))))"

lemma save_response_succeeds:
  assumes "can_be_saved oc de cfg dir u i data name w"
  shows "\<exists>el w'. save_response oc de cfg dir u i start n data w =
     (Val (u, \<lparr>url = u, outcome = Success (path_join dir name) (of_nat (length (rd_bytes data)))
        (content_hash_of (de_sha256 de) cfg (rd_bytes data)) el\<rparr>), w')"
proof -
  obtain w1 t w2 where written: "fs_write (de_fs de) (path_join dir name) (rd_bytes data) w = (Val (Inr ()), w1)"
    and now: "de_now de w1 = (Val t, w2)"
    and sidecar: "config.write_metadata cfg \<Longrightarrow> \<forall>hash el. \<exists>w3.
       save_metadata de (path_join dir name) u name data hash el w2 = (Val (), w3)"
    using assms by (auto simp: can_be_saved_def)
  define hash where "hash = content_hash_of (de_sha256 de) cfg (rd_bytes data)"
  have "\<exists>w3. (if config.write_metadata cfg
      then save_metadata de (path_join dir name) u name data hash (instant_since t start) else ret ()) w2 = (Val (), w3)"
    using sidecar by simp
  then obtain w3 where "(if config.write_metadata cfg
      then save_metadata de (path_join dir name) u name data hash (instant_since t start) else ret ()) w2 = (Val (), w3)"
    by blast
  with assms written now show ?thesis
    by (intro exI [of _ "instant_since t start"] exI [of _ w3])
      (simp add: can_be_saved_def save_response_def write_image_def elapsed_since_def and_then_def Let_def hash_def [symmetric])
qed

section \<open>Properties\<close>

text \<open>
  C3.  Transient failures are recovered from: if the first \<open>k\<close> attempts to fetch a URL fail
  with errors that are retried, \<open>k\<close> being at most \<open>max_retries\<close>, and the next one returns a
  response that can be validated, named and written, then the download succeeds, with the
  size and hash of that response and the path of its name, and its permits are released.
\<close>
theorem transient_failures_recovered:
  assumes "de_now de w = (Val start, w0)" "request_target (de_uri de) u = Inr (uri, host, port)"
    and "rc = \<lparr>rc_user_agent = user_agent cfg, rc_request_timeout = request_timeout cfg, rc_max_redirects = max_redirects cfg\<rparr>"
    and "succeeds_after (de_retry de) (retry_base_delay cfg) (fetch oc de cfg fuel rc uri host port)
       (wait_permit de (Some host) (wait_permit de None w0)) k (Response data) w1"
    and "k \<le> unat (max_retries cfg)" "can_be_saved oc de cfg dir u i data name w1"
  shows "\<exists>el w'. download_one oc de cfg fuel dir u i w =
     (Val (u, \<lparr>url = u, outcome = Success (path_join dir name) (of_nat (length (rd_bytes data)))
        (content_hash_of (de_sha256 de) cfg (rd_bytes data)) el\<rparr>), release_permits de host w')"
proof -
  have "obtain_response oc de cfg fuel uri host port (wait_permit de (Some host) (wait_permit de None w0)) =
      (Val (Inr data, of_nat k), w1)"
    by (simp add: obtain_response_def assms(3) [symmetric] and_then_def with_retry_succeeds [OF assms(4,5)] accept_result_def)
  moreover obtain el w' where "save_response oc de cfg dir u i start (of_nat k) data w1 =
     (Val (u, \<lparr>url = u, outcome = Success (path_join dir name) (of_nat (length (rd_bytes data)))
        (content_hash_of (de_sha256 de) cfg (rd_bytes data)) el\<rparr>), w')"
    using save_response_succeeds [OF assms(6)] by blast
  ultimately show ?thesis
    by (intro exI [of _ el] exI [of _ w']) (simp add: download_one_def and_then_def assms(1,2) with_permits_def)
qed

section \<open>Witness\<close>

text \<open>The demo server, whose first connection is dead.\<close>

definition flaky_download ::
    "(unit, unit, unit, nat, unit, rstr \<times> u16, rstr, (rstr \<times> bytes) list, bytes, unit) download_env" where
  "flaky_download = demo_download\<lparr>de_http := (de_http demo_download)\<lparr>sender_ready :=
     (\<lambda>s (pools, n). (Val (if n = 0 then Inl (lit ''closed'') else Inr ()), (pools, Suc n)))\<rparr>\<rparr>"

lemma flaky_simps [simp]:
  "de_pool flaky_download = demo_pool" "de_uri flaky_download = demo_uri" "de_headers flaky_download = demo_headers"
  "de_retry flaky_download = de_retry demo_download" "de_now flaky_download = ret 0" "de_fs flaky_download = de_fs demo_download"
  "wait_permit flaky_download h w = w" "release_permits flaky_download host w = w" "de_sha256 flaky_download = de_sha256 demo_download"
  by (simp_all add: flaky_download_def)

lemma flaky_request:
  "execute_request True demo_uri demo_headers (de_http flaky_download) s uri host rc (Suc fuel) (pools, n) =
     (if n = 0 then (Val (Inl (ConnectionFailed (lit ''sender not ready: closed''))), (pools, 1))
      else (Val (Inr (Response \<lparr>rd_bytes = [255, 216, 255], rd_headers = [], rd_elapsed = instant_since 0 0\<rparr>)), (pools, n + 2)))"
  by (simp add: flaky_download_def demo_download_def execute_request_def execute_with_redirects_def redirect_loop.simps(2)
      send_request_def try_then_def and_then_def try_map_err_def map_err_def is_redirect_def success_response_def request_error_def)

definition flaky_pool :: "(unit, unit) pooled_connection list \<Rightarrow> usize \<Rightarrow> (unit, unit, unit) host_pool" where
  "flaky_pool cs n = \<lparr>protocol = Http1, connections = cs, notify = (), opening_count = 0, next_id = n\<rparr>"

definition at_host :: "(unit, unit, unit) host_pool \<Rightarrow> (unit, unit, unit) host_pools" where
  "at_host hp = [(lit ''h'', 80) \<mapsto> hp]"

lemma flaky_acquire:
  "acquire True demo_pool config_default (lit ''h'') 80 (Map.empty, n) =
     (Val (Inr \<lparr>handle_sender = HandleH1 (), connection_id = 0\<rparr>),
      (at_host (flaky_pool [\<lparr>conn_id = 0, conn_sender = ConnH1 None\<rparr>] (Suc 0)), n))"
  "acquire True demo_pool config_default (lit ''h'') 80 (at_host (flaky_pool [] (Suc 0)), n) =
     (Val (Inr \<lparr>handle_sender = HandleH1 (), connection_id = Suc 0\<rparr>),
      (at_host (flaky_pool [\<lparr>conn_id = Suc 0, conn_sender = ConnH1 None\<rparr>] (Suc (Suc 0))), n))"
proof -
  have loop: "acquire_loop True demo_pool config_default (lit ''h'', 80) (Suc k) (Map.empty, n) =
     (Val (Inr \<lparr>handle_sender = HandleH1 (), connection_id = 0\<rparr>),
      (at_host (flaky_pool [\<lparr>conn_id = 0, conn_sender = ConnH1 None\<rparr>] (Suc 0)), n))"
    "acquire_loop True demo_pool config_default (lit ''h'', 80) (Suc k) (at_host (flaky_pool [] (Suc 0)), n) =
     (Val (Inr \<lparr>handle_sender = HandleH1 (), connection_id = Suc 0\<rparr>),
      (at_host (flaky_pool [\<lparr>conn_id = Suc 0, conn_sender = ConnH1 None\<rparr>] (Suc (Suc 0))), n))" for k
    by (simp_all add: determine_action_def on_entry_def and_then_def h1_action_def scale_or_wait_def total_count_def
        open_and_insert_def insert_opened_def dec_opening_def allocate_id_def new_host_pool_def split_opened_def
        opened_protocol_def usize_sub_def usize_add_def demo_pool_def flaky_pool_def at_host_def config_default_def del: lit_simps)
  have attempts: "max_acquire_attempts = Suc 31" by (simp add: max_acquire_attempts_def)
  show
    "acquire True demo_pool config_default (lit ''h'') 80 (Map.empty, n) =
     (Val (Inr \<lparr>handle_sender = HandleH1 (), connection_id = 0\<rparr>),
      (at_host (flaky_pool [\<lparr>conn_id = 0, conn_sender = ConnH1 None\<rparr>] (Suc 0)), n))"
    "acquire True demo_pool config_default (lit ''h'') 80 (at_host (flaky_pool [] (Suc 0)), n) =
     (Val (Inr \<lparr>handle_sender = HandleH1 (), connection_id = Suc 0\<rparr>),
      (at_host (flaky_pool [\<lparr>conn_id = Suc 0, conn_sender = ConnH1 None\<rparr>] (Suc (Suc 0))), n))"
    unfolding acquire_def attempts by (rule loop)+
qed

lemma flaky_finish:
  "finish_connection demo_pool (lit ''h'', 80) \<lparr>handle_sender = HandleH1 (), connection_id = i\<rparr> usable
     (at_host (flaky_pool [\<lparr>conn_id = i, conn_sender = ConnH1 None\<rparr>] k), n) =
   (Val (), (at_host (flaky_pool (if usable then [\<lparr>conn_id = i, conn_sender = ConnH1 (Some ())\<rparr>] else []) k), n))"
  by (simp add: finish_connection_def give_back_def return_h1_eq remove_dead_eq at_host_def flaky_pool_def demo_pool_def and_then_def del: lit_simps)

definition flaky_data :: "(rstr \<times> bytes) list response_data" where
  "flaky_data = \<lparr>rd_bytes = [255, 216, 255], rd_headers = [], rd_elapsed = instant_since 0 0\<rparr>"

lemma flaky_fetch:
  "fetch True flaky_download config_default 256 rc uri (lit ''h'') 80 (Map.empty, 0) =
     (Val (Inl (ConnectionFailed (lit ''sender not ready: closed''))), (at_host (flaky_pool [] (Suc 0)), Suc 0))"
  "fetch True flaky_download config_default 256 rc uri (lit ''h'') 80 (at_host (flaky_pool [] (Suc 0)), Suc 0) =
     (Val (Inr (Response flaky_data)), (at_host (flaky_pool [\<lparr>conn_id = Suc 0, conn_sender = ConnH1 (Some ())\<rparr>] (Suc (Suc 0))), 3))"
proof -
  have request: "execute_request True demo_uri demo_headers (de_http flaky_download) s uri host rc 256 (pools, n) =
     (if n = 0 then (Val (Inl (ConnectionFailed (lit ''sender not ready: closed''))), (pools, 1))
      else (Val (Inr (Response \<lparr>rd_bytes = [255, 216, 255], rd_headers = [], rd_elapsed = instant_since 0 0\<rparr>)), (pools, n + 2)))"
    for s uri host rc pools n
    using flaky_request [where fuel = 255] by (simp del: lit_simps)
  show "fetch True flaky_download config_default 256 rc uri (lit ''h'') 80 (Map.empty, 0) =
     (Val (Inl (ConnectionFailed (lit ''sender not ready: closed''))), (at_host (flaky_pool [] (Suc 0)), Suc 0))"
    "fetch True flaky_download config_default 256 rc uri (lit ''h'') 80 (at_host (flaky_pool [] (Suc 0)), Suc 0) =
     (Val (Inr (Response flaky_data)), (at_host (flaky_pool [\<lparr>conn_id = Suc 0, conn_sender = ConnH1 (Some ())\<rparr>] (Suc (Suc 0))), 3))"
    unfolding fetch_def try_then_def and_then_def
    by (simp_all add: flaky_acquire request flaky_finish result_usable_def flaky_data_def del: lit_simps)
qed

lemma flaky_succeeds:
  "succeeds_after (de_retry flaky_download) base (fetch True flaky_download config_default 256 rc uri (lit ''h'') 80) (Map.empty, 0) 1
     (Response flaky_data) (at_host (flaky_pool [\<lparr>conn_id = Suc 0, conn_sender = ConnH1 (Some ())\<rparr>] (Suc (Suc 0))), 3)"
  using flaky_fetch by (simp add: succeeds_after_def demo_download_def del: lit_simps)

theorem transient_failures_recovered_witness:
  "\<exists>el w'. download_one True flaky_download config_default 256 (lit ''out'') (lit ''http://h/a.jpg'') 0 (Map.empty, 0) =
     (Val (lit ''http://h/a.jpg'', \<lparr>url = lit ''http://h/a.jpg'', outcome = Success (lit ''out/a.jpg'') 3 None el\<rparr>), w')"
proof -
  have target: "request_target (de_uri flaky_download) (lit ''http://h/a.jpg'') = Inr ((lit ''h'', 80), lit ''h'', 80)"
    by (simp add: request_target_def port_or_default_def demo_uri_def)
  have now: "de_now flaky_download (Map.empty, 0) = (Val 0, (Map.empty, 0))" by simp
  have "last_segment_of (lit ''http://h/a.jpg'') = lit ''a.jpg''" by code_simp
  then have name: "generate_filename True sha (lit ''http://h/a.jpg'') 0 bs (naming_strategy config_default) = Val (lit ''a.jpg'')" for sha bs
    by (simp add: generate_filename_def url_based_name_def truncate_filename_def sanitize_def sanitize_char_def
        is_ascii_alphanumeric_def config_default_def naming_strategy_default_def)
  have savable: "can_be_saved True flaky_download config_default (lit ''out'') (lit ''http://h/a.jpg'') 0 flaky_data (lit ''a.jpg'') (pools, n)"
    for pools n
    using name
    by (simp add: can_be_saved_def validate_response_def demo_headers_def flaky_data_def demo_download_def config_default_def del: lit_simps)
  have path: "path_join (lit ''out'') (lit ''a.jpg'') = lit ''out/a.jpg''" by (simp add: path_join_def)
  have hash: "content_hash_of sha config_default bs = None" for sha bs
    by (simp add: content_hash_of_def config_default_def naming_strategy_default_def)
  have "1 \<le> unat (max_retries config_default)" by (simp add: config_default_def)
  moreover have "succeeds_after (de_retry flaky_download) (retry_base_delay config_default)
      (fetch True flaky_download config_default 256 \<lparr>rc_user_agent = user_agent config_default,
         rc_request_timeout = request_timeout config_default, rc_max_redirects = max_redirects config_default\<rparr>
         (lit ''h'', 80) (lit ''h'') 80)
      (wait_permit flaky_download (Some (lit ''h'')) (wait_permit flaky_download None (Map.empty, 0))) 1
     (Response flaky_data) (at_host (flaky_pool [\<lparr>conn_id = Suc 0, conn_sender = ConnH1 (Some ())\<rparr>] (Suc (Suc 0))), 3)"
    using flaky_succeeds by simp
  ultimately show ?thesis
    using transient_failures_recovered [OF now target refl _ _ savable] by (fastforce simp: path hash flaky_data_def simp del: lit_simps)
qed

end
