(* ===== verification/Py_Bindings.thy ===== *)
theory Py_Bindings
  imports Batch
begin

text \<open>
  The crate \<open>imgdl-py\<close>: the Python configuration with its checks and its conversion, the
  Python results, the process-wide runtime and downloaders, and the two functions of the
  module.  A Python exception is an error value; a panic, which PyO3 raises as
  \<open>PanicException\<close>, stays a panic.  The tokio runtime is a parameter.
\<close>

declare split_paired_All [simp del] split_paired_Ex [simp del]

section \<open>Configuration (config.rs)\<close>

datatype py_error = PyValueError rstr

record py_config =
  pc_buffer_size :: u32
  pc_connections_per_host :: usize
  pc_dns_cache_ttl_secs :: u64
  pc_max_concurrent :: usize
  pc_max_concurrent_per_host :: usize
  pc_max_retries :: u32
  pc_retry_base_delay_ms :: u64
  pc_connect_timeout_secs :: f64
  pc_request_timeout_secs :: f64
  pc_batch_timeout_secs :: "f64 option"
  pc_naming_strategy :: rstr
  pc_write_metadata :: bool
  pc_write_summary :: bool
  pc_runtime_threads :: usize

definition valid_naming_strategies :: "rstr list" where
  "valid_naming_strategies = [lit ''content_hash'', lit ''url_based'', lit ''sequential'', lit ''file_header'']"

text \<open>\<open>Config::new\<close>: the arguments are the record it returns when they are accepted.\<close>

definition py_config_new :: "py_config \<Rightarrow> py_error + py_config" where
  "py_config_new c =
     (if pc_naming_strategy c \<notin> set valid_naming_strategies
      then Inl (PyValueError (lit ''Invalid naming_strategy '' @ [39] @ pc_naming_strategy c @ [39] @
             lit ''. Valid options: content_hash, url_based, sequential, file_header''))
      else if f64_less (pc_connect_timeout_secs c) f64_zero
      then Inl (PyValueError (lit ''connect_timeout_secs must be non-negative''))
      else if f64_less (pc_request_timeout_secs c) f64_zero
      then Inl (PyValueError (lit ''request_timeout_secs must be non-negative''))
      else case pc_batch_timeout_secs c of
          Some bt \<Rightarrow> if f64_less bt f64_zero
            then Inl (PyValueError (lit ''batch_timeout_secs must be non-negative''))
            else Inr c
        | None \<Rightarrow> Inr c)"

definition py_config_defaults :: py_config where
  "py_config_defaults = \<lparr>
     pc_buffer_size = 524288,
     pc_connections_per_host = 1,
     pc_dns_cache_ttl_secs = 300,
     pc_max_concurrent = 200,
     pc_max_concurrent_per_host = 100,
     pc_max_retries = 3,
     pc_retry_base_delay_ms = 100,
     pc_connect_timeout_secs = f64_of_nat 10,
     pc_request_timeout_secs = f64_of_nat 30,
     pc_batch_timeout_secs = None,
     pc_naming_strategy = lit ''url_based'',
     pc_write_metadata = False,
     pc_write_summary = False,
     pc_runtime_threads = 0\<rparr>"

text \<open>The arm \<open>unreachable!\<close> is a panic.\<close>

definition naming_of_name :: "rstr \<Rightarrow> naming_strategy outcome" where
  "naming_of_name s =
     (if s = lit ''content_hash'' then Val ContentHash
      else if s = lit ''url_based'' then Val UrlBased
      else if s = lit ''sequential'' then Val Sequential
      else if s = lit ''file_header'' then Val FileHeader
      else Panic)"

definition optional_secs :: "f64 option \<Rightarrow> duration option outcome" where
  "optional_secs secs = (case secs of
      None \<Rightarrow> Val None | Some s \<Rightarrow> map_outcome_with Some (from_secs_f64 s))"

definition python_config_to_core :: "py_config \<Rightarrow> config outcome" where
  "python_config_to_core c =
     bind_outcome (naming_of_name (pc_naming_strategy c)) (\<lambda>naming.
     let defaults = config_default in
     bind_outcome (from_secs_f64 (pc_connect_timeout_secs c)) (\<lambda>connect.
     bind_outcome (from_secs_f64 (pc_request_timeout_secs c)) (\<lambda>request.
     bind_outcome (optional_secs (pc_batch_timeout_secs c)) (\<lambda>batch.
     Val \<lparr>stream_window_size = pc_buffer_size c,
        connections_per_host = pc_connections_per_host c,
        dns_cache_ttl = from_secs (pc_dns_cache_ttl_secs c),
        user_agent = user_agent defaults,
        max_redirects = max_redirects defaults,
        max_concurrent_global = pc_max_concurrent c,
        max_concurrent_per_host = pc_max_concurrent_per_host c,
        max_retries = pc_max_retries c,
        retry_base_delay = from_millis (pc_retry_base_delay_ms c),
        connect_timeout = connect,
        request_timeout = request,
        batch_timeout = batch,
        naming_strategy = naming,
        write_metadata = pc_write_metadata c,
        write_summary = pc_write_summary c\<rparr>))))"

section \<open>Results (result.rs)\<close>

record py_result =
  pr_url :: rstr
  pr_success :: bool
  pr_path :: "rstr option"
  pr_error :: "rstr option"
  pr_size_bytes :: "u64 option"
  pr_elapsed_ms :: "f64 option"
  pr_content_hash :: "rstr option"
  pr_retries_attempted :: "u32 option"

definition core_result_to_python :: "download_result \<Rightarrow> py_result" where
  "core_result_to_python result = (case outcome result of
      Success p sz hash el \<Rightarrow>
        \<lparr>pr_url = url result, pr_success = True, pr_path = Some p, pr_error = None,
         pr_size_bytes = Some sz, pr_elapsed_ms = Some (elapsed_ms_f64 el),
         pr_content_hash = hash, pr_retries_attempted = Some 0\<rparr>
    | Failure e el n \<Rightarrow>
        \<lparr>pr_url = url result, pr_success = False, pr_path = None, pr_error = Some (error_display e),
         pr_size_bytes = None, pr_elapsed_ms = Some (elapsed_ms_f64 el),
         pr_content_hash = None, pr_retries_attempted = Some n\<rparr>)"

definition py_repr :: "py_result \<Rightarrow> rstr" where
  "py_repr r =
     (let or_empty = (\<lambda>s. case s of Some t \<Rightarrow> t | None \<Rightarrow> [])
      in if pr_success r
         then lit ''DownloadResult(url='' @ [39] @ pr_url r @ [39] @ lit '', success=True, path='' @ [39] @
           or_empty (pr_path r) @ [39] @ lit '')''
         else lit ''DownloadResult(url='' @ [39] @ pr_url r @ [39] @ lit '', success=False, error='' @ [39] @
           or_empty (pr_error r) @ [39] @ lit '')'')"

text \<open>The Python values of the dictionary, in the order of insertion.\<close>

datatype py_value = PyNone | PyStr rstr | PyBool bool | PyInt nat | PyFloat f64

definition py_option :: "('a \<Rightarrow> py_value) \<Rightarrow> 'a option \<Rightarrow> py_value" where
  "py_option f v = (case v of None \<Rightarrow> PyNone | Some x \<Rightarrow> f x)"

definition to_dict :: "py_result \<Rightarrow> (rstr \<times> py_value) list" where
  "to_dict r =
     [(lit ''url'', PyStr (pr_url r)),
      (lit ''success'', PyBool (pr_success r)),
      (lit ''path'', py_option PyStr (pr_path r)),
      (lit ''error'', py_option PyStr (pr_error r)),
      (lit ''size_bytes'', py_option (\<lambda>n. PyInt (unat n)) (pr_size_bytes r)),
      (lit ''elapsed_ms'', py_option PyFloat (pr_elapsed_ms r)),
      (lit ''content_hash'', py_option PyStr (pr_content_hash r)),
      (lit ''retries_attempted'', py_option (\<lambda>n. PyInt (unat n)) (pr_retries_attempted r))]"

section \<open>Process-wide state (runtime.rs)\<close>

record 'rt runtime_state =
  rs_runtime :: 'rt
  rs_threads :: usize

text \<open>The three \<open>OnceLock\<close>s.\<close>

record ('rt, 'cfg) py_state =
  ps_runtime :: "'rt runtime_state option"
  ps_downloader :: "'cfg downloader option"
  ps_plain_downloader :: "'cfg downloader option"

text \<open>\<open>build\<close> is the builder of \<open>tokio\<close>, with the number of worker threads when one is set.\<close>

definition build_runtime :: "(usize option \<Rightarrow> rstr + 'rt) \<Rightarrow> usize \<Rightarrow> rstr + 'rt" where
  "build_runtime build threads = (if threads > 0 then build (Some threads) else build None)"

definition get_runtime :: "(usize option \<Rightarrow> rstr + 'rt) \<Rightarrow> usize \<Rightarrow> (('rt, 'cfg) py_state \<times> 'w, 'rt) prog" where
  "get_runtime build threads = (\<lambda>(ps, w). case ps_runtime ps of
      Some st \<Rightarrow> (Val (rs_runtime st), (ps, w))
    | None \<Rightarrow> (case build_runtime build threads of
          Inl e \<Rightarrow> (Panic, (ps, w))
        | Inr rt \<Rightarrow> (Val rt, (ps\<lparr>ps_runtime := Some \<lparr>rs_runtime = rt, rs_threads = threads\<rparr>\<rparr>, w))))"

definition get_downloader ::
    "('store, 'anchor, 'provider, 'builder, 'cfg) rustls_ops \<Rightarrow> config \<Rightarrow> (('rt, 'cfg) py_state \<times> 'w, 'cfg downloader) prog" where
  "get_downloader ro cfg = (\<lambda>(ps, w). case ps_downloader ps of
      Some dl \<Rightarrow> (Val dl, (ps, w))
    | None \<Rightarrow> and_then (lift_outcome (downloader_new ro cfg)) (\<lambda>dl.
        and_then (effect (\<lambda>(ps, w). (ps\<lparr>ps_downloader := Some dl\<rparr>, w))) (\<lambda>_. ret dl)) (ps, w))"

definition get_plain_downloader ::
    "('store, 'anchor, 'provider, 'builder, 'cfg) rustls_ops \<Rightarrow> config \<Rightarrow> (('rt, 'cfg) py_state \<times> 'w, 'cfg downloader) prog" where
  "get_plain_downloader ro cfg = (\<lambda>(ps, w). case ps_plain_downloader ps of
      Some dl \<Rightarrow> (Val dl, (ps, w))
    | None \<Rightarrow> and_then (lift_outcome (downloader_new_plain ro cfg)) (\<lambda>dl.
        and_then (effect (\<lambda>(ps, w). (ps\<lparr>ps_plain_downloader := Some dl\<rparr>, w))) (\<lambda>_. ret dl)) (ps, w))"

section \<open>The module (lib.rs)\<close>

text \<open>
  \<open>batch dl urls dir\<close> is \<open>rt.block_on(dl.download_batch(urls, dir))\<close>.
\<close>

definition download_images ::
    "('store, 'anchor, 'provider, 'builder, 'cfg) rustls_ops \<Rightarrow> (usize option \<Rightarrow> rstr + 'rt) \<Rightarrow>
     ('cfg downloader \<Rightarrow> rstr list \<Rightarrow> path \<Rightarrow> (('rt, 'cfg) py_state \<times> 'w, download_result list) prog) \<Rightarrow>
     rstr list \<Rightarrow> rstr \<Rightarrow> py_config option \<Rightarrow> (('rt, 'cfg) py_state \<times> 'w, py_error + py_result list) prog" where
  "download_images ro build batch urls output_dir cfg =
     (if urls = [] then ret (Inl (PyValueError (lit ''urls list cannot be empty'')))
      else
        (let c = (case cfg of Some c \<Rightarrow> c | None \<Rightarrow> py_config_defaults)
         in and_then (lift_outcome (python_config_to_core c)) (\<lambda>core_config.
            and_then (get_runtime build (pc_runtime_threads c)) (\<lambda>rt.
            and_then (get_downloader ro core_config) (\<lambda>dl.
            and_then (batch dl urls output_dir) (\<lambda>core_results.
            ret (Inr (map core_result_to_python core_results))))))))"

definition download_images_plaintext ::
    "('store, 'anchor, 'provider, 'builder, 'cfg) rustls_ops \<Rightarrow> (usize option \<Rightarrow> rstr + 'rt) \<Rightarrow>
     ('cfg downloader \<Rightarrow> rstr list \<Rightarrow> path \<Rightarrow> (('rt, 'cfg) py_state \<times> 'w, download_result list) prog) \<Rightarrow>
     rstr list \<Rightarrow> rstr \<Rightarrow> py_config option \<Rightarrow> (('rt, 'cfg) py_state \<times> 'w, py_error + py_result list) prog" where
  "download_images_plaintext ro build batch urls output_dir cfg =
     (if urls = [] then ret (Inl (PyValueError (lit ''urls list cannot be empty'')))
      else
        (let c = (case cfg of Some c \<Rightarrow> c | None \<Rightarrow> py_config_defaults)
         in and_then (lift_outcome (python_config_to_core c)) (\<lambda>core_config.
            and_then (get_runtime build (pc_runtime_threads c)) (\<lambda>rt.
            and_then (get_plain_downloader ro core_config) (\<lambda>dl.
            and_then (batch dl urls output_dir) (\<lambda>core_results.
            ret (Inr (map core_result_to_python core_results))))))))"

text \<open>The batch of the development, run beside the state of the process.\<close>

definition block_on_batch ::
    "bool \<Rightarrow> ('h2, 'h1, 'n, 'w, 'req, 'uri, 'pq, 'hm, 'hv, 'body) download_env \<Rightarrow>
     ('h2, 'h1, 'n, 'w) pool_world join_set \<Rightarrow> nat \<Rightarrow> 'cfg downloader \<Rightarrow> rstr list \<Rightarrow> path \<Rightarrow>
     (('rt, 'cfg) py_state \<times> ('h2, 'h1, 'n, 'w) pool_world, download_result list) prog" where
  "block_on_batch oc de join_tasks fuel dl urls output_dir =
     on_env (download_batch oc de join_tasks (dl_config dl) fuel urls output_dir)"

section \<open>Lemmas\<close>

lemma naming_of_valid: "s \<in> set valid_naming_strategies \<longleftrightarrow> (\<exists>n. naming_of_name s = Val n)"
proof -
  have *: "(\<exists>n. (if a then Val ContentHash else if b then Val UrlBased else if c then Val Sequential
      else if d then Val FileHeader else Panic) = Val n) \<longleftrightarrow> a \<or> b \<or> c \<or> d" for a b c d
    by simp
  show ?thesis unfolding valid_naming_strategies_def naming_of_name_def * by (simp only: set_simps insert_iff empty_iff simp_thms)
qed

lemma naming_of_not_diverges: "naming_of_name s \<noteq> Diverges"
  by (simp add: naming_of_name_def)

lemma from_secs_f64_not_diverges: "from_secs_f64 x \<noteq> Diverges"
  by (cases x) (simp_all add: Let_def)

lemma default_timeouts:
  "from_secs_f64 (f64_of_nat 10) = Val (from_secs 10)" "from_secs_f64 (f64_of_nat 30) = Val (from_secs 30)"
proof -
  have ten: "f64_of_nat 10 = Fin False (5 * 2 ^ 50) (- 49)"
    by (simp add: f64_of_nat_def f64_round_def) (simp add: f64_eval)
  have thirty: "f64_of_nat 30 = Fin False (15 * 2 ^ 49) (- 48)"
    by (simp add: f64_of_nat_def f64_round_def) (simp add: f64_eval)
  have nanos: "secs_to_nanos (5 * 2 ^ 50) (- 49) = 10000000000" "secs_to_nanos (15 * 2 ^ 49) (- 48) = 30000000000"
    by (simp_all add: secs_to_nanos_def div_half_even_def pow2_def)
  show "from_secs_f64 (f64_of_nat 10) = Val (from_secs 10)" "from_secs_f64 (f64_of_nat 30) = Val (from_secs 30)"
    unfolding ten thirty from_secs_f64.simps nanos Let_def by (simp_all add: from_secs_def)
qed

lemma url_based_valid: "lit ''url_based'' \<in> set valid_naming_strategies"
  by (simp only: valid_naming_strategies_def list.set insert_iff simp_thms)

lemma seconds_not_negative: "\<not> f64_less (f64_of_nat 10) f64_zero" "\<not> f64_less (f64_of_nat 30) f64_zero"
  by (simp_all add: f64_of_nat_def f64_round_def f64_zero_def) (simp_all add: f64_eval)

lemma optional_secs_not_diverges: "optional_secs x \<noteq> Diverges"
  by (cases x) (simp_all add: optional_secs_def bind_outcome_ends from_secs_f64_not_diverges)

lemma defaults_convert: "python_config_to_core py_config_defaults = Val config_default"
proof -
  have "naming_of_name (lit ''url_based'') = Val UrlBased" by (simp add: naming_of_name_def)
  then show ?thesis
    by (simp add: python_config_to_core_def py_config_defaults_def default_timeouts optional_secs_def Let_def
        config_default_def naming_strategy_default_def del: lit_simps)
qed

text \<open>What a conversion that does not panic returns.\<close>

lemma python_config_to_core_Val:
  "python_config_to_core c = Val core \<longleftrightarrow>
     (\<exists>naming connect request batch. naming_of_name (pc_naming_strategy c) = Val naming \<and>
        from_secs_f64 (pc_connect_timeout_secs c) = Val connect \<and> from_secs_f64 (pc_request_timeout_secs c) = Val request \<and>
        optional_secs (pc_batch_timeout_secs c) = Val batch \<and>
        core = \<lparr>stream_window_size = pc_buffer_size c, connections_per_host = pc_connections_per_host c,
          dns_cache_ttl = from_secs (pc_dns_cache_ttl_secs c), user_agent = user_agent config_default,
          max_redirects = max_redirects config_default, max_concurrent_global = pc_max_concurrent c,
          max_concurrent_per_host = pc_max_concurrent_per_host c, max_retries = pc_max_retries c,
          retry_base_delay = from_millis (pc_retry_base_delay_ms c), connect_timeout = connect, request_timeout = request,
          batch_timeout = batch, naming_strategy = naming, write_metadata = pc_write_metadata c,
          write_summary = pc_write_summary c\<rparr>)"
  by (simp add: python_config_to_core_def Let_def) blast

lemma py_config_new_valid: "py_config_new args = Inr c \<Longrightarrow> c = args \<and> (\<exists>n. naming_of_name (pc_naming_strategy c) = Val n)"
  unfolding naming_of_valid [symmetric] by (auto simp: py_config_new_def split: option.splits if_splits)

text \<open>A number of seconds that is a duration.\<close>

definition representable :: "f64 \<Rightarrow> bool" where
  "representable x \<longleftrightarrow> (case x of
      NaN \<Rightarrow> False | Infinite s \<Rightarrow> False
    | Fin neg m e \<Rightarrow> \<not> (neg \<and> m \<noteq> 0) \<and> secs_to_nanos m e < 2 ^ 64 * 1000000000)"

lemma from_secs_f64_representable: "(\<exists>d. from_secs_f64 x = Val d) \<longleftrightarrow> representable x"
  by (cases x) (auto simp: representable_def Let_def)

lemma optional_secs_representable:
  "(\<exists>d. optional_secs x = Val d) \<longleftrightarrow> (\<forall>y. x = Some y \<longrightarrow> representable y)"
  by (cases x) (auto simp: optional_secs_def from_secs_f64_representable [symmetric])

section \<open>Properties\<close>



text \<open>
  C27.  A Python result tells everything about a download but the rounded duration and the
  parsed Retry-After: two results that look the same in Python have the same URL, and are
  the same success or fail with the same error after the same number of retries.
\<close>
theorem python_result_faithful:
  assumes "core_result_to_python r = core_result_to_python r'"
  shows "url r = url r' \<and> (case (outcome r, outcome r') of
      (Success p sz hash el, Success p' sz' hash' el') \<Rightarrow> p = p' \<and> sz = sz' \<and> hash = hash'
    | (Failure e el n, Failure e' el' n') \<Rightarrow> without_retry_after e = without_retry_after e' \<and> n = n'
    | _ \<Rightarrow> False)"
  using assms
  by (cases "outcome r"; cases "outcome r'") (auto simp: core_result_to_python_def dest: error_display_inj)

lemma call_with_downloader:
  assumes "ps_downloader ps = Some dl" "urls \<noteq> []" "python_config_to_core c = Val core"
    and "ps_runtime ps = Some st" "join_lawful join_tasks"
    and "download_images ro build (block_on_batch oc de join_tasks fuel) urls output_dir (Some c) (ps, w) = (Val (Inr rs), (ps', w'))"
  shows "ps' = ps \<and> (\<exists>core_rs. download_batch oc de join_tasks (dl_config dl) fuel urls output_dir w = (Val core_rs, w') \<and>
     rs = map core_result_to_python core_rs \<and> map pr_url rs = urls)"
proof -
  have runtime: "get_runtime build n (ps, w) = (Val (rs_runtime st), (ps, w))" for n
    using assms(4) by (simp add: get_runtime_def)
  have downloader: "get_downloader ro core (ps, w) = (Val dl, (ps, w))" using assms(1) by (simp add: get_downloader_def)
  have "download_images ro build (block_on_batch oc de join_tasks fuel) urls output_dir (Some c) (ps, w) =
      and_then (block_on_batch oc de join_tasks fuel dl urls output_dir) (\<lambda>core_results.
        ret (Inr (map core_result_to_python core_results))) (ps, w)"
    using assms(2,3) by (simp add: download_images_def and_then_def runtime downloader)
  with assms(6) obtain core_rs where "block_on_batch oc de join_tasks fuel dl urls output_dir (ps, w) = (Val core_rs, (ps', w'))"
    and rs: "rs = map core_result_to_python core_rs"
    by (auto simp: and_then_eq_Val)
  then have run: "download_batch oc de join_tasks (dl_config dl) fuel urls output_dir w = (Val core_rs, w')" and ps: "ps' = ps"
    by (auto simp: block_on_batch_def on_env_def split: prod.splits)
  have "pr_url (core_result_to_python r) = url r" for r
    by (simp add: core_result_to_python_def split: download_outcome.split)
  then have "map pr_url rs = map url core_rs" by (simp add: rs)
  with download_batch_urls [OF assms(5) run] run rs ps show ?thesis by auto
qed

text \<open>What the first call of a process leaves: a runtime and a downloader of its configuration.\<close>

lemma first_call_leaves:
  assumes "ps_downloader ps = None" "urls \<noteq> []" "python_config_to_core c = Val core"
    and "download_images ro build (block_on_batch oc de join_tasks fuel) urls output_dir (Some c) (ps, w) = (Val (Inr rs), (ps', w'))"
  shows "\<exists>dl st. ps_downloader ps' = Some dl \<and> dl_config dl = core \<and> ps_runtime ps' = Some st"
proof -
  from assms(2-4) obtain rt ps1 w1 dl ps2 w2 core_rs where
    rt: "get_runtime build (pc_runtime_threads c) (ps, w) = (Val rt, (ps1, w1))"
    and dl: "get_downloader ro core (ps1, w1) = (Val dl, (ps2, w2))"
    and batch: "block_on_batch oc de join_tasks fuel dl urls output_dir (ps2, w2) = (Val core_rs, (ps', w'))"
    by (auto simp: download_images_def and_then_eq_Val Let_def)
  from batch have ps': "ps' = ps2" by (auto simp: block_on_batch_def on_env_def split: prod.splits)
  from rt obtain st where ps1: "ps_runtime ps1 = Some st" "ps_downloader ps1 = None"
    using assms(1) by (auto simp: get_runtime_def split: option.splits sum.splits)
  with dl have "downloader_new ro core = Val dl" "ps2 = ps1\<lparr>ps_downloader := Some dl\<rparr>"
    by (auto simp: get_downloader_def and_then_eq_Val)
  with ps1 show ?thesis by (auto simp: ps' downloader_new_def)
qed


section \<open>Witnesses\<close>


text \<open>Two failures that differ in the parsed Retry-After only.\<close>

definition demo_failure :: "duration option \<Rightarrow> download_result" where
  "demo_failure ra = \<lparr>url = lit ''http://h/a.jpg'', outcome = Failure (HttpStatus 429 (lit ''busy'') ra) (from_secs 1) 3\<rparr>"

theorem python_result_faithful_witness:
  "core_result_to_python (demo_failure (Some (from_secs 7))) = core_result_to_python (demo_failure None) \<and>
   without_retry_after (HttpStatus 429 (lit ''busy'') (Some (from_secs 7))) =
     without_retry_after (HttpStatus 429 (lit ''busy'') None)"
proof -
  have same: "core_result_to_python (demo_failure (Some (from_secs 7))) = core_result_to_python (demo_failure None)"
    by (simp add: core_result_to_python_def demo_failure_def del: lit_simps)
  have out: "outcome (demo_failure ra) = Failure (HttpStatus 429 (lit ''busy'') ra) (from_secs 1) 3" for ra
    by (simp add: demo_failure_def)
  from python_result_faithful [OF same] same show ?thesis
    by (simp only: out prod.case download_outcome.case simp_thms)
qed

text \<open>Two calls, the second with another number of retries.\<close>

definition demo_py_state :: "(unit, unit) py_state" where
  "demo_py_state = \<lparr>ps_runtime = None, ps_downloader = None, ps_plain_downloader = None\<rparr>"

definition demo_rustls :: "(unit, unit, unit, unit, unit) rustls_ops" where
  "demo_rustls = \<lparr>empty_store = (), extend_store = (\<lambda>s a. ()), tls_server_roots = [()], ring_provider = (),
     builder_with_provider = (\<lambda>p. ()), with_safe_default_protocol_versions = (\<lambda>b. Inr ()),
     with_root_certificates = (\<lambda>b s. ()), with_no_client_auth = (\<lambda>b. ()), set_alpn_protocols = (\<lambda>a c. ())\<rparr>"

definition demo_later :: py_config where
  "demo_later = py_config_defaults\<lparr>pc_max_retries := 9\<rparr>"

text \<open>An environment that takes no URL for valid: every download of it fails at once.\<close>

definition demo_refusing ::
    "(unit, unit, unit, nat, unit, rstr \<times> u16, rstr, (rstr \<times> bytes) list, bytes, unit) download_env" where
  "demo_refusing = demo_download\<lparr>de_uri := demo_uri\<lparr>uri_parse := (\<lambda>s. Inl (lit ''empty''))\<rparr>\<rparr>"

definition refused :: "rstr \<Rightarrow> download_result" where
  "refused u = \<lparr>url = u, outcome = Failure (ConnectionFailed (lit ''invalid URL: '' @ lit ''empty'')) (instant_since 0 0) 0\<rparr>"

lemma demo_refusing_batch:
  assumes "batch_timeout cfg = None" "\<not> write_summary cfg"
  shows "download_batch True demo_refusing (\<lambda>tasks dl. run_tasks tasks) cfg 256 [u] dir w = (Val [refused u], w)"
proof -
  have one: "download_one True demo_refusing cfg 256 dir u 0 w = (Val (u, refused u), w)" for w
    by (simp add: download_one_def and_then_def demo_refusing_def demo_download_def request_target_def
        download_failed_def elapsed_since_def refused_def del: lit_simps)
  have create: "fs_create_dir_all (de_fs demo_refusing) p w = (Val (Inr ()), w)" "de_now demo_refusing = ret 0" for p w
    by (simp_all add: demo_refusing_def demo_download_def)
  have "url (refused u) = u" "\<not> is_success (refused u)" by (simp_all add: refused_def is_success_def)
  then show ?thesis
    using assms by (simp add: download_batch_def and_then_def create run_batch_def Let_def batch_deadline_def
        batch_tasks_def dedup_def one save_summary_def elapsed_since_def)
qed

abbreviation demo_images where
  "demo_images \<equiv> download_images demo_rustls (\<lambda>n. Inr ()) (block_on_batch True demo_refusing (\<lambda>tasks dl. run_tasks tasks) 256)"

definition demo_py_started :: "(unit, unit) py_state" where
  "demo_py_started = \<lparr>ps_runtime = Some \<lparr>rs_runtime = (), rs_threads = 0\<rparr>,
     ps_downloader = Some \<lparr>dl_pool = pool_new config_default (), dl_config = config_default\<rparr>, ps_plain_downloader = None\<rparr>"


end
