(* ===== verification/Unit_Tests.thy ===== *)
theory Unit_Tests
  imports Transport
begin

text \<open>
  The repository's unit tests of \<open>types.rs\<close>, \<open>config.rs\<close>, \<open>retry.rs\<close> and \<open>output/\<close>, run on the
  model: a test is a definition with its inputs and assertions, under its name in the source,
  and a lemma that it passes.  What a test leaves to the machine is a parameter and the test
  passes whatever it is: the overflow checks of the build, SHA-256, the clock.  Tests of
  generated serialisers and of real files are left out.
\<close>

text \<open>A test fails when the code panics.\<close>

definition passes :: "'a outcome \<Rightarrow> ('a \<Rightarrow> bool) \<Rightarrow> bool" where
  "passes m P = (case m of Val x \<Rightarrow> P x | _ \<Rightarrow> False)"

lemma passes_Val [simp]: "passes (Val x) P = P x"
  by (simp add: passes_def)

text \<open>\<open>r.is_ok()\<close> and \<open>s.contains(t)\<close>.\<close>

abbreviation is_ok :: "'e + 'a \<Rightarrow> bool" where
  "is_ok r \<equiv> \<not> isl r"

fun str_contains :: "rstr \<Rightarrow> rstr \<Rightarrow> bool" where
  "str_contains [] t \<longleftrightarrow> t = []"
| "str_contains (c # s) t \<longleftrightarrow> prefix t (c # s) \<or> str_contains s t"

section \<open>Names of files (naming.rs)\<close>

definition url_based_extracts_filename_from_path :: "bool \<Rightarrow> (bytes \<Rightarrow> bytes) \<Rightarrow> bool" where
  "url_based_extracts_filename_from_path oc sha =
     passes (generate_filename oc sha (lit ''https://example.com/images/photo.jpg'') 0 [] UrlBased)
       (\<lambda>name. name = lit ''photo.jpg'')"

definition url_based_sanitizes_special_characters :: "bool \<Rightarrow> (bytes \<Rightarrow> bytes) \<Rightarrow> bool" where
  "url_based_sanitizes_special_characters oc sha =
     passes (generate_filename oc sha (lit ''https://example.com/photo (1).jpg'') 0 [] UrlBased)
       (\<lambda>name. name = lit ''photo__1_.jpg'')"

definition url_based_falls_back_to_hash_when_no_path :: "bool \<Rightarrow> (bytes \<Rightarrow> bytes) \<Rightarrow> bool" where
  "url_based_falls_back_to_hash_when_no_path oc sha =
     passes (generate_filename oc sha (lit ''https://example.com/'') 0 [] UrlBased)
       (\<lambda>name. suffix (lit ''.bin'') name \<and> 4 < byte_len name)"

definition url_based_preserves_extension :: "bool \<Rightarrow> (bytes \<Rightarrow> bytes) \<Rightarrow> bool" where
  "url_based_preserves_extension oc sha =
     passes (generate_filename oc sha (lit ''https://example.com/test.png'') 0 [] UrlBased)
       (\<lambda>name. suffix (lit ''.png'') name)"

definition sequential_generates_zero_padded_names :: "bool \<Rightarrow> (bytes \<Rightarrow> bytes) \<Rightarrow> bool" where
  "sequential_generates_zero_padded_names oc sha \<longleftrightarrow>
     passes (generate_filename oc sha (lit ''https://example.com/photo.jpg'') 1 [] Sequential) (\<lambda>name. name = lit ''001.jpg'') \<and>
     passes (generate_filename oc sha (lit ''https://example.com/photo.jpg'') 42 [] Sequential) (\<lambda>name. name = lit ''042.jpg'')"

definition sequential_infers_extension :: "bool \<Rightarrow> (bytes \<Rightarrow> bytes) \<Rightarrow> bool" where
  "sequential_infers_extension oc sha \<longleftrightarrow>
     passes (generate_filename oc sha (lit ''https://example.com/photo.png'') 1 [] Sequential) (\<lambda>name. name = lit ''001.png'') \<and>
     passes (generate_filename oc sha (lit ''https://example.com/image'') 2 [0xFF, 0xD8, 0xFF, 0xE0] Sequential) (\<lambda>name. name = lit ''002.jpg'')"

definition content_hash_generates_sha256_filename :: "bool \<Rightarrow> (bytes \<Rightarrow> bytes) \<Rightarrow> bool" where
  "content_hash_generates_sha256_filename oc sha =
     passes (generate_filename oc sha (lit ''https://example.com/photo.jpg'') 0 (as_bytes (lit ''hello world'')) ContentHash)
       (\<lambda>name. prefix (lit ''b94d27b9'') name \<and> suffix (lit ''.jpg'') name \<and>
         (case split_first ch_dot name of Some stem \<Rightarrow> byte_len stem = 32 | None \<Rightarrow> False))"

definition content_hash_differs_for_different_content :: "bool \<Rightarrow> (bytes \<Rightarrow> bytes) \<Rightarrow> bool" where
  "content_hash_differs_for_different_content oc sha =
     passes (generate_filename oc sha (lit ''https://example.com/a.jpg'') 0 (as_bytes (lit ''content1'')) ContentHash) (\<lambda>name1.
     passes (generate_filename oc sha (lit ''https://example.com/a.jpg'') 0 (as_bytes (lit ''content2'')) ContentHash) (\<lambda>name2.
       name1 \<noteq> name2))"

definition content_hash_same_for_identical_content :: "bool \<Rightarrow> (bytes \<Rightarrow> bytes) \<Rightarrow> bool" where
  "content_hash_same_for_identical_content oc sha =
     passes (generate_filename oc sha (lit ''https://example.com/a.jpg'') 0 (as_bytes (lit ''same'')) ContentHash) (\<lambda>name1.
     passes (generate_filename oc sha (lit ''https://example.com/b.jpg'') 0 (as_bytes (lit ''same'')) ContentHash) (\<lambda>name2.
       split_first ch_dot name1 \<noteq> None \<and> split_first ch_dot name1 = split_first ch_dot name2))"

definition file_header_detects_jpeg :: "bool \<Rightarrow> (bytes \<Rightarrow> bytes) \<Rightarrow> bool" where
  "file_header_detects_jpeg oc sha =
     passes (generate_filename oc sha (lit ''https://example.com/photo.png'') 0 [0xFF, 0xD8, 0xFF, 0xE0, 0x00, 0x10] FileHeader)
       (\<lambda>name. suffix (lit ''.jpg'') name)"

definition file_header_detects_png :: "bool \<Rightarrow> (bytes \<Rightarrow> bytes) \<Rightarrow> bool" where
  "file_header_detects_png oc sha =
     passes (generate_filename oc sha (lit ''https://example.com/photo.jpg'') 0 [0x89, 0x50, 0x4E, 0x47, 0x0D, 0x0A] FileHeader)
       (\<lambda>name. suffix (lit ''.png'') name)"

definition file_header_detects_gif :: "bool \<Rightarrow> (bytes \<Rightarrow> bytes) \<Rightarrow> bool" where
  "file_header_detects_gif oc sha =
     passes (generate_filename oc sha (lit ''https://example.com/photo.jpg'') 0 [0x47, 0x49, 0x46, 0x38, 0x39, 0x61] FileHeader)
       (\<lambda>name. suffix (lit ''.gif'') name)"

definition file_header_detects_webp :: "bool \<Rightarrow> (bytes \<Rightarrow> bytes) \<Rightarrow> bool" where
  "file_header_detects_webp oc sha =
     passes (generate_filename oc sha (lit ''https://example.com/photo.jpg'') 0 
       [0x52, 0x49, 0x46, 0x46, 0x00, 0x00, 0x00, 0x00, 0x57, 0x45, 0x42, 0x50] FileHeader)
       (\<lambda>name. suffix (lit ''.webp'') name)"

definition file_header_falls_back_to_bin :: "bool \<Rightarrow> (bytes \<Rightarrow> bytes) \<Rightarrow> bool" where
  "file_header_falls_back_to_bin oc sha =
     passes (generate_filename oc sha (lit ''https://example.com/photo.jpg'') 0 [0x00, 0x00, 0x00, 0x00] FileHeader)
       (\<lambda>name. suffix (lit ''.bin'') name)"

definition long_filenames_truncated_to_200_chars :: "bool \<Rightarrow> (bytes \<Rightarrow> bytes) \<Rightarrow> bool" where
  "long_filenames_truncated_to_200_chars oc sha =
     (let long_url = lit ''https://example.com/'' @ replicate 250 97 @ lit ''.jpg''
      in passes (generate_filename oc sha long_url 0 [] UrlBased)
           (\<lambda>name. byte_len name \<le> 200 \<and> suffix (lit ''.jpg'') name))"

lemma naming_tests_pass:
  "url_based_extracts_filename_from_path oc sha"
  "url_based_sanitizes_special_characters oc sha"
  "url_based_preserves_extension oc sha"
  "sequential_generates_zero_padded_names oc sha"
  "sequential_infers_extension oc sha"
  "file_header_detects_jpeg oc sha"
  "file_header_detects_png oc sha"
  "file_header_detects_gif oc sha"
  "file_header_detects_webp oc sha"
  "file_header_falls_back_to_bin oc sha"
  by code_simp+

lemma long_name_test_passes: "long_filenames_truncated_to_200_chars oc sha"
proof -
  define stem :: rstr where "stem = replicate 250 97"
  have "split_on ch_question (lit ''https://example.com/'' @ stem @ lit ''.jpg'') = [lit ''https://example.com/'' @ stem @ lit ''.jpg'']"
    "split_on ch_hash (lit ''https://example.com/'' @ stem @ lit ''.jpg'') = [lit ''https://example.com/'' @ stem @ lit ''.jpg'']"
    by (rule split_on_notin, simp add: stem_def)+
  moreover have "rsplit_first ch_slash (lit ''https://example.com'' @ ch_slash # (stem @ lit ''.jpg'')) = Some (stem @ lit ''.jpg'')"
    by (rule rsplit_first_append) (simp add: stem_def)
  ultimately have seg: "last_segment_of (lit ''https://example.com/'' @ stem @ lit ''.jpg'') = stem @ lit ''.jpg''"
    by (simp add: last_segment_of_def strip_url_query_and_fragment_def split_first_def iter_nth_def)
  have clean: "sanitize (stem @ lit ''.jpg'') = stem @ lit ''.jpg''"
    by (simp add: sanitize_def stem_def sanitize_char_def is_ascii_alphanumeric_def)
  have "truncate_filename oc (stem @ ch_dot # lit ''jpg'') = Val (take (199 - length (lit ''jpg'')) stem @ ch_dot # lit ''jpg'')"
    by (rule truncate_keeps_ext) (simp_all add: stem_def)
  then have "truncate_filename oc (stem @ lit ''.jpg'') = Val (replicate 196 97 @ lit ''.jpg'')"
    by (simp add: stem_def min_def)
  then have "generate_filename oc sha (lit ''https://example.com/'' @ stem @ lit ''.jpg'') 0 [] UrlBased =
      Val (replicate 196 97 @ lit ''.jpg'')"
    unfolding generate_filename_def url_based_name_def seg using clean by (simp add: Let_def)
  moreover have "byte_len (replicate n 97) = n" for n by (induction n) (simp_all add: utf8_len_def)
  ultimately show ?thesis
    by (simp add: long_filenames_truncated_to_200_chars_def Let_def stem_def suffix_def utf8_len_def)
qed

text \<open>The names that have a hash in them: SHA-256 has 32 bytes.\<close>

definition sha_length :: "(bytes \<Rightarrow> bytes) \<Rightarrow> bool" where
  "sha_length sha \<longleftrightarrow> (\<forall>bs. length (sha bs) = 32)"

lemma byte_len_hex: "byte_len (hex_prefix n h) = 2 * min n (length h)"
proof -
  have ascii: "byte_len s = length s" if "\<And>c. c \<in> set s \<Longrightarrow> is_ascii_alphanumeric c" for s
    using that
  proof (induction s)
    case (Cons c s)
    then have "is_ascii_alphanumeric c" by simp
    then have "c < 128" by (auto simp: is_ascii_alphanumeric_def is_ascii_digit_def)
    with Cons show ?case by (simp add: utf8_len_def)
  qed simp
  show ?thesis using ascii [of "hex_prefix n h"] by (simp add: hex_prefix_alnum length_hex_prefix)
qed

lemma hash_test_passes:
  assumes "sha_length sha"
  shows "url_based_falls_back_to_hash_when_no_path oc sha"
proof -
  have "last_segment_of (lit ''https://example.com/'') = []" by code_simp
  then have "generate_filename oc sha (lit ''https://example.com/'') 0 [] UrlBased =
      Val (hex_prefix 16 (sha (as_bytes (lit ''https://example.com/''))) @ lit ''.bin'')"
    using assms by (simp add: generate_filename_def url_based_name_def length_hex_prefix sha_length_def del: lit_simps)
  then show ?thesis
    using assms by (simp add: url_based_falls_back_to_hash_when_no_path_def suffix_def byte_len_hex sha_length_def del: lit_simps)
qed

lemma content_hash_jpg:
  assumes "sha_length sha" "\<And>bs. url_or_magic_ext u bs = Val (lit ''jpg'')"
  shows "generate_filename oc sha u i bs ContentHash = Val (hex_prefix 16 (sha bs) @ lit ''.jpg'')"
  using assms
  by (simp add: generate_filename_def content_hash_name_def length_hex_prefix sha_length_def Let_def)

lemma jpg_urls:
  "url_or_magic_ext (lit ''https://example.com/photo.jpg'') bs = Val (lit ''jpg'')"
  "url_or_magic_ext (lit ''https://example.com/a.jpg'') bs = Val (lit ''jpg'')"
  "url_or_magic_ext (lit ''https://example.com/b.jpg'') bs = Val (lit ''jpg'')"
  by code_simp+

lemma hash_stem: "split_first ch_dot (hex_prefix n h @ lit ''.jpg'') = Some (hex_prefix n h)"
proof -
  have "ch_dot \<notin> set (hex_prefix n h)"
    using hex_prefix_alnum [of ch_dot n h] by (auto simp: is_ascii_alphanumeric_def is_ascii_digit_def)
  then show ?thesis by (simp add: split_first_def iter_nth_def split_on_append)
qed

lemma hex_byte_inj: "hex_byte a = hex_byte b \<longleftrightarrow> a = b"
proof
  assume eq: "hex_byte a = hex_byte b"
  have less: "unat (c :: u8) div 16 < 16" "unat c mod 16 < 16" for c using unsigned_less [of c, where 'a = nat] by auto
  have digit: "hex_digit m = hex_digit n \<Longrightarrow> m < 16 \<Longrightarrow> n < 16 \<Longrightarrow> m = n" for m n
    by (auto simp: hex_digit_def split: if_splits)
  have "unat a div 16 = unat b div 16" "unat a mod 16 = unat b mod 16"
    using eq less by (auto simp: hex_byte_def intro: digit)
  then have "unat a = unat b" by (metis div_mult_mod_eq)
  then show "a = b" by (simp add: word_unat_eq_iff)
qed simp

lemma hex_prefix_inj: "hex_prefix n g = hex_prefix n h \<longleftrightarrow> take n g = take n h"
proof -
  have "concat (map hex_byte xs) = concat (map hex_byte ys) \<longleftrightarrow> xs = ys" for xs ys
  proof (induction xs arbitrary: ys)
    case Nil
    then show ?case by (cases ys) (simp_all add: hex_byte_def)
  next
    case (Cons x xs)
    then show ?case by (cases ys) (simp_all add: append_eq_append_conv hex_byte_inj, simp add: hex_byte_def)
  qed
  then show ?thesis by (simp add: hex_prefix_def)
qed

lemma content_hash_tests_pass:
  assumes "sha_length sha"
  shows "take 4 (sha (as_bytes (lit ''hello world''))) = [0xb9, 0x4d, 0x27, 0xb9] \<Longrightarrow>
      content_hash_generates_sha256_filename oc sha"
    and "take 16 (sha (as_bytes (lit ''content1''))) \<noteq> take 16 (sha (as_bytes (lit ''content2''))) \<Longrightarrow>
      content_hash_differs_for_different_content oc sha"
    and "content_hash_same_for_identical_content oc sha"
proof -
  note eval = content_hash_jpg [OF assms jpg_urls(1)] content_hash_jpg [OF assms jpg_urls(2)] content_hash_jpg [OF assms jpg_urls(3)]
  show "content_hash_same_for_identical_content oc sha"
    by (simp add: content_hash_same_for_identical_content_def eval hash_stem del: lit_simps)
  show "content_hash_differs_for_different_content oc sha"
    if "take 16 (sha (as_bytes (lit ''content1''))) \<noteq> take 16 (sha (as_bytes (lit ''content2'')))"
    using that by (simp add: content_hash_differs_for_different_content_def eval hex_prefix_inj del: lit_simps)
  assume digest: "take 4 (sha (as_bytes (lit ''hello world''))) = [0xb9, 0x4d, 0x27, 0xb9]"
  define h where "h = sha (as_bytes (lit ''hello world''))"
  have "take 16 h = take 4 h @ take 12 (drop 4 h)" using take_add [of 4 12 h] by simp
  with digest [folded h_def] have "hex_prefix 16 h = lit ''b94d27b9'' @ concat (map hex_byte (take 12 (drop 4 h)))"
    by (simp add: hex_prefix_def hex_byte_def hex_digit_def)
  then have pre: "prefix (lit ''b94d27b9'') (hex_prefix 16 h @ lit ''.jpg'')" by (simp add: prefix_def)
  have "byte_len (hex_prefix 16 h) = 32" using assms by (simp add: byte_len_hex sha_length_def h_def)
  with pre show "content_hash_generates_sha256_filename oc sha"
    by (simp add: content_hash_generates_sha256_filename_def eval hash_stem suffix_def h_def del: lit_simps)
qed

section \<open>Texts of errors (types.rs)\<close>

definition display_cases :: "(download_error \<times> rstr) list" where
  "display_cases =
     [(HttpStatus 404 (lit ''Not Found'') None, lit ''HTTP error 404: Not Found''),
      (Timeout, lit ''request timed out''),
      (ConnectionFailed (lit ''reset''), lit ''connection failed: reset''),
      (TlsError (lit ''bad cert''), lit ''TLS error: bad cert''),
      (WriteError (lit ''permission denied''), lit ''write error: permission denied''),
      (ValidationFailed (lit ''empty response body''), lit ''validation failed: empty response body''),
      (DnsResolutionFailed (lit ''NXDOMAIN''), lit ''DNS resolution failed: NXDOMAIN''),
      (TooManyRedirects (lit ''exceeded 5 hops''), lit ''too many redirects: exceeded 5 hops'')]"

definition test_download_error_display_all_variants :: bool where
  "test_download_error_display_all_variants =
     list_all (\<lambda>(e, expected). str_contains (error_display e) expected) display_cases"

definition test_download_error_implements_std_error :: bool where
  "test_download_error_implements_std_error \<longleftrightarrow> error_display Timeout \<noteq> []"

lemma error_tests_pass: test_download_error_display_all_variants test_download_error_implements_std_error
  by code_simp+

section \<open>Configuration (config.rs)\<close>

definition test_config_default_values :: bool where
  "test_config_default_values \<longleftrightarrow>
     (let config = config_default
      in stream_window_size config = 524288 \<and>
         connections_per_host config = 1 \<and>
         dns_cache_ttl config = from_secs 300 \<and>
         user_agent config = lit ''imgdl/0.1'' \<and>
         max_redirects config = 5 \<and>
         max_concurrent_global config = 200 \<and>
         max_concurrent_per_host config = 100 \<and>
         max_retries config = 3 \<and>
         retry_base_delay config = from_millis 100 \<and>
         connect_timeout config = from_secs 10 \<and>
         request_timeout config = from_secs 30 \<and>
         batch_timeout config = None \<and>
         naming_strategy config = UrlBased \<and>
         \<not> config.write_metadata config \<and>
         \<not> write_summary config)"

definition test_config_fields_are_publicly_modifiable :: bool where
  "test_config_fields_are_publicly_modifiable \<longleftrightarrow>
     (let config = config_default\<lparr>max_retries := 5, connections_per_host := 4, batch_timeout := Some (from_secs 60)\<rparr>
      in max_retries config = 5 \<and> connections_per_host config = 4 \<and> batch_timeout config = Some (from_secs 60))"

definition test_naming_strategy_default_is_url_based :: bool where
  "test_naming_strategy_default_is_url_based \<longleftrightarrow> naming_strategy_default = UrlBased"

lemma config_tests_pass:
  test_config_default_values test_config_fields_are_publicly_modifiable test_naming_strategy_default_is_url_based
  by (simp_all add: test_config_default_values_def test_config_fields_are_publicly_modifiable_def
      test_naming_strategy_default_is_url_based_def config_default_def naming_strategy_default_def)

section \<open>Validation (validation.rs)\<close>

text \<open>A header map of the tests: names and values in order.\<close>

definition test_headers :: "((rstr \<times> rstr) list, rstr) header_ops" where
  "test_headers = \<lparr>header_get = (\<lambda>hs name. map_of hs name), header_iter = (\<lambda>hs. hs), header_to_str = Inr\<rparr>"

definition passes_valid_response_with_matching_content_length :: bool where
  "passes_valid_response_with_matching_content_length \<longleftrightarrow>
     is_ok (validate_response test_headers (replicate 100 0) [(lit ''content-length'', lit ''100'')])"

definition passes_when_no_content_length_header :: bool where
  "passes_when_no_content_length_header \<longleftrightarrow> is_ok (validate_response test_headers (replicate 50 1) [])"

definition rejects_zero_byte_body :: bool where
  "rejects_zero_byte_body \<longleftrightarrow>
     (case validate_response test_headers [] [] of Inl (ValidationFailed _) \<Rightarrow> True | _ \<Rightarrow> False)"

definition rejects_content_length_mismatch :: bool where
  "rejects_content_length_mismatch \<longleftrightarrow>
     (case validate_response test_headers (replicate 500 0) [(lit ''content-length'', lit ''1000'')] of
        Inl (ValidationFailed msg) \<Rightarrow> str_contains msg (lit ''content-length mismatch'')
      | _ \<Rightarrow> False)"

definition passes_exact_content_length_match :: bool where
  "passes_exact_content_length_match \<longleftrightarrow>
     is_ok (validate_response test_headers (replicate 256 0) [(lit ''content-length'', lit ''256'')])"

lemma number_headers:
  "parse_unsigned usize_max (lit ''100'') = Some 100" "parse_unsigned usize_max (lit ''256'') = Some 256"
  "parse_unsigned usize_max (lit ''1000'') = Some 1000"
  by (simp_all add: parse_unsigned_def is_ascii_digit_def usize_max_def)

lemma validation_tests_pass:
  passes_valid_response_with_matching_content_length passes_when_no_content_length_header rejects_zero_byte_body
  rejects_content_length_mismatch passes_exact_content_length_match
  using number_headers
  by (simp_all add: passes_valid_response_with_matching_content_length_def passes_when_no_content_length_header_def
      rejects_zero_byte_body_def rejects_content_length_mismatch_def passes_exact_content_length_match_def
      validate_response_def test_headers_def header_str_def Let_def)

end
