(* ===== verification/Unit_Tests_Async.thy ===== *)
theory Unit_Tests_Async
  imports Unit_Tests
begin

text \<open>
  The asynchronous unit tests of \<open>retry.rs\<close>, \<open>writer.rs\<close>, \<open>metadata.rs\<close>, \<open>summary.rs\<close> and \<open>dns.rs\<close>,
  run on the model.  Their world is what a test observes: the count of calls and the delays
  slept, the files written, the time.  The clock that the jitter is taken from, the JSON
  encoder and the resolver are parameters.
\<close>

section \<open>Retries (retry.rs)\<close>

definition ok_response :: "unit response_data" where
  "ok_response = \<lparr>rd_bytes = as_bytes (lit ''ok''), rd_headers = (), rd_elapsed = from_millis 10\<rparr>"

text \<open>The number of calls so far, and the delays between them.\<close>

type_synonym calls = "nat \<times> duration list"

definition counting_env :: "(calls \<Rightarrow> u32) \<Rightarrow> calls retry_env" where
  "counting_env nanos = \<lparr>subsec_nanos = nanos, sleep = (\<lambda>d (n, ds). (n, ds @ [d]))\<rparr>"

text \<open>\<open>f n\<close> is what call number \<open>n\<close> returns; the test looks at the result, the retries, the calls and the delays.\<close>

definition retry_test ::
    "bool \<Rightarrow> (calls \<Rightarrow> u32) \<Rightarrow> u32 \<Rightarrow> duration \<Rightarrow> (nat \<Rightarrow> download_error + unit response_data) \<Rightarrow>
     (download_error + unit response_data \<Rightarrow> u32 \<Rightarrow> nat \<Rightarrow> duration list \<Rightarrow> bool) \<Rightarrow> bool" where
  "retry_test oc nanos maxr base f check =
     (case with_retry oc (counting_env nanos) maxr base (\<lambda>(n, ds). (Val (f n), (Suc n, ds))) (0, []) of
        (Val (result, retries), (count, delays)) \<Rightarrow> check result retries count delays
      | _ \<Rightarrow> False)"

definition returns_immediately_on_success :: "bool \<Rightarrow> (calls \<Rightarrow> u32) \<Rightarrow> bool" where
  "returns_immediately_on_success oc nanos =
     retry_test oc nanos 3 (from_millis 10)
       (\<lambda>n. Inr ok_response)
       (\<lambda>result retries count delays. is_ok result \<and> retries = 0 \<and> count = 1)"

definition retries_on_429 :: "bool \<Rightarrow> (calls \<Rightarrow> u32) \<Rightarrow> bool" where
  "retries_on_429 oc nanos =
     retry_test oc nanos 3 (from_millis 10)
       (\<lambda>n. if n < 2 then Inl (HttpStatus 429 (lit ''Too Many Requests'') None) else Inr ok_response)
       (\<lambda>result retries count delays. is_ok result \<and> retries = 2 \<and> count = 3)"

definition retries_on_503 :: "bool \<Rightarrow> (calls \<Rightarrow> u32) \<Rightarrow> bool" where
  "retries_on_503 oc nanos =
     retry_test oc nanos 3 (from_millis 10)
       (\<lambda>n. if n < 1 then Inl (HttpStatus 503 (lit ''Service Unavailable'') None) else Inr ok_response)
       (\<lambda>result retries count delays. is_ok result \<and> retries = 1 \<and> count = 2)"

definition retries_on_timeout :: "bool \<Rightarrow> (calls \<Rightarrow> u32) \<Rightarrow> bool" where
  "retries_on_timeout oc nanos =
     retry_test oc nanos 3 (from_millis 10)
       (\<lambda>n. if n < 1 then Inl Timeout else Inr ok_response)
       (\<lambda>result retries count delays. is_ok result \<and> retries = 1)"

definition retries_on_connection_failed :: "bool \<Rightarrow> (calls \<Rightarrow> u32) \<Rightarrow> bool" where
  "retries_on_connection_failed oc nanos =
     retry_test oc nanos 3 (from_millis 10)
       (\<lambda>n. if n < 1 then Inl (ConnectionFailed (lit ''reset'')) else Inr ok_response)
       (\<lambda>result retries count delays. is_ok result \<and> retries = 1)"

definition does_not_retry_on_404 :: "bool \<Rightarrow> (calls \<Rightarrow> u32) \<Rightarrow> bool" where
  "does_not_retry_on_404 oc nanos =
     retry_test oc nanos 3 (from_millis 10)
       (\<lambda>n. Inl (HttpStatus 404 (lit ''Not Found'') None))
       (\<lambda>result retries count delays. isl result \<and> retries = 0 \<and> count = 1)"

definition does_not_retry_on_tls_error :: "bool \<Rightarrow> (calls \<Rightarrow> u32) \<Rightarrow> bool" where
  "does_not_retry_on_tls_error oc nanos =
     retry_test oc nanos 3 (from_millis 10)
       (\<lambda>n. Inl (TlsError (lit ''bad cert'')))
       (\<lambda>result retries count delays. isl result \<and> retries = 0 \<and> count = 1)"

definition does_not_retry_on_dns_failed :: "bool \<Rightarrow> (calls \<Rightarrow> u32) \<Rightarrow> bool" where
  "does_not_retry_on_dns_failed oc nanos =
     retry_test oc nanos 3 (from_millis 10)
       (\<lambda>n. Inl (DnsResolutionFailed (lit ''NXDOMAIN'')))
       (\<lambda>result retries count delays. isl result \<and> retries = 0 \<and> count = 1)"

definition respects_retry_after_header :: "bool \<Rightarrow> (calls \<Rightarrow> u32) \<Rightarrow> bool" where
  "respects_retry_after_header oc nanos =
     retry_test oc nanos 3 (from_millis 10)
       (\<lambda>n. if n < 1 then Inl (HttpStatus 429 (lit ''rate limited'') (Some (from_millis 50))) else Inr ok_response)
       (\<lambda>result retries count delays. is_ok result \<and> 40 \<le> sum_list (map as_millis delays))"

definition backoff_increases_exponentially :: "bool \<Rightarrow> (calls \<Rightarrow> u32) \<Rightarrow> bool" where
  "backoff_increases_exponentially oc nanos =
     retry_test oc nanos 3 (from_millis 20)
       (\<lambda>n. Inl Timeout)
       (\<lambda>result retries count delays. count = 4 \<and> delays ! 0 < delays ! 1)"

definition returns_last_error_after_exhausting_retries :: "bool \<Rightarrow> (calls \<Rightarrow> u32) \<Rightarrow> bool" where
  "returns_last_error_after_exhausting_retries oc nanos =
     retry_test oc nanos 2 (from_millis 10)
       (\<lambda>n. Inl Timeout)
       (\<lambda>result retries count delays. result = Inl Timeout \<and> retries = 2 \<and> count = 3)"

definition retries_attempted_count_is_correct :: "bool \<Rightarrow> (calls \<Rightarrow> u32) \<Rightarrow> bool" where
  "retries_attempted_count_is_correct oc nanos =
     retry_test oc nanos 2 (from_millis 10)
       (\<lambda>n. Inl (HttpStatus 503 (lit ''Service Unavailable'') None))
       (\<lambda>result retries count delays. isl result \<and> retries = 2 \<and> count = 3)"

lemma counting_env_simps [simp]:
  "subsec_nanos (counting_env nanos) = nanos" "sleep (counting_env nanos) d (n, ds) = (n, ds @ [d])"
  by (simp_all add: counting_env_def)

lemmas retry_eval = retry_test_def with_retry_def with_retry_from.simps u32_add_def

lemma retry_tests_pass:
  "returns_immediately_on_success oc nanos"
  "retries_on_429 oc nanos"
  "retries_on_503 oc nanos"
  "retries_on_timeout oc nanos"
  "retries_on_connection_failed oc nanos"
  "does_not_retry_on_404 oc nanos"
  "does_not_retry_on_tls_error oc nanos"
  "does_not_retry_on_dns_failed oc nanos"
  "respects_retry_after_header oc nanos"
  "returns_last_error_after_exhausting_retries oc nanos"
  "retries_attempted_count_is_correct oc nanos"
  by (simp_all add: retry_eval word_le_nat_alt compute_backoff_def
      returns_immediately_on_success_def
      retries_on_429_def
      retries_on_503_def
      retries_on_timeout_def
      retries_on_connection_failed_def
      does_not_retry_on_404_def
      does_not_retry_on_tls_error_def
      does_not_retry_on_dns_failed_def
      respects_retry_after_header_def
      returns_last_error_after_exhausting_retries_def
      retries_attempted_count_is_correct_def)

lemma backoff_test_passes: "backoff_increases_exponentially oc nanos"
proof -
  have "compute_backoff 0 (from_millis 20) None m < compute_backoff 1 (from_millis 20) None n" for m n
    by (rule backoff_strictly_grows) simp_all
  then show ?thesis
    by (simp add: backoff_increases_exponentially_def retry_eval word_le_nat_alt)
qed

section \<open>Files (writer.rs, metadata.rs)\<close>

text \<open>The files below a temporary directory; nothing can be written under \<open>/proc\<close>.\<close>

definition test_fs :: "(path \<rightharpoonup> bytes) fs_ops" where
  "test_fs = \<lparr>fs_write = (\<lambda>p bs files. if prefix (lit ''/proc/'') p then (Val (Inl (lit ''permission denied'')), files)
       else (Val (Inr ()), files(p \<mapsto> bs))),
     fs_create_dir_all = (\<lambda>p. ret (Inr ()))\<rparr>"

definition temp_dir :: path where
  "temp_dir = lit ''/tmp/test''"

definition writes_bytes_to_path :: bool where
  "writes_bytes_to_path \<longleftrightarrow>
     (let path = path_join temp_dir (lit ''test.jpg'')
      in case write_image test_fs (as_bytes (lit ''image data'')) path Map.empty of
           (Val (Inr _), files) \<Rightarrow> files path \<noteq> None | _ \<Rightarrow> False)"

definition written_bytes_match_input :: bool where
  "written_bytes_match_input \<longleftrightarrow>
     (let path = path_join temp_dir (lit ''test.png'')
      in case write_image test_fs [1, 2, 3, 4, 5] path Map.empty of
           (Val (Inr _), files) \<Rightarrow> files path = Some [1, 2, 3, 4, 5] | _ \<Rightarrow> False)"

definition returns_write_error_on_permission_denied :: bool where
  "returns_write_error_on_permission_denied \<longleftrightarrow>
     (case write_image test_fs (as_bytes (lit ''data'')) (lit ''/proc/nonexistent/test.jpg'') Map.empty of
        (Val (Inl (WriteError _)), _) \<Rightarrow> True | _ \<Rightarrow> False)"

definition writes_complete_content :: bool where
  "writes_complete_content \<longleftrightarrow>
     (let path = path_join temp_dir (lit ''complete.jpg'')
      in case write_image test_fs (as_bytes (lit ''complete write test'')) path Map.empty of
           (Val (Inr _), files) \<Rightarrow> files path = Some (as_bytes (lit ''complete write test'')) | _ \<Rightarrow> False)"

lemma writer_tests_pass:
  writes_bytes_to_path written_bytes_match_input returns_write_error_on_permission_denied writes_complete_content
  by (simp_all add: writes_bytes_to_path_def written_bytes_match_input_def returns_write_error_on_permission_denied_def
      writes_complete_content_def write_image_def test_fs_def temp_dir_def path_join_def and_then_def Let_def)

text \<open>\<open>json\<close> encodes metadata and \<open>parse\<close> decodes them.\<close>

definition codec :: "('a \<Rightarrow> rstr + bytes) \<Rightarrow> (bytes \<Rightarrow> 'a option) \<Rightarrow> bool" where
  "codec json parse \<longleftrightarrow> (\<forall>x. \<exists>bs. json x = Inr bs \<and> parse bs = Some x)"

definition sample_metadata :: file_metadata where
  "sample_metadata = \<lparr>
     fm_url = lit ''https://example.com/photo.jpg'',
     fm_filename = lit ''photo.jpg'',
     fm_size_bytes = 1024,
     fm_content_hash = Some (lit ''abcdef1234567890''),
     fm_content_type = Some (lit ''image/jpeg''),
     fm_elapsed_ms = f64_div (f64_of_nat 301) (f64_of_nat 2),
     fm_downloaded_at = lit ''2025-01-15T10:30:00+00:00'',
     fm_headers = [lit ''content-type'' \<mapsto> lit ''image/jpeg'', lit ''content-length'' \<mapsto> lit ''1024'']\<rparr>"

text \<open>The metadata that are in the sidecar of an image after it was written.\<close>

definition written_sidecar ::
    "(file_metadata \<Rightarrow> rstr + bytes) \<Rightarrow> (bytes \<Rightarrow> file_metadata option) \<Rightarrow> rstr \<Rightarrow> rstr \<Rightarrow> file_metadata option" where
  "written_sidecar json parse img sidecar =
     (case write_metadata_sidecar test_fs json (path_join temp_dir img) sample_metadata Map.empty of
        (Val (Inr _), files) \<Rightarrow> (case files (path_join temp_dir sidecar) of Some bs \<Rightarrow> parse bs | None \<Rightarrow> None)
      | _ \<Rightarrow> None)"

definition metadata_contains_all_fields ::
    "(file_metadata \<Rightarrow> rstr + bytes) \<Rightarrow> (bytes \<Rightarrow> file_metadata option) \<Rightarrow> bool" where
  "metadata_contains_all_fields json parse \<longleftrightarrow>
     written_sidecar json parse (lit ''photo.jpg'') (lit ''photo.jpg.json'') = Some sample_metadata"

definition metadata_filename_appends_json :: bool where
  "metadata_filename_appends_json \<longleftrightarrow>
     path_file_name (sidecar_path (lit ''/tmp/photo.jpg'')) = Some (lit ''photo.jpg.json'')"

definition metadata_content_hash_populated :: bool where
  "metadata_content_hash_populated \<longleftrightarrow> fm_content_hash sample_metadata = Some (lit ''abcdef1234567890'')"

definition metadata_contains_response_headers ::
    "(file_metadata \<Rightarrow> rstr + bytes) \<Rightarrow> (bytes \<Rightarrow> file_metadata option) \<Rightarrow> bool" where
  "metadata_contains_response_headers json parse =
     (case written_sidecar json parse (lit ''test.jpg'') (lit ''test.jpg.json'') of
        Some m \<Rightarrow> fm_headers m (lit ''content-type'') \<noteq> None \<and> fm_headers m (lit ''content-length'') \<noteq> None
      | None \<Rightarrow> False)"

definition metadata_is_valid_json ::
    "(file_metadata \<Rightarrow> rstr + bytes) \<Rightarrow> (bytes \<Rightarrow> file_metadata option) \<Rightarrow> bool" where
  "metadata_is_valid_json json parse \<longleftrightarrow>
     written_sidecar json parse (lit ''test.jpg'') (lit ''test.jpg.json'') \<noteq> None"

lemma written_sidecar_eq:
  assumes "codec json parse" "sidecar_path (path_join temp_dir img) = path_join temp_dir sidecar"
    and "\<not> prefix (lit ''/proc/'') (path_join temp_dir sidecar)"
  shows "written_sidecar json parse img sidecar = Some sample_metadata"
proof -
  obtain bs where "json sample_metadata = Inr bs" "parse bs = Some sample_metadata"
    using assms(1) unfolding codec_def by blast
  with assms(2,3) show ?thesis
    by (simp add: written_sidecar_def write_metadata_sidecar_def write_image_def test_fs_def and_then_def)
qed

lemma test_sidecars:
  "sidecar_path (path_join temp_dir (lit ''photo.jpg'')) = path_join temp_dir (lit ''photo.jpg.json'')"
  "sidecar_path (path_join temp_dir (lit ''test.jpg'')) = path_join temp_dir (lit ''test.jpg.json'')"
  "\<not> prefix (lit ''/proc/'') (path_join temp_dir (lit ''photo.jpg.json''))"
  "\<not> prefix (lit ''/proc/'') (path_join temp_dir (lit ''test.jpg.json''))"
  by code_simp+

lemma metadata_tests_pass:
  "codec json parse \<Longrightarrow> metadata_contains_all_fields json parse" metadata_filename_appends_json metadata_content_hash_populated
  "codec json parse \<Longrightarrow> metadata_contains_response_headers json parse" "codec json parse \<Longrightarrow> metadata_is_valid_json json parse"
proof -
  assume "codec json parse"
  note written = written_sidecar_eq [OF this test_sidecars(1,3)] written_sidecar_eq [OF this test_sidecars(2,4)]
  show "metadata_contains_all_fields json parse" "metadata_contains_response_headers json parse" "metadata_is_valid_json json parse"
    by (simp_all add: metadata_contains_all_fields_def metadata_contains_response_headers_def metadata_is_valid_json_def
        written del: lit_simps) (simp add: sample_metadata_def)
next
  show metadata_filename_appends_json by code_simp
  show metadata_content_hash_populated by (simp add: metadata_content_hash_populated_def sample_metadata_def)
qed

section \<open>Summary (summary.rs)\<close>

definition make_results :: "download_result list" where
  "make_results =
     [\<lparr>url = lit ''https://cdn.example.com/img1.jpg'', outcome = Success (lit ''/tmp/img1.jpg'') 1024 None (from_millis 100)\<rparr>,
      \<lparr>url = lit ''https://cdn.example.com/img2.jpg'', outcome = Success (lit ''/tmp/img2.jpg'') 2048 None (from_millis 200)\<rparr>,
      \<lparr>url = lit ''https://other.example.com/img3.jpg'', outcome = Failure Timeout (from_millis 300) 3\<rparr>]"

text \<open>The summary that is in the file \<open>summary.json\<close> after it was written.\<close>

definition written_summary ::
    "bool \<Rightarrow> (batch_summary \<Rightarrow> rstr + bytes) \<Rightarrow> (bytes \<Rightarrow> batch_summary option) \<Rightarrow> batch_summary option" where
  "written_summary oc json parse =
     (case write_batch_summary oc test_fs json temp_dir config_default make_results 3 3 (from_secs 1) Map.empty of
        (Val (Inr _), files) \<Rightarrow> (case files (path_join temp_dir (lit ''summary.json'')) of Some bs \<Rightarrow> parse bs | None \<Rightarrow> None)
      | _ \<Rightarrow> None)"

type_synonym summary_test = "bool \<Rightarrow> (batch_summary \<Rightarrow> rstr + bytes) \<Rightarrow> (bytes \<Rightarrow> batch_summary option) \<Rightarrow> bool"

definition summary_contains_expected_fields :: summary_test where
  "summary_contains_expected_fields oc json parse =
     (case written_summary oc json parse of
        Some v \<Rightarrow> bs_total_urls v = 3 \<and> bs_unique_urls v = 3 \<and> bs_successful v = 2 \<and> bs_failed v = 1
      | None \<Rightarrow> False)"

definition summary_per_host_stats_correct :: summary_test where
  "summary_per_host_stats_correct oc json parse =
     (case written_summary oc json parse of
        Some v \<Rightarrow>
          (case bs_per_host_stats v (lit ''cdn.example.com'') of
             Some cdn \<Rightarrow> hs_requests cdn = 2 \<and> hs_successful cdn = 2 \<and> hs_failed cdn = 0
           | None \<Rightarrow> False) \<and>
          (case bs_per_host_stats v (lit ''other.example.com'') of
             Some h \<Rightarrow> hs_requests h = 1 \<and> hs_successful h = 0 \<and> hs_failed h = 1
           | None \<Rightarrow> False)
      | None \<Rightarrow> False)"

definition summary_total_bytes_correct :: summary_test where
  "summary_total_bytes_correct oc json parse =
     (case written_summary oc json parse of Some v \<Rightarrow> bs_total_bytes v = 1024 + 2048 | None \<Rightarrow> False)"

definition summary_written_to_correct_path :: "bool \<Rightarrow> (batch_summary \<Rightarrow> rstr + bytes) \<Rightarrow> bool" where
  "summary_written_to_correct_path oc json =
     (case write_batch_summary oc test_fs json temp_dir config_default make_results 3 3 (from_secs 1) Map.empty of
        (Val (Inr _), files) \<Rightarrow> files (path_join temp_dir (lit ''summary.json'')) \<noteq> None | _ \<Rightarrow> False)"

definition summary_is_valid_json :: summary_test where
  "summary_is_valid_json oc json parse \<longleftrightarrow> written_summary oc json parse \<noteq> None"

lemma test_hosts:
  "extract_host (lit ''https://cdn.example.com/img1.jpg'') = lit ''cdn.example.com''"
  "extract_host (lit ''https://cdn.example.com/img2.jpg'') = lit ''cdn.example.com''"
  "extract_host (lit ''https://other.example.com/img3.jpg'') = lit ''other.example.com''"
  by code_simp+

lemma test_summary:
  "\<exists>v cdn h. summarize oc config_default make_results 3 3 (from_secs 1) = Val v \<and>
     bs_total_urls v = 3 \<and> bs_unique_urls v = 3 \<and> bs_successful v = 2 \<and> bs_failed v = 1 \<and> bs_total_bytes v = 3072 \<and>
     bs_per_host_stats v (lit ''cdn.example.com'') = Some cdn \<and>
       hs_requests cdn = 2 \<and> hs_successful cdn = 2 \<and> hs_failed cdn = 0 \<and>
     bs_per_host_stats v (lit ''other.example.com'') = Some h \<and>
       hs_requests h = 1 \<and> hs_successful h = 0 \<and> hs_failed h = 1"
proof -
  have differ: "lit ''cdn.example.com'' \<noteq> lit ''other.example.com''" by simp
  then show ?thesis
    by (simp add: summarize_def make_results_def add_result_def test_hosts summary_start_def push_entry_def u64_add_def
        per_host_stats_def host_stats_of_def Let_def del: lit_simps)
qed

lemma summary_tests_pass:
  assumes "codec json parse"
  shows "summary_contains_expected_fields oc json parse" "summary_per_host_stats_correct oc json parse"
    "summary_total_bytes_correct oc json parse" "summary_written_to_correct_path oc json" "summary_is_valid_json oc json parse"
proof -
  obtain v cdn h where v: "summarize oc config_default make_results 3 3 (from_secs 1) = Val v"
    "bs_total_urls v = 3" "bs_unique_urls v = 3" "bs_successful v = 2" "bs_failed v = 1" "bs_total_bytes v = 3072"
    "bs_per_host_stats v (lit ''cdn.example.com'') = Some cdn" "hs_requests cdn = 2" "hs_successful cdn = 2" "hs_failed cdn = 0"
    "bs_per_host_stats v (lit ''other.example.com'') = Some h" "hs_requests h = 1" "hs_successful h = 0" "hs_failed h = 1"
    using test_summary [of oc] by blast
  obtain bs where bs: "json v = Inr bs" "parse bs = Some v" using assms unfolding codec_def by blast
  have "\<not> prefix (lit ''/proc/'') (path_join temp_dir (lit ''summary.json''))" by code_simp
  with v(1) bs have run: "write_batch_summary oc test_fs json temp_dir config_default make_results 3 3 (from_secs 1) Map.empty =
      (Val (Inr ()), [path_join temp_dir (lit ''summary.json'') \<mapsto> bs])"
    by (simp add: write_batch_summary_def write_image_def test_fs_def and_then_def del: lit_simps)
  with bs have written: "written_summary oc json parse = Some v" by (simp add: written_summary_def del: lit_simps)
  show "summary_contains_expected_fields oc json parse" "summary_per_host_stats_correct oc json parse"
    "summary_total_bytes_correct oc json parse" "summary_written_to_correct_path oc json" "summary_is_valid_json oc json parse"
    using v(2-)
    by (simp_all add: summary_contains_expected_fields_def summary_per_host_stats_correct_def summary_total_bytes_correct_def
        summary_written_to_correct_path_def summary_is_valid_json_def written run del: lit_simps)
qed

section \<open>DNS cache (dns.rs)\<close>

text \<open>A resolver that answers from \<open>names\<close>; the world is the time, which only sleeping changes.\<close>

definition names_env :: "(rstr \<Rightarrow> rstr + 'ip socket_addr list) \<Rightarrow> ('ip, instant) dns_env" where
  "names_env names = \<lparr>instant_now = (\<lambda>t. (t, t)), lookup_host = (\<lambda>s w. (Val (names s), w)), dns_lock = (\<lambda>w. w)\<rparr>"

text \<open>\<open>localhost\<close> has addresses and the names below \<open>.invalid\<close> have none.\<close>

definition test_names :: "(rstr \<Rightarrow> rstr + 'ip socket_addr list) \<Rightarrow> bool" where
  "test_names names \<longleftrightarrow>
     (\<forall>port. \<exists>addrs. names (host_port (lit ''localhost'', port)) = Inr addrs \<and> addrs \<noteq> []) \<and>
     (\<forall>port. isl (names (host_port (lit ''nonexistent.invalid'', port)))) \<and>
     (\<forall>port. isl (names (host_port (lit ''this-host-definitely-does-not-exist.invalid'', port))))"

text \<open>The result of a call and the cache after it; and a second call some time later.\<close>

definition resolved ::
    "(rstr \<Rightarrow> rstr + 'ip socket_addr list) \<Rightarrow> rstr \<Rightarrow> u16 \<Rightarrow> ('ip, instant) dns_world \<Rightarrow>
     (download_error + 'ip socket_addr list \<Rightarrow> ('ip, instant) dns_world \<Rightarrow> bool) \<Rightarrow> bool" where
  "resolved names host port w check =
     (case resolve (names_env names) host port w of (Val r, w') \<Rightarrow> check r w' | _ \<Rightarrow> False)"

type_synonym 'ip dns_test = "(rstr \<Rightarrow> rstr + 'ip socket_addr list) \<Rightarrow> instant \<Rightarrow> bool"

definition resolve_returns_addresses_for_valid_hostname :: "'ip dns_test" where
  "resolve_returns_addresses_for_valid_hostname names t =
     resolved names (lit ''localhost'') 80 (dns_new (from_secs 60), t) (\<lambda>result w. is_ok result \<and> projr result \<noteq> [])"

definition resolve_returns_cached_result_on_second_call :: "'ip dns_test" where
  "resolve_returns_cached_result_on_second_call names t =
     resolved names (lit ''localhost'') 80 (dns_new (from_secs 300), t) (\<lambda>r1 w.
     resolved names (lit ''localhost'') 80 w (\<lambda>r2 w'. is_ok r1 \<and> is_ok r2 \<and> projr r1 = projr r2))"

definition resolve_re_resolves_after_ttl_expires :: "'ip dns_test" where
  "resolve_re_resolves_after_ttl_expires names t =
     resolved names (lit ''localhost'') 80 (dns_new (from_millis 1), t) (\<lambda>r1 (dc, t').
     resolved names (lit ''localhost'') 80 (dc, t' + dur_nanos (from_millis 10)) (\<lambda>r2 w'.
       is_ok r1 \<and> projr r1 \<noteq> [] \<and> is_ok r2 \<and> projr r2 \<noteq> []))"

definition resolve_caches_dns_failures_with_shorter_ttl :: "'ip dns_test" where
  "resolve_caches_dns_failures_with_shorter_ttl names t =
     resolved names (lit ''this-host-definitely-does-not-exist.invalid'') 80 (dns_new (from_secs 300), t) (\<lambda>r1 w.
     resolved names (lit ''this-host-definitely-does-not-exist.invalid'') 80 w (\<lambda>r2 w'.
       isl r1 \<and> isl r2 \<and> instant_since (snd w') (snd w) < from_millis 100))"

definition resolve_returns_dns_resolution_failed_for_bad_hostname :: "'ip dns_test" where
  "resolve_returns_dns_resolution_failed_for_bad_hostname names t =
     resolved names (lit ''nonexistent.invalid'') 80 (dns_new (from_secs 60), t) (\<lambda>r w.
       case r of Inl (DnsResolutionFailed _) \<Rightarrow> True | _ \<Rightarrow> False)"

definition resolve_works_for_different_hosts_independently :: "'ip dns_test" where
  "resolve_works_for_different_hosts_independently names t =
     resolved names (lit ''localhost'') 80 (dns_new (from_secs 60), t) (\<lambda>r1 w.
     resolved names (lit ''localhost'') 443 w (\<lambda>r2 w'. is_ok r1 \<and> is_ok r2))"

lemma names_env_simps:
  "alone (names_env names)" "instant_now (names_env names) t = (t, t)"
  "lookup_host (names_env names) s w = (Val (names s), w)"
  by (simp_all add: names_env_def alone_def)

lemma resolved_miss:
  assumes "\<And>e. dc_cache dc host = Some e \<Longrightarrow> ce_expires_at e \<le> t"
    and "t + dur_nanos (dc_ttl dc) < instant_limit" "t + dur_nanos (dc_negative_ttl dc) < instant_limit"
  shows "resolved names host port (dc, t) check =
     (let r = names (host_port (host, port))
      in check (cached_result r)
           (remember host r (t + dur_nanos ((case r of Inr _ \<Rightarrow> dc_ttl | Inl _ \<Rightarrow> dc_negative_ttl) dc)) dc, t))"
proof -
  have "resolve (names_env names) host port (dc, t) = resolve_miss (names_env names) host port (dc, t)"
    using resolve_absent [OF names_env_simps(1)] resolve_expired [OF names_env_simps(1) _ names_env_simps(2)] assms(1)
    by (cases "dc_cache dc host") blast+
  with assms(2,3) show ?thesis
    by (simp add: resolved_def Let_def instant_add_def
        resolve_miss_eq [where env = "names_env names", OF names_env_simps(1) names_env_simps(3) names_env_simps(2)] split: sum.split)
qed

lemma resolved_hit:
  assumes "dc_cache dc host = Some e" "t < ce_expires_at e"
  shows "resolved names host port (dc, t) check = check (cached_result (ce_result e)) (dc, t)"
  using resolve_hit [OF names_env_simps(1) assms(1) names_env_simps(2) assms(2)] by (simp add: resolved_def)

lemma remember_simps [simp]:
  "dc_cache (remember host r x dc) = (dc_cache dc)(host \<mapsto> \<lparr>ce_result = r, ce_expires_at = x\<rparr>)"
  "dc_ttl (remember host r x dc) = dc_ttl dc" "dc_negative_ttl (remember host r x dc) = dc_negative_ttl dc"
  by (simp_all add: remember_def)

lemma dns_new_simps [simp]:
  "dc_cache (dns_new ttl) = Map.empty" "dc_ttl (dns_new ttl) = ttl" "dc_negative_ttl (dns_new ttl) = from_secs 30"
  by (simp_all add: dns_new_def)

lemma cached_result_simps [simp]:
  "cached_result (Inr addrs) = Inr addrs" "cached_result (Inl m) = Inl (DnsResolutionFailed m)"
  by (simp_all add: cached_result_def)

lemma dns_tests_pass:
  assumes "test_names names" "t + 301 * 1000000000 < instant_limit"
  shows "resolve_returns_addresses_for_valid_hostname names t" "resolve_returns_cached_result_on_second_call names t"
    "resolve_re_resolves_after_ttl_expires names t" "resolve_caches_dns_failures_with_shorter_ttl names t"
    "resolve_returns_dns_resolution_failed_for_bad_hostname names t" "resolve_works_for_different_hosts_independently names t"
proof -
  obtain a b where local: "names (host_port (lit ''localhost'', 80)) = Inr (a # b)"
    using assms(1) unfolding test_names_def by (metis neq_Nil_conv)
  obtain e1 e2 where bad: "names (host_port (lit ''nonexistent.invalid'', 80)) = Inl e1"
    "names (host_port (lit ''this-host-definitely-does-not-exist.invalid'', 80)) = Inl e2"
    using assms(1) unfolding test_names_def by (metis isl_def)
  have limit: "t + dur_nanos (from_secs s) < instant_limit" if "unat s \<le> 300" for s
    using assms(2) that by simp
  have short: "t + dur_nanos (from_millis m) < instant_limit" if "unat m \<le> 300000" for m
    using assms(2) that by simp
  have fresh: "resolved names host port (dns_new ttl, t) check =
     (let r = names (host_port (host, port))
      in check (cached_result r)
           (remember host r (t + dur_nanos (case r of Inr _ \<Rightarrow> ttl | Inl _ \<Rightarrow> from_secs 30)) (dns_new ttl), t))"
    if "t + dur_nanos ttl < instant_limit" for host port ttl check
    using that limit [of 30] by (subst resolved_miss) (simp_all add: Let_def split: sum.split)
  note eval = fresh limit short resolved_hit local bad Let_def
  show "resolve_returns_addresses_for_valid_hostname names t"
    by (simp add: resolve_returns_addresses_for_valid_hostname_def eval del: lit_simps dur_nanos_from_secs)
  show "resolve_returns_cached_result_on_second_call names t"
    by (simp add: resolve_returns_cached_result_on_second_call_def eval del: lit_simps dur_nanos_from_secs)
      (simp add: resolved_hit)
  show "resolve_re_resolves_after_ttl_expires names t"
    using assms(2)
    by (simp add: resolve_re_resolves_after_ttl_expires_def eval del: lit_simps dur_nanos_from_secs dur_nanos_from_millis)
      (subst resolved_miss; force simp: local Let_def simp del: lit_simps)
  have "instant_since t t < from_millis 100"
    by (simp add: dur_less_iff_nanos) (simp add: instant_since_def dur_nanos_def)
  then show "resolve_caches_dns_failures_with_shorter_ttl names t"
    by (simp add: resolve_caches_dns_failures_with_shorter_ttl_def eval del: lit_simps dur_nanos_from_secs)
      (simp add: resolved_hit)
  show "resolve_returns_dns_resolution_failed_for_bad_hostname names t"
    by (simp add: resolve_returns_dns_resolution_failed_for_bad_hostname_def eval del: lit_simps dur_nanos_from_secs)
  show "resolve_works_for_different_hosts_independently names t"
    by (simp add: resolve_works_for_different_hosts_independently_def eval del: lit_simps dur_nanos_from_secs)
      (simp add: resolved_hit)
qed

end
