(* ===== verification/Unit_Tests_Pool.thy ===== *)
theory Unit_Tests_Pool
  imports Batch Unit_Tests
begin

text \<open>
  The unit tests of \<open>pool.rs\<close>, run on the model.  Senders are numbers; a test says which
  HTTP/2 senders are dead and what another task does while \<open>acquire\<close> waits.  The hosts of the
  tests do not resolve, so opening a connection fails.
\<close>

declare split_paired_All [simp del] split_paired_Ex [simp del]

type_synonym test_pools = "(nat, nat, unit, unit) pool_world"

definition test_env :: "nat list \<Rightarrow> (test_pools \<Rightarrow> test_pools) \<Rightarrow> (nat, nat, unit, unit) pool_env" where
  "test_env dead meanwhile = \<lparr>
     poll_ready = (\<lambda>s w. (if s \<in> set dead then PollReadyErr else PollReadyOk, w)),
     new_notify = (\<lambda>w. ((), w)), notify_one = (\<lambda>n w. w), lock_point = (\<lambda>pw. pw),
     wait_notified = (\<lambda>d n pw. meanwhile pw),
     open_connection = (\<lambda>host port. ret (Inl (DnsResolutionFailed (lit ''NXDOMAIN''))))\<rparr>"

abbreviation idle_env :: "(nat, nat, unit, unit) pool_env" where
  "idle_env \<equiv> test_env [] (\<lambda>pw. pw)"

text \<open>Connections that a test puts into the pool itself.\<close>

definition test_host_pool :: "negotiated_protocol \<Rightarrow> (nat, nat, unit) host_pool" where
  "test_host_pool p = \<lparr>protocol = p, connections = [], notify = (), opening_count = 0, next_id = 0\<rparr>"

definition insert_sender ::
    "bool \<Rightarrow> negotiated_protocol \<Rightarrow> host_key \<Rightarrow> (nat, nat) connection_sender \<Rightarrow> (test_pools, usize) prog" where
  "insert_sender oc p key s =
     and_then (effect (\<lambda>(pools, w).
       (pools(key \<mapsto> (case pools key of Some hp \<Rightarrow> hp | None \<Rightarrow> test_host_pool p)), w))) (\<lambda>_.
     on_entry key
       (and_then (allocate_id oc) (\<lambda>i.
        and_then (modify (\<lambda>hp. hp\<lparr>connections := connections hp @ [\<lparr>conn_id = i, conn_sender = s\<rparr>]\<rparr>)) (\<lambda>_.
        ret i)))
       (lift_outcome Panic))"

definition insert_h2 :: "bool \<Rightarrow> rstr \<Rightarrow> u16 \<Rightarrow> nat \<Rightarrow> (test_pools, usize) prog" where
  "insert_h2 oc host port s = insert_sender oc Http2 (host, port) (ConnH2 s)"

definition insert_h1 :: "bool \<Rightarrow> rstr \<Rightarrow> u16 \<Rightarrow> nat \<Rightarrow> (test_pools, usize) prog" where
  "insert_h1 oc host port s = insert_sender oc Http1 (host, port) (ConnH1 (Some s))"

text \<open>\<open>unwrap()\<close>, the entry of a host, and a test on a new pool.\<close>

definition unwrap :: "('w, 'e + 'a) prog \<Rightarrow> ('w, 'a) prog" where
  "unwrap m = and_then m (\<lambda>r. case r of Inr x \<Rightarrow> ret x | Inl _ \<Rightarrow> lift_outcome Panic)"

definition host_entry_of :: "host_key \<Rightarrow> (test_pools, (nat, nat, unit) host_pool) prog" where
  "host_entry_of key = and_then (reads (\<lambda>(pools, w). pools key)) (\<lambda>e. case e of
      Some hp \<Rightarrow> ret hp | None \<Rightarrow> lift_outcome Panic)"

definition runs :: "(test_pools, bool) prog \<Rightarrow> bool" where
  "runs m = (case m (Map.empty, ()) of (Val b, _) \<Rightarrow> b | _ \<Rightarrow> False)"

definition is_h2_handle :: "(nat, nat) pool_handle \<Rightarrow> bool" where
  "is_h2_handle h = (case handle_sender h of HandleH2 _ \<Rightarrow> True | HandleH1 _ \<Rightarrow> False)"

definition h1_sender_of :: "(nat, nat) pool_handle \<Rightarrow> (test_pools, nat) prog" where
  "h1_sender_of h = (case handle_sender h of HandleH1 s \<Rightarrow> ret s | HandleH2 _ \<Rightarrow> lift_outcome Panic)"

abbreviation test_local :: rstr where
  "test_local \<equiv> lit ''test.local''"

section \<open>Tests\<close>

definition pool_starts_empty :: bool where
  "pool_starts_empty \<longleftrightarrow>
     fst (downloader_state config_default () :: (nat, nat, unit, (nat, unit) dns_world) pool_world) = Map.empty"

definition acquire_returns_injected_h2_connection :: "bool \<Rightarrow> bool" where
  "acquire_returns_injected_h2_connection oc = runs (
     and_then (insert_h2 oc test_local 443 7) (\<lambda>conn_id.
     and_then (unwrap (acquire oc idle_env config_default test_local 443)) (\<lambda>handle.
     ret (connection_id handle = conn_id \<and> is_h2_handle handle))))"

definition acquire_reuses_h2_connection :: "bool \<Rightarrow> bool" where
  "acquire_reuses_h2_connection oc = runs (
     and_then (insert_h2 oc test_local 443 7) (\<lambda>_.
     and_then (unwrap (acquire oc idle_env config_default test_local 443)) (\<lambda>handle1.
     and_then (unwrap (acquire oc idle_env config_default test_local 443)) (\<lambda>handle2.
     ret (connection_id handle1 = connection_id handle2)))))"

definition h1_checkout_is_exclusive :: "bool \<Rightarrow> bool" where
  "h1_checkout_is_exclusive oc = runs (
     and_then (insert_h1 oc test_local 80 7) (\<lambda>_.
     and_then (unwrap (acquire oc idle_env config_default test_local 80)) (\<lambda>handle.
     and_then (host_entry_of (test_local, 80)) (\<lambda>hp.
     ret (\<not> is_h2_handle handle \<and> length (connections hp) = 1 \<and> conn_sender (connections hp ! 0) = ConnH1 None)))))"

definition h1_return_makes_connection_reusable :: "bool \<Rightarrow> bool" where
  "h1_return_makes_connection_reusable oc = runs (
     and_then (insert_h1 oc test_local 80 7) (\<lambda>conn_id.
     and_then (unwrap (acquire oc idle_env config_default test_local 80)) (\<lambda>handle.
     and_then (h1_sender_of handle) (\<lambda>h1_sender.
     and_then (return_h1_connection idle_env (test_local, 80) conn_id h1_sender) (\<lambda>_.
     and_then (unwrap (acquire oc idle_env config_default test_local 80)) (\<lambda>handle2.
     ret (connection_id handle2 = conn_id)))))))"

text \<open>The waiter is woken by the task that returns the connection meanwhile.\<close>

definition h1_waits_when_all_checked_out :: "bool \<Rightarrow> bool" where
  "h1_waits_when_all_checked_out oc = runs (
     and_then (insert_h1 oc test_local 80 7) (\<lambda>conn_id.
     and_then (unwrap (acquire oc idle_env config_default test_local 80)) (\<lambda>handle.
     and_then (h1_sender_of handle) (\<lambda>h1_sender.
     let returns = (\<lambda>pw. snd (return_h1_connection idle_env (test_local, 80) conn_id h1_sender pw)) in
     and_then (unwrap (acquire oc (test_env [] returns) config_default test_local 80)) (\<lambda>handle2.
     ret (connection_id handle2 = conn_id))))))"

definition remove_dead_connection_cleans_pool :: "bool \<Rightarrow> bool" where
  "remove_dead_connection_cleans_pool oc = runs (
     and_then (insert_h2 oc test_local 443 7) (\<lambda>conn_id.
     and_then (remove_dead_connection idle_env (test_local, 443) conn_id) (\<lambda>_.
     and_then (host_entry_of (test_local, 443)) (\<lambda>hp.
     ret (connections hp = [])))))"

definition remove_dead_connection_notifies_waiters :: "bool \<Rightarrow> bool" where
  "remove_dead_connection_notifies_waiters oc = runs (
     and_then (insert_h2 oc test_local 443 7) (\<lambda>conn_id.
     and_then (unwrap (acquire oc idle_env config_default test_local 443)) (\<lambda>_.
     and_then (remove_dead_connection idle_env (test_local, 443) conn_id) (\<lambda>_.
     and_then (host_entry_of (test_local, 443)) (\<lambda>hp.
     ret (connections hp = []))))))"

definition pool_config_stores_custom_window_size :: "'cfg \<Rightarrow> bool" where
  "pool_config_stores_custom_window_size tls \<longleftrightarrow>
     stream_window_size (cp_config (pool_new (config_default\<lparr>stream_window_size := 1048576\<rparr>) tls)) = 1048576"

definition pool_config_stores_connections_per_host :: "'cfg \<Rightarrow> bool" where
  "pool_config_stores_connections_per_host tls \<longleftrightarrow>
     connections_per_host (cp_config (pool_new (config_default\<lparr>connections_per_host := 4\<rparr>) tls)) = 4"

definition h2_dead_connection_detected_and_removed :: "bool \<Rightarrow> bool" where
  "h2_dead_connection_detected_and_removed oc = runs (
     and_then (insert_h2 oc (lit ''dead.local'') 443 7) (\<lambda>_.
     and_then (acquire oc (test_env [7] (\<lambda>pw. pw)) config_default (lit ''dead.local'') 443) (\<lambda>result.
     and_then (reads (\<lambda>(pools, w). pools (lit ''dead.local'', 443))) (\<lambda>e.
     ret (isl result \<and> e = None)))))"

definition acquire_respects_connections_per_host_limit :: "bool \<Rightarrow> bool" where
  "acquire_respects_connections_per_host_limit oc = runs (
     let config = config_default\<lparr>connections_per_host := 2\<rparr> in
     and_then (insert_h1 oc test_local 80 7) (\<lambda>_.
     and_then (insert_h1 oc test_local 80 8) (\<lambda>_.
     and_then (unwrap (acquire oc idle_env config test_local 80)) (\<lambda>_.
     and_then (unwrap (acquire oc idle_env config test_local 80)) (\<lambda>_.
     and_then (host_entry_of (test_local, 80)) (\<lambda>hp.
     ret (length (connections hp) = 2 \<and> opening_count hp = 0)))))))"

definition notify_h2_complete_wakes_waiters :: "bool \<Rightarrow> bool" where
  "notify_h2_complete_wakes_waiters oc = runs (
     and_then (insert_h2 oc test_local 443 7) (\<lambda>_.
     and_then (unwrap (acquire oc idle_env config_default test_local 443)) (\<lambda>_.
     and_then (notify_h2_complete idle_env (test_local, 443)) (\<lambda>_.
     and_then (notify_h2_complete idle_env (lit ''unknown.local'', 443)) (\<lambda>_.
     ret True)))))"

section \<open>They pass\<close>

lemma idle_env_simps [simp]:
  "poll_ready (test_env dead f) s w = (if s \<in> set dead then PollReadyErr else PollReadyOk, w)"
  "new_notify (test_env dead f) w = ((), w)" "notify_one (test_env dead f) n w = w" "lock_point (test_env dead f) pw = pw"
  "wait_notified (test_env dead f) d n pw = f pw"
  "open_connection (test_env dead f) host port = ret (Inl (DnsResolutionFailed (lit ''NXDOMAIN'')))"
  by (simp_all add: test_env_def)

text \<open>The first two attempts of \<open>acquire\<close>.\<close>

lemma acquire_loop_step:
  "n = Suc m \<Longrightarrow> acquire_loop oc env cfg key n =
     and_then (effect (lock_point env)) (\<lambda>_.
     and_then (determine_action oc env cfg key) (\<lambda>action. case action of
         ReturnExisting h \<Rightarrow> ret (Inr h)
       | OpenNew is_first \<Rightarrow> open_and_insert oc env key is_first
       | Wait nt \<Rightarrow> and_then (effect (wait_notified env notify_wait_timeout nt)) (\<lambda>_.
                    acquire_loop oc env cfg key m)))"
  by (simp only: acquire_loop.simps(2))

lemma acquire_attempts:
  "acquire oc env cfg host port = acquire_loop oc env cfg (host, port) 32"
  "acquire_loop oc env cfg key 32 =
     and_then (effect (lock_point env)) (\<lambda>_.
     and_then (determine_action oc env cfg key) (\<lambda>action. case action of
         ReturnExisting h \<Rightarrow> ret (Inr h)
       | OpenNew is_first \<Rightarrow> open_and_insert oc env key is_first
       | Wait nt \<Rightarrow> and_then (effect (wait_notified env notify_wait_timeout nt)) (\<lambda>_.
                    acquire_loop oc env cfg key 31)))"
  "acquire_loop oc env cfg key 31 =
     and_then (effect (lock_point env)) (\<lambda>_.
     and_then (determine_action oc env cfg key) (\<lambda>action. case action of
         ReturnExisting h \<Rightarrow> ret (Inr h)
       | OpenNew is_first \<Rightarrow> open_and_insert oc env key is_first
       | Wait nt \<Rightarrow> and_then (effect (wait_notified env notify_wait_timeout nt)) (\<lambda>_.
                    acquire_loop oc env cfg key 30)))"
  by (simp only: acquire_def max_acquire_attempts_def) (rule acquire_loop_step, simp)+

lemmas pool_eval = runs_def and_then_def unwrap_def host_entry_of_def is_h2_handle_def h1_sender_of_def insert_h1_def insert_h2_def
  insert_sender_def on_entry_def allocate_id_def test_host_pool_def acquire_attempts determine_action_def h1_action_def
  h2_action_def on_env_def check_h2_ready_def scale_or_wait_def total_count_def return_h1_connection_def
  remove_dead_connection_def notify_h2_complete_def notify_waiter_def open_and_insert_def fail_opened_def dec_opening_def config_default_def

lemma h2_tests_pass:
  "acquire_returns_injected_h2_connection oc" "acquire_reuses_h2_connection oc" "remove_dead_connection_cleans_pool oc"
  "remove_dead_connection_notifies_waiters oc" "notify_h2_complete_wakes_waiters oc"
  by (simp_all add: acquire_returns_injected_h2_connection_def acquire_reuses_h2_connection_def
      remove_dead_connection_cleans_pool_def remove_dead_connection_notifies_waiters_def
      notify_h2_complete_wakes_waiters_def pool_eval del: lit_simps)

lemma h1_tests_pass:
  "h1_checkout_is_exclusive oc" "h1_return_makes_connection_reusable oc" "h1_waits_when_all_checked_out oc"
  "acquire_respects_connections_per_host_limit oc"
  by (simp_all add: h1_checkout_is_exclusive_def h1_return_makes_connection_reusable_def h1_waits_when_all_checked_out_def
      acquire_respects_connections_per_host_limit_def pool_eval Let_def del: lit_simps)

lemma dead_h2_test_passes: "h2_dead_connection_detected_and_removed oc"
  by (simp add: h2_dead_connection_detected_and_removed_def pool_eval del: lit_simps)

lemma pool_config_tests_pass:
  pool_starts_empty "pool_config_stores_custom_window_size tls" "pool_config_stores_connections_per_host tls"
  by (simp_all add: pool_starts_empty_def downloader_state_def pool_config_stores_custom_window_size_def
      pool_config_stores_connections_per_host_def pool_new_def)

end
