(* ===== verification/Unit_Tests_Py.thy ===== *)
theory Unit_Tests_Py
  imports Py_Bindings Unit_Tests
begin

text \<open>
  The unit tests of \<open>imgdl-py\<close>, run on the model: the Python configuration and its conversion,
  the results and the empty list of URLs.  Tests that need a server are left out.
\<close>

declare split_paired_All [simp del] split_paired_Ex [simp del]

section \<open>Configuration (config.rs)\<close>

text \<open>The arguments of most tests, and those of the tests with explicit values.\<close>

definition plain_args :: py_config where
  "plain_args = \<lparr>
     pc_buffer_size = 524288, pc_connections_per_host = 1, pc_dns_cache_ttl_secs = 300, pc_max_concurrent = 200,
     pc_max_concurrent_per_host = 100, pc_max_retries = 3, pc_retry_base_delay_ms = 100,
     pc_connect_timeout_secs = f64_of_nat 10, pc_request_timeout_secs = f64_of_nat 30, pc_batch_timeout_secs = None,
     pc_naming_strategy = lit ''url_based'', pc_write_metadata = False, pc_write_summary = False, pc_runtime_threads = 0\<rparr>"

definition explicit_args :: "rstr \<Rightarrow> py_config" where
  "explicit_args strategy = \<lparr>
     pc_buffer_size = 1048576, pc_connections_per_host = 4, pc_dns_cache_ttl_secs = 600, pc_max_concurrent = 50,
     pc_max_concurrent_per_host = 25, pc_max_retries = 5, pc_retry_base_delay_ms = 200,
     pc_connect_timeout_secs = f64_of_nat 5, pc_request_timeout_secs = f64_of_nat 60,
     pc_batch_timeout_secs = Some (f64_of_nat 120),
     pc_naming_strategy = strategy, pc_write_metadata = True, pc_write_summary = True, pc_runtime_threads = 4\<rparr>"

definition minus_one :: f64 where
  "minus_one = Fin True (2 ^ 52) (- 52)"

definition test_default_config :: bool where
  "test_default_config = (case py_config_new plain_args of
      Inl _ \<Rightarrow> False
    | Inr c \<Rightarrow> pc_buffer_size c = 524288 \<and> pc_connections_per_host c = 1 \<and> pc_dns_cache_ttl_secs c = 300 \<and>
        pc_max_concurrent c = 200 \<and> pc_max_concurrent_per_host c = 100 \<and> pc_max_retries c = 3 \<and>
        pc_retry_base_delay_ms c = 100 \<and> pc_connect_timeout_secs c = f64_of_nat 10 \<and>
        pc_request_timeout_secs c = f64_of_nat 30 \<and> pc_batch_timeout_secs c = None \<and>
        pc_naming_strategy c = lit ''url_based'' \<and> \<not> pc_write_metadata c \<and> \<not> pc_write_summary c \<and>
        pc_runtime_threads c = 0)"

definition test_config_with_explicit_values :: bool where
  "test_config_with_explicit_values = (case py_config_new (explicit_args (lit ''content_hash'')) of
      Inl _ \<Rightarrow> False
    | Inr c \<Rightarrow> pc_buffer_size c = 1048576 \<and> pc_connections_per_host c = 4 \<and> pc_dns_cache_ttl_secs c = 600 \<and>
        pc_max_concurrent c = 50 \<and> pc_max_concurrent_per_host c = 25 \<and> pc_max_retries c = 5 \<and>
        pc_retry_base_delay_ms c = 200 \<and> pc_connect_timeout_secs c = f64_of_nat 5 \<and>
        pc_request_timeout_secs c = f64_of_nat 60 \<and> pc_batch_timeout_secs c = Some (f64_of_nat 120) \<and>
        pc_naming_strategy c = lit ''content_hash'' \<and> pc_write_metadata c \<and> pc_write_summary c \<and>
        pc_runtime_threads c = 4)"

definition test_valid_naming_strategies :: bool where
  "test_valid_naming_strategies =
     list_all (\<lambda>strategy. is_ok (py_config_new (plain_args\<lparr>pc_naming_strategy := strategy\<rparr>)))
       [lit ''content_hash'', lit ''url_based'', lit ''sequential'', lit ''file_header'']"

definition test_invalid_naming_strategy :: bool where
  "test_invalid_naming_strategy = isl (py_config_new (plain_args\<lparr>pc_naming_strategy := lit ''invalid''\<rparr>))"

definition test_empty_naming_strategy :: bool where
  "test_empty_naming_strategy = isl (py_config_new (plain_args\<lparr>pc_naming_strategy := []\<rparr>))"

definition test_negative_connect_timeout_rejected :: bool where
  "test_negative_connect_timeout_rejected = isl (py_config_new (plain_args\<lparr>pc_connect_timeout_secs := minus_one\<rparr>))"

definition test_negative_request_timeout_rejected :: bool where
  "test_negative_request_timeout_rejected = isl (py_config_new (plain_args\<lparr>pc_request_timeout_secs := minus_one\<rparr>))"

definition test_negative_batch_timeout_rejected :: bool where
  "test_negative_batch_timeout_rejected = isl (py_config_new (plain_args\<lparr>pc_batch_timeout_secs := Some minus_one\<rparr>))"

text \<open>\<open>Config::new(...).unwrap()\<close>, converted, and a check of the configuration of the core.\<close>

definition converted :: "py_config \<Rightarrow> (config \<Rightarrow> bool) \<Rightarrow> bool" where
  "converted args check = (case py_config_new args of Inl _ \<Rightarrow> False | Inr c \<Rightarrow> passes (python_config_to_core c) check)"

definition test_python_config_to_core_all_fields :: bool where
  "test_python_config_to_core_all_fields = converted (explicit_args (lit ''sequential'')) (\<lambda>core.
     stream_window_size core = 1048576 \<and> connections_per_host core = 4 \<and> dns_cache_ttl core = from_secs 600 \<and>
     max_concurrent_global core = 50 \<and> max_concurrent_per_host core = 25 \<and> max_retries core = 5 \<and>
     retry_base_delay core = from_millis 200 \<and> Val (connect_timeout core) = from_secs_f64 (f64_of_nat 5) \<and>
     Val (request_timeout core) = from_secs_f64 (f64_of_nat 60) \<and>
     map_outcome_with Some (from_secs_f64 (f64_of_nat 120)) = Val (batch_timeout core) \<and>
     naming_strategy core = Sequential \<and> config.write_metadata core \<and> write_summary core)"

definition test_conversion_duration_fields :: bool where
  "test_conversion_duration_fields = converted plain_args (\<lambda>core.
     dns_cache_ttl core = from_secs 300 \<and> Val (connect_timeout core) = from_secs_f64 (f64_of_nat 10) \<and>
     retry_base_delay core = from_millis 100 \<and> batch_timeout core = None)"

definition test_conversion_batch_timeout_some :: bool where
  "test_conversion_batch_timeout_some = converted (plain_args\<lparr>pc_batch_timeout_secs := Some (f64_of_nat 60)\<rparr>) (\<lambda>core.
     map_outcome_with Some (from_secs_f64 (f64_of_nat 60)) = Val (batch_timeout core))"

definition test_conversion_naming_strategies :: bool where
  "test_conversion_naming_strategies =
     list_all (\<lambda>(strategy_str, expected).
         converted (plain_args\<lparr>pc_naming_strategy := strategy_str\<rparr>) (\<lambda>core. naming_strategy core = expected))
       [(lit ''content_hash'', ContentHash), (lit ''url_based'', UrlBased),
        (lit ''sequential'', Sequential), (lit ''file_header'', FileHeader)]"

definition test_conversion_preserves_core_defaults_for_unmapped_fields :: bool where
  "test_conversion_preserves_core_defaults_for_unmapped_fields = converted plain_args (\<lambda>core.
     user_agent core = user_agent config_default \<and> max_redirects core = max_redirects config_default)"

section \<open>Results (result.rs)\<close>

definition make_success_core_result :: download_result where
  "make_success_core_result = \<lparr>url = lit ''https://example.com/image.jpg'',
     outcome = Success (lit ''/tmp/image.jpg'') 12345 (Some (lit ''abc123def456'')) (from_millis 150)\<rparr>"

definition make_failure_core_result :: download_result where
  "make_failure_core_result = \<lparr>url = lit ''https://example.com/missing.jpg'',
     outcome = Failure (HttpStatus 404 (lit ''Not Found'') None) (from_millis 50) 2\<rparr>"

definition positive :: "f64 option \<Rightarrow> bool" where
  "positive x = (case x of Some y \<Rightarrow> f64_less f64_zero y | None \<Rightarrow> False)"

definition test_convert_success_outcome :: bool where
  "test_convert_success_outcome \<longleftrightarrow> (let r = core_result_to_python make_success_core_result in
     pr_success r \<and> pr_url r = lit ''https://example.com/image.jpg'' \<and> pr_path r = Some (lit ''/tmp/image.jpg'') \<and>
     pr_error r = None \<and> pr_size_bytes r = Some 12345 \<and> pr_content_hash r = Some (lit ''abc123def456'') \<and>
     pr_retries_attempted r = Some 0 \<and> positive (pr_elapsed_ms r))"

definition test_convert_failure_outcome :: bool where
  "test_convert_failure_outcome \<longleftrightarrow> (let r = core_result_to_python make_failure_core_result in
     \<not> pr_success r \<and> pr_url r = lit ''https://example.com/missing.jpg'' \<and> pr_path r = None \<and>
     (case pr_error r of Some e \<Rightarrow> str_contains e (lit ''404'') | None \<Rightarrow> False) \<and>
     pr_size_bytes r = None \<and> pr_content_hash r = None \<and> pr_retries_attempted r = Some 2 \<and> positive (pr_elapsed_ms r))"

definition test_repr_success :: bool where
  "test_repr_success \<longleftrightarrow> (let repr = py_repr (core_result_to_python make_success_core_result) in
     str_contains repr (lit ''success=True'') \<and> str_contains repr (lit ''path='' @ [39] @ lit ''/tmp/image.jpg'' @ [39]) \<and>
     str_contains repr (lit ''https://example.com/image.jpg''))"

definition test_repr_failure :: bool where
  "test_repr_failure \<longleftrightarrow> (let repr = py_repr (core_result_to_python make_failure_core_result) in
     str_contains repr (lit ''success=False'') \<and> str_contains repr (lit ''error='') \<and>
     str_contains repr (lit ''https://example.com/missing.jpg''))"

definition test_to_dict_has_all_keys :: bool where
  "test_to_dict_has_all_keys \<longleftrightarrow> (let keys = map fst (to_dict (core_result_to_python make_success_core_result)) in
     length keys = 8 \<and>
     list_all (\<lambda>k. k \<in> set keys) [lit ''url'', lit ''success'', lit ''path'', lit ''error'', lit ''size_bytes'',
       lit ''elapsed_ms'', lit ''content_hash'', lit ''retries_attempted''])"

definition test_to_dict_success_types :: bool where
  "test_to_dict_success_types \<longleftrightarrow> (let item = map_of (to_dict (core_result_to_python make_success_core_result)) in
     (\<exists>s. item (lit ''url'') = Some (PyStr s)) \<and> (\<exists>b. item (lit ''success'') = Some (PyBool b)) \<and>
     (\<exists>s. item (lit ''path'') = Some (PyStr s)) \<and> item (lit ''error'') = Some PyNone \<and>
     (\<exists>n. item (lit ''size_bytes'') = Some (PyInt n) \<and> n < 2 ^ 64) \<and> (\<exists>x. item (lit ''elapsed_ms'') = Some (PyFloat x)) \<and>
     (\<exists>s. item (lit ''content_hash'') = Some (PyStr s)) \<and> (\<exists>n. item (lit ''retries_attempted'') = Some (PyInt n) \<and> n < 2 ^ 32))"

definition test_to_dict_failure_nones :: bool where
  "test_to_dict_failure_nones \<longleftrightarrow> (let item = map_of (to_dict (core_result_to_python make_failure_core_result)) in
     item (lit ''path'') = Some PyNone \<and> item (lit ''size_bytes'') = Some PyNone \<and>
     item (lit ''content_hash'') = Some PyNone \<and> (\<exists>s. item (lit ''error'') = Some (PyStr s)))"

section \<open>The module (lib.rs)\<close>

definition test_empty_urls_rejected ::
    "('store, 'anchor, 'provider, 'builder, 'cfg) rustls_ops \<Rightarrow> (usize option \<Rightarrow> rstr + 'rt) \<Rightarrow>
     ('cfg downloader \<Rightarrow> rstr list \<Rightarrow> path \<Rightarrow> (('rt, 'cfg) py_state \<times> 'w, download_result list) prog) \<Rightarrow>
     ('rt, 'cfg) py_state \<times> 'w \<Rightarrow> bool" where
  "test_empty_urls_rejected ro build batch w =
     (case download_images ro build batch [] (lit ''.'') None w of (Val (Inl _), _) \<Rightarrow> True | _ \<Rightarrow> False)"

section \<open>They pass\<close>

lemma test_seconds:
  "from_secs_f64 (f64_of_nat 5) = Val (from_secs 5)" "from_secs_f64 (f64_of_nat 60) = Val (from_secs 60)"
  "from_secs_f64 (f64_of_nat 120) = Val (from_secs 120)"
proof -
  have floats: "f64_of_nat 5 = Fin False (5 * 2 ^ 50) (- 50)" "f64_of_nat 60 = Fin False (15 * 2 ^ 49) (- 47)"
    "f64_of_nat 120 = Fin False (15 * 2 ^ 49) (- 46)"
    by (simp add: f64_of_nat_def f64_round_def, simp add: f64_eval)+
  have nanos: "secs_to_nanos (5 * 2 ^ 50) (- 50) = 5000000000" "secs_to_nanos (15 * 2 ^ 49) (- 47) = 60000000000"
    "secs_to_nanos (15 * 2 ^ 49) (- 46) = 120000000000"
    by (simp_all add: secs_to_nanos_def div_half_even_def pow2_def)
  show "from_secs_f64 (f64_of_nat 5) = Val (from_secs 5)" "from_secs_f64 (f64_of_nat 60) = Val (from_secs 60)"
    "from_secs_f64 (f64_of_nat 120) = Val (from_secs 120)"
    unfolding floats from_secs_f64.simps nanos Let_def by (simp_all add: from_secs_def)
qed

lemma test_signs:
  "\<not> f64_less (f64_of_nat 5) f64_zero" "\<not> f64_less (f64_of_nat 60) f64_zero" "\<not> f64_less (f64_of_nat 120) f64_zero"
  "f64_less minus_one f64_zero"
  by (simp_all add: f64_of_nat_def f64_round_def f64_zero_def minus_one_def) (simp_all add: f64_eval)

lemma test_strategies:
  "lit ''content_hash'' \<in> set valid_naming_strategies" "lit ''url_based'' \<in> set valid_naming_strategies"
  "lit ''sequential'' \<in> set valid_naming_strategies" "lit ''file_header'' \<in> set valid_naming_strategies"
  "lit ''invalid'' \<notin> set valid_naming_strategies" "[] \<notin> set valid_naming_strategies"
  by code_simp+

lemma test_names:
  "naming_of_name (lit ''content_hash'') = Val ContentHash" "naming_of_name (lit ''url_based'') = Val UrlBased"
  "naming_of_name (lit ''sequential'') = Val Sequential" "naming_of_name (lit ''file_header'') = Val FileHeader"
  by code_simp+

lemmas py_eval = plain_args_def explicit_args_def py_config_new_def seconds_not_negative test_signs test_strategies

lemma py_config_tests_pass:
  test_default_config test_config_with_explicit_values test_valid_naming_strategies test_invalid_naming_strategy
  test_empty_naming_strategy test_negative_connect_timeout_rejected test_negative_request_timeout_rejected
  test_negative_batch_timeout_rejected
  by (simp_all add: test_default_config_def test_config_with_explicit_values_def test_valid_naming_strategies_def
      test_invalid_naming_strategy_def test_empty_naming_strategy_def test_negative_connect_timeout_rejected_def
      test_negative_request_timeout_rejected_def test_negative_batch_timeout_rejected_def py_eval del: lit_simps)

lemma conversion_tests_pass:
  test_python_config_to_core_all_fields test_conversion_duration_fields test_conversion_batch_timeout_some
  test_conversion_naming_strategies test_conversion_preserves_core_defaults_for_unmapped_fields
  by (simp_all add: test_python_config_to_core_all_fields_def test_conversion_duration_fields_def
      test_conversion_batch_timeout_some_def test_conversion_naming_strategies_def
      test_conversion_preserves_core_defaults_for_unmapped_fields_def converted_def python_config_to_core_def
      optional_secs_def test_seconds default_timeouts test_names Let_def py_eval del: lit_simps)

lemma millis_parts:
  "dur_secs (from_millis 150) = 0" "dur_subsec (from_millis 150) = 150000000"
  "dur_secs (from_millis 50) = 0" "dur_subsec (from_millis 50) = 50000000"
  by (simp_all add: from_millis_def)

lemma test_nanos: "unat (150000000 :: u32) = 150000000" "unat (50000000 :: u32) = 50000000"
  by simp_all

lemma test_floats:
  "f64_of_nat 0 = Fin False 0 0" "f64_of_nat 1000 = Fin False 8796093022208000 (- 43)"
  "f64_of_nat 1000000000 = Fin False 8388608000000000 (- 23)"
  "f64_of_nat 150000000 = Fin False 5033164800000000 (- 25)" "f64_of_nat 50000000 = Fin False 6710886400000000 (- 27)"
  by (simp add: f64_of_nat_def f64_round_def; simp add: f64_eval)+

lemma test_quotients:
  "f64_div (Fin False 5033164800000000 (- 25)) (Fin False 8388608000000000 (- 23)) = Fin False 5404319552844595 (- 55)"
  "f64_div (Fin False 6710886400000000 (- 27)) (Fin False 8388608000000000 (- 23)) = Fin False 7205759403792794 (- 57)"
  by (simp add: f64_round_def pow2_def; simp add: f64_eval)+

lemma test_sums:
  "f64_add (Fin False 0 0) (Fin False 5404319552844595 (- 55)) = Fin False 5404319552844595 (- 55)"
  "f64_add (Fin False 0 0) (Fin False 7205759403792794 (- 57)) = Fin False 7205759403792794 (- 57)"
  by (simp add: Let_def signed_at_def f64_round_int_def f64_round_def pow2_def; simp add: f64_eval)+

lemma test_products:
  "f64_mul (Fin False 5404319552844595 (- 55)) (Fin False 8796093022208000 (- 43)) = Fin False 5277655813324800 (- 45)"
  "f64_mul (Fin False 7205759403792794 (- 57)) (Fin False 8796093022208000 (- 43)) = Fin False 7036874417766400 (- 47)"
  by (simp add: f64_round_def pow2_def; simp add: f64_eval)+

lemma test_elapsed:
  "elapsed_ms_f64 (from_millis 150) = Fin False 5277655813324800 (- 45)"
  "elapsed_ms_f64 (from_millis 50) = Fin False 7036874417766400 (- 47)"
  by (simp_all only: elapsed_ms_f64_def as_secs_f64_def millis_parts unat_0 test_nanos test_floats test_quotients test_sums test_products)

lemma test_positive: "positive (Some (elapsed_ms_f64 (from_millis 150)))" "positive (Some (elapsed_ms_f64 (from_millis 50)))"
  by (simp_all add: positive_def test_elapsed f64_zero_def signed_at_def)

lemma result_tests_pass:
  test_convert_success_outcome test_convert_failure_outcome
  by (simp_all add: test_convert_success_outcome_def test_convert_failure_outcome_def core_result_to_python_def
      make_success_core_result_def make_failure_core_result_def test_positive Let_def del: lit_simps) code_simp

lemma repr_tests_pass: test_repr_success test_repr_failure
  by (simp_all add: test_repr_success_def test_repr_failure_def core_result_to_python_def make_success_core_result_def
      make_failure_core_result_def py_repr_def Let_def del: lit_simps append_Cons append_Nil str_contains.simps) code_simp+

lemma dict_tests_pass: test_to_dict_has_all_keys test_to_dict_success_types test_to_dict_failure_nones
  by (simp_all add: test_to_dict_has_all_keys_def test_to_dict_success_types_def test_to_dict_failure_nones_def
      to_dict_def core_result_to_python_def make_success_core_result_def make_failure_core_result_def py_option_def Let_def) blast

lemma empty_urls_test_passes: "test_empty_urls_rejected ro build batch w"
  by (simp add: test_empty_urls_rejected_def download_images_def)

end
