(* ===== verification/Mock_Server.thy ===== *)
theory Mock_Server
  imports Batch Unit_Tests
begin

text \<open>
  What the tests of \<open>transport.rs\<close> and \<open>orchestrator.rs\<close> run against: an HTTP server on
  127.0.0.1 with mounted replies (the crate \<open>wiremock\<close>), a resolver, files and a clock,
  as concrete instances of the environments of the model.  The clock moves when the server
  answers.
\<close>

declare split_paired_All [simp del] split_paired_Ex [simp del]

section \<open>The server\<close>

type_synonym headers = "(rstr \<times> rstr) list"

text \<open>A request as the server sees it: its path and its headers.\<close>

type_synonym mock_request = "rstr \<times> headers"

record response_template =
  rt_status :: u16
  rt_headers :: headers
  rt_body :: bytes
  rt_delay :: duration

definition template :: "u16 \<Rightarrow> rstr \<Rightarrow> response_template" where
  "template status body = \<lparr>rt_status = status, rt_headers = [], rt_body = as_bytes body, rt_delay = dur_zero\<rparr>"

definition insert_header :: "rstr \<Rightarrow> rstr \<Rightarrow> response_template \<Rightarrow> response_template" where
  "insert_header name v r = r\<lparr>rt_headers := (map ascii_lower name, v) # rt_headers r\<rparr>"

definition set_delay :: "duration \<Rightarrow> response_template \<Rightarrow> response_template" where
  "set_delay d r = r\<lparr>rt_delay := d\<rparr>"

text \<open>The mocks in the order of mounting: the first that matches answers, 404 if none does.\<close>

type_synonym mounts = "((mock_request \<Rightarrow> bool) \<times> response_template) list"

definition at_path :: "rstr \<Rightarrow> mock_request \<Rightarrow> bool" where
  "at_path p = (\<lambda>(q, hs). q = p)"

definition with_header :: "rstr \<Rightarrow> rstr \<Rightarrow> mock_request \<Rightarrow> bool" where
  "with_header name v = (\<lambda>(q, hs). map_of hs (map ascii_lower name) = Some v)"

fun answer :: "mounts \<Rightarrow> mock_request \<Rightarrow> response_template" where
  "answer [] req = template 404 []"
| "answer ((m, r) # ms) req = (if m req then r else answer ms req)"

record server_state =
  ss_clock :: instant
  ss_received :: "mock_request list"
  ss_files :: "path \<rightharpoonup> bytes"
  ss_dirs :: "path list"

definition started :: server_state where
  "started = \<lparr>ss_clock = 0, ss_received = [], ss_files = Map.empty, ss_dirs = []\<rparr>"

text \<open>The response that is sent for a template has the length of its body among its headers.\<close>

definition mock_response :: "response_template \<Rightarrow> (headers, bytes) http_response" where
  "mock_response r = \<lparr>resp_status = rt_status r,
     resp_headers = rt_headers r @ [(lit ''content-length'', show_nat (length (rt_body r)))], resp_body = rt_body r\<rparr>"

text \<open>An answer takes a millisecond more than its delay.\<close>

definition serve :: "mounts \<Rightarrow> mock_request \<Rightarrow> server_state \<Rightarrow> response_template \<times> server_state" where
  "serve ms req st = (answer ms req,
     st\<lparr>ss_clock := ss_clock st + dur_nanos (rt_delay (answer ms req)) + 1000000,
        ss_received := ss_received st @ [req]\<rparr>)"

section \<open>URIs\<close>

text \<open>Scheme, host, port and path of a URI.\<close>

type_synonym mock_uri = "rstr option \<times> rstr option \<times> u16 option \<times> rstr option"

definition parse_authority :: "rstr \<Rightarrow> rstr + rstr \<times> u16 option" where
  "parse_authority a =
     (let host = takeWhile (\<lambda>c. c \<noteq> 58) a in
      if host = [] then Inl (lit ''invalid authority'')
      else if host = a then Inr (host, None)
      else (case parse_unsigned 65535 (drop (length host + 1) a) of
              None \<Rightarrow> Inl (lit ''invalid port'')
            | Some n \<Rightarrow> Inr (host, Some (of_nat n))))"

definition parse_absolute :: "rstr \<Rightarrow> rstr \<Rightarrow> rstr + mock_uri" where
  "parse_absolute scheme s =
     (case parse_authority (takeWhile (\<lambda>c. c \<noteq> 47) s) of
        Inl e \<Rightarrow> Inl e
      | Inr (host, port) \<Rightarrow> Inr (Some scheme, Some host, port,
          Some (if dropWhile (\<lambda>c. c \<noteq> 47) s = [] then lit ''/'' else dropWhile (\<lambda>c. c \<noteq> 47) s)))"

definition parse_uri :: "rstr \<Rightarrow> rstr + mock_uri" where
  "parse_uri s =
     (if prefix (lit ''http://'') s then parse_absolute (lit ''http'') (drop 7 s)
      else if prefix (lit ''https://'') s then parse_absolute (lit ''https'') (drop 8 s)
      else if prefix (lit ''/'') s then Inr (None, None, None, Some s)
      else if s = [] \<or> 58 \<in> set s \<or> 47 \<in> set s then Inl (lit ''invalid uri'')
      else Inr (None, Some s, None, None))"

definition mock_uri :: "(mock_uri, rstr) uri_ops" where
  "mock_uri = \<lparr>uri_parse = parse_uri, uri_host = (\<lambda>(sc, h, p, q). h), uri_port = (\<lambda>(sc, h, p, q). p),
     uri_scheme = (\<lambda>(sc, h, p, q). sc), uri_path_and_query = (\<lambda>(sc, h, p, q). q), pq_as_str = (\<lambda>q. q),
     pq_parse = (\<lambda>s. if prefix (lit ''/'') s then Inr s else Inl (lit ''invalid path'')),
     uri_replace_pq = (\<lambda>(sc, h, p, _) q. Inr (sc, h, p, Some q))\<rparr>"

section \<open>Senders and time\<close>

text \<open>The server is the last part of the world, beside the pools and the DNS cache.\<close>

definition of_server :: "(server_state, 'a) prog \<Rightarrow> ('p \<times> 'd \<times> server_state, 'a) prog" where
  "of_server m = on_env (on_env m)"

definition clock_now :: "('p \<times> 'd \<times> server_state, instant) prog" where
  "clock_now = of_server (\<lambda>st. (Val (ss_clock st), st))"

definition clock_of :: "'p \<times> 'd \<times> server_state \<Rightarrow> instant" where
  "clock_of = (\<lambda>(p, d, st). ss_clock st)"

definition set_clock :: "instant \<Rightarrow> 'p \<times> 'd \<times> server_state \<Rightarrow> 'p \<times> 'd \<times> server_state" where
  "set_clock t = (\<lambda>(p, d, st). (p, d, st\<lparr>ss_clock := t\<rparr>))"

definition within :: "duration \<Rightarrow> ('p \<times> 'd \<times> server_state, 'a) prog \<Rightarrow> ('p \<times> 'd \<times> server_state, 'a option) prog" where
  "within limit m = (\<lambda>w. case m w of
      (Val r, w') \<Rightarrow>
        if clock_of w' \<le> clock_of w + dur_nanos limit then (Val (Some r), w')
        else (Val None, set_clock (clock_of w + dur_nanos limit) w')
    | (Panic, w') \<Rightarrow> (Panic, w')
    | (Diverges, w') \<Rightarrow> (Diverges, w'))"

definition mock_send :: "mounts \<Rightarrow> mock_request \<Rightarrow> (server_state, rstr + (headers, bytes) http_response) prog" where
  "mock_send ms req = (\<lambda>st. case serve ms req st of
     (r, st') \<Rightarrow> (Val (Inr (mock_response r)), st'))"

definition mock_http :: "mounts \<Rightarrow> (unit, unit, mock_request, mock_uri, headers, bytes, 'p \<times> 'd \<times> server_state) http_ops" where
  "mock_http ms = \<lparr>
     build_request = (\<lambda>path host agent. Inr (path,
       [(lit ''host'', host), (lit ''user-agent'', agent), (lit ''accept'', lit ''image/*'')])),
     sender_ready = (\<lambda>s. ret (Inr ())),
     sender_send = (\<lambda>s req. of_server (mock_send ms req)),
     collect_body = (\<lambda>b. ret (Inr b)),
     status_is_success = (\<lambda>s. 200 \<le> s \<and> s < 300),
     timeout_within = within,
     http_now = (\<lambda>w. (clock_of w, w))\<rparr>"

lemma mock_http_simps [simp]:
  "build_request (mock_http ms) path host agent = Inr (path,
       [(lit ''host'', host), (lit ''user-agent'', agent), (lit ''accept'', lit ''image/*'')])"
  "sender_ready (mock_http ms) s = ret (Inr ())" "collect_body (mock_http ms) b = ret (Inr b)"
  "sender_send (mock_http ms) s req = of_server (mock_send ms req)"
  "status_is_success (mock_http ms) st \<longleftrightarrow> 200 \<le> st \<and> st < 300"
  "timeout_within (mock_http ms) d m = within d m" "http_now (mock_http ms) w = (clock_of w, w)"
  by (simp_all add: mock_http_def)

lemma mock_uri_simps [simp]:
  "uri_parse mock_uri = parse_uri" "uri_host mock_uri (sc, h, p, q) = h" "uri_port mock_uri (sc, h, p, q) = p"
  "uri_scheme mock_uri (sc, h, p, q) = sc" "uri_path_and_query mock_uri (sc, h, p, q) = q" "pq_as_str mock_uri r = r"
  "pq_parse mock_uri s = (if prefix (lit ''/'') s then Inr s else Inl (lit ''invalid path''))"
  "uri_replace_pq mock_uri (sc, h, p, q) r = Inr (sc, h, p, Some r)"
  by (simp_all add: mock_uri_def del: lit_simps)

lemma test_headers_simps [simp]:
  "header_get test_headers = map_of" "header_to_str test_headers v = Inr v" "header_iter test_headers hs = hs"
  by (simp_all add: test_headers_def fun_eq_iff)

lemma mock_response_simps [simp]:
  "resp_status (mock_response r) = rt_status r" "resp_body (mock_response r) = rt_body r"
  "resp_headers (mock_response r) = rt_headers r @ [(lit ''content-length'', show_nat (length (rt_body r)))]"
  by (simp_all add: mock_response_def)

lemma send_mock_request:
  "send_request (mock_http ms) s req (p, d, st) =
     (Val (Inr (mock_response (answer ms req))), (p, d, snd (serve ms req st)))"
  by (simp add: send_request_def try_map_err_def try_then_def and_then_def of_server_def on_env_def mock_send_def
      serve_def map_err_def)

text \<open>One round of the redirect loop.\<close>

lemma loop_round_on_mock:
  "redirect_loop oc mock_uri test_headers (mock_http ms) s host rc (numeral fuel) (sc, h, p, Some path) n (x, d, st) =
     (let req = (path, [(lit ''host'', host), (lit ''user-agent'', rc_user_agent rc), (lit ''accept'', lit ''image/*'')]);
          resp = answer ms req
      in (if is_redirect (rt_status resp) then
            try_then (redirect_step oc mock_uri test_headers (mock_http ms) host (rc_max_redirects rc) (sc, h, p, Some path) n
              (mock_response resp)) (\<lambda>next_round.
            case next_round of
              Inl r \<Rightarrow> ret (Inr r)
            | Inr (resolved, n) \<Rightarrow> redirect_loop oc mock_uri test_headers (mock_http ms) s host rc (pred_numeral fuel) resolved n)
          else if \<not> (200 \<le> rt_status resp \<and> rt_status resp < 300) then
            ret (Inl (HttpStatus (rt_status resp) (take 200 (from_utf8_lossy (rt_body resp)))
              (parse_retry_after test_headers (resp_headers (mock_response resp)))))
          else ret (Inr (Response \<lparr>rd_bytes = rt_body resp, rd_headers = resp_headers (mock_response resp), rd_elapsed = dur_zero\<rparr>)))
        (x, d, snd (serve ms req st)))"
  by (simp add: numeral_eq_Suc redirect_loop.simps(2) try_then_def and_then_def send_mock_request map_err_def Let_def
      request_path_def error_response_def success_response_def try_map_err_def del: lit_simps)

section \<open>The host of the tests\<close>

abbreviation local_host :: rstr where
  "local_host \<equiv> lit ''127.0.0.1''"

text \<open>The server has some port; the URL of a path on it.\<close>

definition server_url :: "u16 \<Rightarrow> rstr \<Rightarrow> rstr" where
  "server_url port p = lit ''http://127.0.0.1:'' @ show_nat (unat port) @ p"

lemma server_url_parses:
  assumes "p = 47 # q"
  shows "parse_uri (server_url port p) = Inr (Some (lit ''http''), Some local_host, Some port, Some p)"
proof -
  define a where "a = lit ''127.0.0.1:'' @ show_nat (unat port)"
  have url: "server_url port p = lit ''http://'' @ a @ p" by (simp add: server_url_def a_def)
  have plain: "\<forall>c \<in> set a. c \<noteq> 47"
    by (auto simp: a_def is_ascii_digit_def dest!: show_nat_digits)
  have halves: "takeWhile (\<lambda>c. c \<noteq> 47) (a @ 47 # q) = a" "dropWhile (\<lambda>c. c \<noteq> 47) (a @ 47 # q) = 47 # q"
    using plain by simp_all
  have "unat port \<le> 65535" using unsigned_less [of port, where 'a = nat] by simp
  then have "parse_authority a = Inr (local_host, Some port)"
    by (simp add: parse_authority_def a_def parse_unsigned_show_nat)
  then have "parse_absolute (lit ''http'') (a @ p) = Inr (Some (lit ''http''), Some local_host, Some port, Some p)"
    using assms by (simp add: parse_absolute_def halves del: lit_simps)
  then show ?thesis by (simp add: parse_uri_def url)
qed

lemma parse_path [simp]: "parse_uri (47 # q) = Inr (None, None, None, Some (47 # q))"
  by (simp add: parse_uri_def)

lemma dur_nanos_zero [simp]: "dur_nanos dur_zero = 0"
  by (simp add: dur_nanos_def dur_zero_def)

end
