(* ===== verification/Unit_Tests_Transport.thy ===== *)
theory Unit_Tests_Transport
  imports Mock_Server
begin

text \<open>
  The unit tests of \<open>transport.rs\<close>, run on the model against the server of \<open>Mock_Server\<close>: each
  requests one path on an HTTP/1.1 connection and looks at the result and at the requests
  the server received.
\<close>

declare split_paired_All [simp del] split_paired_Ex [simp del]

definition request_limits :: request_config where
  "request_limits = \<lparr>rc_user_agent = lit ''imgdl/0.1'', rc_request_timeout = from_secs 5, rc_max_redirects = 5\<rparr>"

definition request_on ::
    "bool \<Rightarrow> (unit, unit, mock_request, mock_uri, headers, bytes, unit \<times> unit \<times> server_state) http_ops \<Rightarrow>
     u16 \<Rightarrow> rstr \<Rightarrow> request_config \<Rightarrow>
     (unit \<times> unit \<times> server_state, download_error + (mock_uri, headers) transport_result) prog" where
  "request_on oc ht port p rc =
     (case parse_uri (server_url port p) of
        Inl e \<Rightarrow> lift_outcome Panic
      | Inr uri \<Rightarrow> execute_request oc mock_uri test_headers ht (SenderH1 ()) uri local_host rc 7)"

type_synonym request_check =
  "download_error + (mock_uri, headers) transport_result \<Rightarrow> mock_request list \<Rightarrow> bool"

definition requesting :: "bool \<Rightarrow> mounts \<Rightarrow> u16 \<Rightarrow> rstr \<Rightarrow> request_config \<Rightarrow> request_check \<Rightarrow> bool" where
  "requesting oc ms port p rc check =
     (case request_on oc (mock_http ms) port p rc ((), (), started) of
        (Val r, (_, _, st)) \<Rightarrow> check r (ss_received st)
      | _ \<Rightarrow> False)"

definition responds_with :: "rstr \<Rightarrow> request_check" where
  "responds_with body = (\<lambda>r received. case r of
      Inr (Response data) \<Rightarrow> rd_bytes data = as_bytes body | _ \<Rightarrow> False)"

definition redirecting :: "u16 \<Rightarrow> rstr \<Rightarrow> rstr \<Rightarrow> (mock_request \<Rightarrow> bool) \<times> response_template" where
  "redirecting status p location = (at_path p, insert_header (lit ''Location'') location (template status []))"

section \<open>The tests\<close>

definition sends_correct_headers :: "bool \<Rightarrow> u16 \<Rightarrow> bool" where
  "sends_correct_headers oc port =
     (let matches = (\<lambda>req. with_header (lit ''Host'') (lit ''127.0.0.1'') req \<and>
          with_header (lit ''User-Agent'') (lit ''imgdl/0.1'') req \<and> with_header (lit ''Accept'') (lit ''image/*'') req)
      in requesting oc [(matches, template 200 (lit ''ok''))] port (lit ''/test.jpg'') request_limits
        (\<lambda>r received. is_ok r \<and> length (filter matches received) = 1))"

definition no_accept_encoding_header :: "bool \<Rightarrow> u16 \<Rightarrow> bool" where
  "no_accept_encoding_header oc port =
     requesting oc [(\<lambda>req. True, template 200 (lit ''ok''))] port (lit ''/test.jpg'') request_limits
       (\<lambda>r received. is_ok r \<and> length received = 1 \<and> map_of (snd (received ! 0)) (lit ''accept-encoding'') = None)"

definition returns_response_data_correctly :: "bool \<Rightarrow> u16 \<Rightarrow> bool" where
  "returns_response_data_correctly oc port =
     requesting oc [(\<lambda>req. True, insert_header (lit ''Content-Type'') (lit ''image/jpeg'') (template 200 (lit ''image-data-here'')))]
       port (lit ''/img.jpg'') request_limits
       (\<lambda>r received. case r of
          Inr (Response data) \<Rightarrow> rd_bytes data = as_bytes (lit ''image-data-here'') \<and>
            header_get test_headers (rd_headers data) (lit ''content-type'') = Some (lit ''image/jpeg'') \<and>
            0 < dur_nanos (rd_elapsed data)
        | _ \<Rightarrow> False)"

definition returns_timeout_on_slow_response :: "bool \<Rightarrow> u16 \<Rightarrow> bool" where
  "returns_timeout_on_slow_response oc port =
     requesting oc [(\<lambda>req. True, set_delay (from_secs 5) (template 200 (lit ''slow'')))] port (lit ''/slow.jpg'')
       (request_limits\<lparr>rc_request_timeout := from_millis 100\<rparr>) (\<lambda>r received. r = Inl Timeout)"

definition returns_http_status_for_404 :: "bool \<Rightarrow> u16 \<Rightarrow> bool" where
  "returns_http_status_for_404 oc port =
     requesting oc [(\<lambda>req. True, template 404 (lit ''Not Found''))] port (lit ''/missing.jpg'') request_limits
       (\<lambda>r received. case r of
          Inl (HttpStatus code msg _) \<Rightarrow> code = 404 \<and> str_contains msg (lit ''Not Found'') | _ \<Rightarrow> False)"

definition follows_301_redirect :: "bool \<Rightarrow> u16 \<Rightarrow> bool" where
  "follows_301_redirect oc port =
     requesting oc [redirecting 301 (lit ''/old'') (lit ''/new''), (at_path (lit ''/new''), template 200 (lit ''redirected''))]
       port (lit ''/old'') request_limits (responds_with (lit ''redirected''))"

definition follows_302_redirect :: "bool \<Rightarrow> u16 \<Rightarrow> bool" where
  "follows_302_redirect oc port =
     requesting oc [redirecting 302 (lit ''/temp-old'') (lit ''/temp-new''), (at_path (lit ''/temp-new''), template 200 (lit ''found''))]
       port (lit ''/temp-old'') request_limits (responds_with (lit ''found''))"

definition follows_307_redirect :: "bool \<Rightarrow> u16 \<Rightarrow> bool" where
  "follows_307_redirect oc port =
     requesting oc [redirecting 307 (lit ''/a'') (lit ''/b''), (at_path (lit ''/b''), template 200 (lit ''307ok''))]
       port (lit ''/a'') request_limits (responds_with (lit ''307ok''))"

definition follows_308_redirect :: "bool \<Rightarrow> u16 \<Rightarrow> bool" where
  "follows_308_redirect oc port =
     requesting oc [redirecting 308 (lit ''/c'') (lit ''/d''), (at_path (lit ''/d''), template 200 (lit ''308ok''))]
       port (lit ''/c'') request_limits (responds_with (lit ''308ok''))"

definition returns_too_many_redirects :: "bool \<Rightarrow> u16 \<Rightarrow> bool" where
  "returns_too_many_redirects oc port =
     requesting oc [redirecting 302 (lit ''/loop'') (lit ''/loop'')] port (lit ''/loop'')
       (request_limits\<lparr>rc_max_redirects := 3\<rparr>)
       (\<lambda>r received. case r of Inl (TooManyRedirects _) \<Rightarrow> True | _ \<Rightarrow> False)"

text \<open>The server has closed the connection: its sender never becomes ready.\<close>

definition returns_connection_failed_for_broken_connection :: "bool \<Rightarrow> u16 \<Rightarrow> bool" where
  "returns_connection_failed_for_broken_connection oc port =
     (case request_on oc ((mock_http [])\<lparr>sender_ready := (\<lambda>s. ret (Inl (lit ''connection closed'')))\<rparr>) port
         (lit ''/test.jpg'') request_limits ((), (), started) of
        (Val (Inl (ConnectionFailed _)), _) \<Rightarrow> True
      | _ \<Rightarrow> False)"

definition cross_host_redirect_returns_redirect_signal :: "bool \<Rightarrow> u16 \<Rightarrow> bool" where
  "cross_host_redirect_returns_redirect_signal oc port =
     requesting oc [redirecting 301 (lit ''/cross'') (lit ''https://other-host.example.com/image.jpg'')] port (lit ''/cross'')
       request_limits
       (\<lambda>r received. case r of
          Inr (Redirect redir) \<Rightarrow> uri_host mock_uri (new_uri redir) = Some (lit ''other-host.example.com'') \<and>
            redirects_remaining redir = 4
        | _ \<Rightarrow> False)"

definition returns_429_with_retry_after :: "bool \<Rightarrow> u16 \<Rightarrow> bool" where
  "returns_429_with_retry_after oc port =
     requesting oc [(\<lambda>req. True, insert_header (lit ''Retry-After'') (lit ''2'') (template 429 (lit ''rate limited'')))]
       port (lit ''/limited'') request_limits
       (\<lambda>r received. case r of
          Inl (HttpStatus code _ ra) \<Rightarrow> code = 429 \<and> ra = Some (from_secs 2) | _ \<Rightarrow> False)"

section \<open>They pass\<close>

lemmas mock_eval = requesting_def request_on_def server_url_parses execute_request_def execute_with_redirects_def
  loop_round_on_mock answer.simps template_def insert_header_def set_delay_def serve_def started_def request_limits_def
  within_def clock_of_def set_clock_def and_then_def try_then_def is_redirect_def Let_def responds_with_def
  at_path_def with_header_def redirecting_def

lemma header_tests_pass: "sends_correct_headers oc port" "no_accept_encoding_header oc port"
  by (simp_all add: sends_correct_headers_def no_accept_encoding_header_def mock_eval ascii_lower_def)

lemma one_millisecond: "dur_nanos (instant_since 1000000 0) = 1000000"
  by (simp add: instant_since_def dur_nanos_def)

lemma data_tests_pass: "returns_response_data_correctly oc port"
  by (simp add: returns_response_data_correctly_def mock_eval ascii_lower_def one_millisecond)

lemma timeout_test_passes: "returns_timeout_on_slow_response oc port"
  by (simp add: returns_timeout_on_slow_response_def mock_eval)

lemma not_found_lossy: "from_utf8_lossy (as_bytes (lit ''Not Found'')) = lit ''Not Found''"
  by (rule from_utf8_lossy_as_bytes) (simp add: scalar_def)

lemma not_found_test_passes: "returns_http_status_for_404 oc port"
  using not_found_lossy by (simp add: returns_http_status_for_404_def mock_eval)

lemma redirect_tests_pass:
  "follows_301_redirect oc port" "follows_302_redirect oc port" "follows_307_redirect oc port" "follows_308_redirect oc port"
  by (simp_all add: follows_301_redirect_def follows_302_redirect_def follows_307_redirect_def follows_308_redirect_def
      mock_eval ascii_lower_def redirect_step_def redirect_location_def resolve_redirect_def map_err_def u8_add_def)

text \<open>The endless redirect: three rounds are followed, the fourth is refused.\<close>

definition endless :: mounts where
  "endless = [redirecting 302 (lit ''/loop'') (lit ''/loop'')]"

definition endless_loop ::
    "bool \<Rightarrow> u16 \<Rightarrow> nat \<Rightarrow> u8 \<Rightarrow> (unit \<times> unit \<times> server_state, download_error + (mock_uri, headers) transport_result) prog" where
  "endless_loop oc port fuel n = redirect_loop oc mock_uri test_headers (mock_http endless) (SenderH1 ()) local_host
     (request_limits\<lparr>rc_max_redirects := 3\<rparr>) fuel (Some (lit ''http''), Some local_host, Some port, Some (lit ''/loop'')) n"

lemma endless_round:
  assumes "u8_add oc n 1 = Val m"
  shows "\<exists>st'. ss_clock st' = ss_clock st + 1000000 \<and>
     endless_loop oc port (numeral fuel) n ((), (), st) =
       (if m > 3 then (Val (Inl (too_many_redirects 3)), ((), (), st'))
        else endless_loop oc port (pred_numeral fuel) m ((), (), st'))"
proof -
  define st' where "st' = snd (serve endless (lit ''/loop'',
     [(lit ''host'', local_host), (lit ''user-agent'', lit ''imgdl/0.1''), (lit ''accept'', lit ''image/*'')]) st)"
  have "answer endless (lit ''/loop'', hs) = insert_header (lit ''Location'') (lit ''/loop'') (template 302 [])" for hs
    by (simp add: endless_def redirecting_def at_path_def)
  then show ?thesis
    using assms
    by (intro exI [of _ st'])
      (simp add: st'_def serve_def endless_loop_def loop_round_on_mock request_limits_def insert_header_def template_def
        Let_def is_redirect_def redirect_step_def redirect_location_def resolve_redirect_def map_err_def try_then_def
        and_then_def ascii_lower_def)
qed

lemma endless_refused:
  "\<exists>st'. ss_clock st' = ss_clock st + 4000000 \<and>
     endless_loop oc port 7 0 ((), (), st) = (Val (Inl (too_many_redirects 3)), ((), (), st'))"
proof -
  have add: "u8_add oc 0 1 = Val 1" "u8_add oc 1 1 = Val 2" "u8_add oc 2 1 = Val 3" "u8_add oc 3 1 = Val 4"
    by (simp_all add: u8_add_def)
  obtain st1 where "ss_clock st1 = ss_clock st + 1000000"
    "endless_loop oc port 7 0 ((), (), st) = endless_loop oc port 6 1 ((), (), st1)"
    using endless_round [OF add(1), of st port "num.Bit1 (num.Bit1 num.One)"] by auto
  moreover obtain st2 where "ss_clock st2 = ss_clock st1 + 1000000"
    "endless_loop oc port 6 1 ((), (), st1) = endless_loop oc port 5 2 ((), (), st2)"
    using endless_round [OF add(2), of st1 port "num.Bit0 (num.Bit1 num.One)"] by auto
  moreover obtain st3 where "ss_clock st3 = ss_clock st2 + 1000000"
    "endless_loop oc port 5 2 ((), (), st2) = endless_loop oc port 4 3 ((), (), st3)"
    using endless_round [OF add(3), of st2 port "num.Bit1 (num.Bit0 num.One)"] by auto
  moreover obtain st4 where "ss_clock st4 = ss_clock st3 + 1000000"
    "endless_loop oc port 4 3 ((), (), st3) = (Val (Inl (too_many_redirects 3)), ((), (), st4))"
    using endless_round [OF add(4), of st3 port "num.Bit0 (num.Bit0 num.One)"] by auto
  ultimately show ?thesis by (intro exI [of _ st4]) simp
qed

lemma limit_test_passes: "returns_too_many_redirects oc port"
proof -
  obtain st' where "ss_clock st' = 4000000"
    and run: "endless_loop oc port 7 0 ((), (), started) = (Val (Inl (too_many_redirects 3)), ((), (), st'))"
    using endless_refused [of started oc port] by (auto simp: started_def)
  then show ?thesis
    using run [unfolded endless_loop_def endless_def]
    by (simp add: returns_too_many_redirects_def requesting_def request_on_def server_url_parses execute_request_def
        execute_with_redirects_def within_def clock_of_def and_then_def request_limits_def too_many_redirects_def started_def)
qed

lemma other_host_parses: "parse_uri (lit ''https://other-host.example.com/image.jpg'') =
    Inr (Some (lit ''https''), Some (lit ''other-host.example.com''), None, Some (lit ''/image.jpg''))"
  by (simp add: parse_uri_def parse_absolute_def parse_authority_def)

lemma cross_host_step:
  assumes "rt_headers r = [(lit ''location'', lit ''https://other-host.example.com/image.jpg'')]"
  shows "redirect_step oc mock_uri test_headers (mock_http ms) local_host 5 cur 0 (mock_response r) w =
   (Val (Inr (Inl (Redirect \<lparr>new_uri = (Some (lit ''https''), Some (lit ''other-host.example.com''), None, Some (lit ''/image.jpg'')),
      redirects_remaining = 4\<rparr>))), w)"
proof -
  have other: "\<not> eq_ignore_ascii_case (lit ''other-host.example.com'') local_host"
    by (simp add: eq_ignore_ascii_case_def)
  have "resolve_redirect mock_uri cur (lit ''https://other-host.example.com/image.jpg'') =
      Inr (Some (lit ''https''), Some (lit ''other-host.example.com''), None, Some (lit ''/image.jpg''))"
    by (simp add: resolve_redirect_def other_host_parses Let_def del: lit_simps)
  with other assms show ?thesis
    by (simp add: redirect_step_def u8_add_def and_then_def try_then_def redirect_location_def map_err_def Let_def del: lit_simps)
qed

lemma cross_host_test_passes: "cross_host_redirect_returns_redirect_signal oc port"
proof -
  have reply: "insert_header (lit ''Location'') v (template 301 []) =
      \<lparr>rt_status = 301, rt_headers = [(lit ''location'', v)], rt_body = [], rt_delay = dur_zero\<rparr>" for v
    by (simp add: insert_header_def template_def ascii_lower_def as_bytes_def)
  have path: "parse_uri (server_url port (lit ''/cross'')) = Inr (Some (lit ''http''), Some local_host, Some port, Some (lit ''/cross''))"
    using server_url_parses [of "lit ''/cross''" "lit ''cross''"] by simp
  show ?thesis
    by (simp add: cross_host_redirect_returns_redirect_signal_def requesting_def request_on_def path
        execute_request_def execute_with_redirects_def loop_round_on_mock redirecting_def at_path_def reply is_redirect_def
        request_limits_def cross_host_step try_then_def and_then_def within_def clock_of_def serve_def started_def Let_def
        del: lit_simps)
qed

lemma broken_round:
  assumes "sender_ready ht s = ret (Inl e)" "build_request ht (request_path us cur) host (rc_user_agent rc) = Inr req"
  shows "redirect_loop oc us ho ht s host rc (numeral fuel) cur n w = (Val (Inl (request_error ''sender not ready: '' e)), w)"
  using assms by (simp add: numeral_eq_Suc redirect_loop.simps(2) try_then_def and_then_def map_err_def send_request_def try_map_err_def)

lemma broken_test_passes: "returns_connection_failed_for_broken_connection oc port"
  by (simp add: returns_connection_failed_for_broken_connection_def request_on_def server_url_parses
      execute_request_def execute_with_redirects_def broken_round within_def clock_of_def and_then_def request_error_def)

lemma retry_after_test_passes: "returns_429_with_retry_after oc port"
  by (simp add: returns_429_with_retry_after_def mock_eval ascii_lower_def parse_retry_after_def header_str_ok_def
      parse_unsigned_def is_ascii_digit_def)

end
