(* ===== verification/Mock_Downloads.thy ===== *)
theory Mock_Downloads
  imports Mock_Server
begin

text \<open>
  Downloads and batches against the server of \<open>Mock_Server\<close>: the environment of a whole
  downloader in plain mode, and what its operations do there.  A connection is opened or
  taken from the pool, the reply is saved or reported, and the connection is idle again.  The
  tasks of a batch are run one after the other, which is one of their orders.
\<close>

declare split_paired_All [simp del] split_paired_Ex [simp del]

section \<open>The environment\<close>

type_synonym mock_world = "(unit, unit, unit, (rstr, server_state) dns_world) pool_world"

text \<open>127.0.0.1 resolves to itself and accepts connections on every port; no other name resolves.\<close>

definition mock_dns :: "(rstr, server_state) dns_env" where
  "mock_dns = \<lparr>instant_now = (\<lambda>st. (ss_clock st, st)),
     lookup_host = (\<lambda>hp. ret (if prefix (lit ''127.0.0.1:'') hp then Inr [(lit ''127.0.0.1'', 0)] else Inl (lit ''NXDOMAIN''))),
     dns_lock = (\<lambda>w. w)\<rparr>"

definition mock_net :: "(rstr, unit, unit, unit, unit, unit, unit, server_state) net_ops" where
  "mock_net = \<lparr>tcp_connect = (\<lambda>d a. ret (Some (Inr ()))), show_addr = fst, plain_handshake = (\<lambda>tcp. ret (Inr ())),
     server_name = (\<lambda>h. Inr ()), tls_connect = (\<lambda>cfg sn tcp. ret (Inl (lit ''no TLS''))), alpn_protocol = (\<lambda>t. None),
     h2_handshake = (\<lambda>opts t. ret (Inr ())), h1_handshake = (\<lambda>t. ret (Inr ()))\<rparr>"

definition plain_downloader :: "config \<Rightarrow> unit downloader" where
  "plain_downloader cfg = \<lparr>dl_pool = pool_new_plain cfg (), dl_config = cfg\<rparr>"

definition mock_pool :: "config \<Rightarrow> (unit, unit, unit, (rstr, server_state) dns_world) pool_env" where
  "mock_pool cfg = connected_env mock_dns mock_net (plain_downloader cfg)
     \<lparr>poll_ready = (\<lambda>s w. (PollReadyOk, w)), new_notify = (\<lambda>w. ((), w)), notify_one = (\<lambda>n w. w),
      lock_point = (\<lambda>pw. pw), wait_notified = (\<lambda>d n pw. pw), open_connection = (\<lambda>host port. ret (Inl Timeout))\<rparr>"

definition mock_env ::
    "mounts \<Rightarrow> (bytes \<Rightarrow> bytes) \<Rightarrow> config \<Rightarrow>
     (unit, unit, unit, (rstr, server_state) dns_world, mock_request, mock_uri, rstr, headers, rstr, bytes) download_env" where
  "mock_env ms sha cfg = \<lparr>de_pool = mock_pool cfg,
     de_retry = \<lparr>subsec_nanos = (\<lambda>w. 0), sleep = (\<lambda>d w. set_clock (clock_of w + dur_nanos d) w)\<rparr>,
     de_http = mock_http ms, de_uri = mock_uri, de_headers = test_headers,
     de_fs = \<lparr>fs_write = (\<lambda>p bs. of_server (\<lambda>st. (Val (Inr ()), st\<lparr>ss_files := (ss_files st)(p \<mapsto> bs)\<rparr>))),
       fs_create_dir_all = (\<lambda>p. of_server (\<lambda>st. (Val (Inr ()), st\<lparr>ss_dirs := p # ss_dirs st\<rparr>)))\<rparr>,
     de_sha256 = sha, de_metadata_json = (\<lambda>m. Inr []), de_summary_json = (\<lambda>s. Inr []),
     de_now = clock_now, de_utc_now = ret [], wait_permit = (\<lambda>h pw. pw), release_permits = (\<lambda>h pw. pw)\<rparr>"

text \<open>The tasks in turn; what ends after the deadline is not joined.\<close>

fun join_in_turn :: "mock_world join_set" where
  "join_in_turn [] deadline = ret []"
| "join_in_turn (t # ts) deadline = (\<lambda>w. case t w of
      (Diverges, w') \<Rightarrow> (Diverges, w')
    | (r, w') \<Rightarrow>
        (case deadline of
           Some d \<Rightarrow>
             if clock_of w' \<le> d
             then and_then (join_in_turn ts deadline) (\<lambda>js. ret ((case r of Val x \<Rightarrow> Some x | _ \<Rightarrow> None) # js)) w'
             else (Val [], set_clock d w')
         | None \<Rightarrow> and_then (join_in_turn ts deadline) (\<lambda>js. ret ((case r of Val x \<Rightarrow> Some x | _ \<Rightarrow> None) # js)) w'))"

definition batch_run ::
    "bool \<Rightarrow> mounts \<Rightarrow> (bytes \<Rightarrow> bytes) \<Rightarrow> config \<Rightarrow> rstr list \<Rightarrow> path \<Rightarrow> (mock_world, download_result list) prog" where
  "batch_run oc ms sha cfg urls dir = download_batch oc (mock_env ms sha cfg) join_in_turn cfg 256 urls dir"

definition fresh :: "config \<Rightarrow> mock_world" where
  "fresh cfg = downloader_state cfg started"

section \<open>Runs\<close>

text \<open>The program ends with a value, and the value and the new world satisfy \<open>Q\<close>.\<close>

definition runs_to :: "('w, 'a) prog \<Rightarrow> 'w \<Rightarrow> ('a \<Rightarrow> 'w \<Rightarrow> bool) \<Rightarrow> bool" where
  "runs_to m w Q \<longleftrightarrow> (\<exists>r w'. m w = (Val r, w') \<and> Q r w')"

lemma runs_to_ret [simp]: "runs_to (ret x) w Q \<longleftrightarrow> Q x w"
  by (simp add: runs_to_def)

lemma runs_to_bind: "runs_to m w (\<lambda>r w'. runs_to (f r) w' Q) \<Longrightarrow> runs_to (and_then m f) w Q"
  by (auto simp: runs_to_def and_then_eq_Val)

lemma runs_to_mono: "runs_to m w P \<Longrightarrow> (\<And>r w'. P r w' \<Longrightarrow> Q r w') \<Longrightarrow> runs_to m w Q"
  by (auto simp: runs_to_def)

lemma runs_to_eq: "m w = (Val r, w') \<Longrightarrow> runs_to m w Q \<longleftrightarrow> Q r w'"
  by (simp add: runs_to_def)

section \<open>Connections to the server\<close>

text \<open>
  The pool has an idle connection to the server, or none yet and the server's name is still
  to be looked up.
\<close>

definition idle_pool :: "usize \<Rightarrow> (unit, unit, unit) host_pool \<Rightarrow> bool" where
  "idle_pool i hp \<longleftrightarrow> protocol hp = Http1 \<and> connections hp = [\<lparr>conn_id = i, conn_sender = ConnH1 (Some ())\<rparr>]"

definition busy_pool :: "usize \<Rightarrow> (unit, unit, unit) host_pool \<Rightarrow> bool" where
  "busy_pool i hp \<longleftrightarrow> protocol hp = Http1 \<and> connections hp = [\<lparr>conn_id = i, conn_sender = ConnH1 None\<rparr>]"

definition reachable_server :: "u16 \<Rightarrow> mock_world \<Rightarrow> bool" where
  "reachable_server port = (\<lambda>(pools, dc, st). case pools (local_host, port) of
      Some hp \<Rightarrow> \<exists>i. idle_pool i hp
    | None \<Rightarrow> dc_cache dc local_host = None \<and> dc_ttl dc = from_secs 300 \<and> ss_clock st < 10 ^ 12)"

definition in_use :: "u16 \<Rightarrow> usize \<Rightarrow> mock_world \<Rightarrow> bool" where
  "in_use port i = (\<lambda>(pools, dc, st). case pools (local_host, port) of Some hp \<Rightarrow> busy_pool i hp | None \<Rightarrow> False)"

definition server_of :: "mock_world \<Rightarrow> server_state" where
  "server_of = (\<lambda>(pools, dc, st). st)"

lemma open_mock:
  assumes "dc_cache dc local_host = None" "dc_ttl dc = from_secs 300" "ss_clock st < 10 ^ 12"
  shows "\<exists>dc'. open_connection (mock_pool cfg) local_host port (pools, dc, st) = (Val (Inr (OpenedH1 ())), (pools, dc', st))"
proof -
  have hp: "prefix (lit ''127.0.0.1:'') (host_port (local_host, port))" by (simp add: host_port_def)
  have "ss_clock st + 300000000000 < instant_limit" using assms(3) by (simp add: instant_limit_def)
  then have "\<exists>dc'. resolve mock_dns local_host port (dc, st) = (Val (Inr [(local_host, 0)]), (dc', st))"
    using assms hp
    by (simp add: resolve_def resolve_miss_def cache_insert_def read_clock_def mock_dns_def on_env_def and_then_def
        instant_add_def del: lit_simps)
  then obtain dc' where dc': "resolve mock_dns local_host port (dc, st) = (Val (Inr [(local_host, 0)]), (dc', st))" by blast
  have "open_connection_inner mock_dns mock_net (dl_pool (plain_downloader cfg)) local_host port (dc, st) =
      (Val (Inr (OpenedH1 ())), (dc', st))"
    using dc'
    by (simp add: open_connection_inner_def try_then_def and_then_def tcp_stream_def mock_net_def plain_downloader_def
        pool_new_plain_def plain_connection_def try_map_err_def map_err_def del: lit_simps)
  then show ?thesis by (simp add: mock_pool_def connected_env_def on_env_def del: lit_simps)
qed

lemma mock_pool_simps [simp]:
  "lock_point (mock_pool cfg) pw = pw" "new_notify (mock_pool cfg) w = ((), w)" "notify_one (mock_pool cfg) n w = w"
  by (simp_all add: mock_pool_def connected_env_def)

lemma acquire_mock:
  assumes "reachable_server port w"
  shows "runs_to (acquire oc (mock_pool cfg) cfg local_host port) w
     (\<lambda>r w'. \<exists>i. r = Inr \<lparr>handle_sender = HandleH1 (), connection_id = i\<rparr> \<and> in_use port i w' \<and> server_of w' = server_of w)"
proof -
  obtain pools dc st where w: "w = (pools, dc, st)" by (cases w)
  have attempts: "max_acquire_attempts = Suc 31" by (simp add: max_acquire_attempts_def)
  have "runs_to (acquire_loop oc (mock_pool cfg) cfg (local_host, port) (Suc n)) w
     (\<lambda>r w'. \<exists>i. r = Inr \<lparr>handle_sender = HandleH1 (), connection_id = i\<rparr> \<and> in_use port i w' \<and> server_of w' = server_of w)" for n
  proof (cases "pools (local_host, port)")
    case None
    then have "\<exists>dc'. open_connection (mock_pool cfg) local_host port (pools((local_host, port) \<mapsto> new_host_pool ()), dc, st) =
        (Val (Inr (OpenedH1 ())), (pools((local_host, port) \<mapsto> new_host_pool ()), dc', st))"
      using assms by (intro open_mock) (simp_all add: reachable_server_def w del: lit_simps)
    then obtain dc' where "open_connection (mock_pool cfg) local_host port (pools((local_host, port) \<mapsto> new_host_pool ()), dc, st) =
        (Val (Inr (OpenedH1 ())), (pools((local_host, port) \<mapsto> new_host_pool ()), dc', st))" by blast
    with None show ?thesis
      by (simp add: w runs_to_def determine_action_def on_entry_def and_then_def open_and_insert_def insert_opened_def
          dec_opening_def allocate_id_def new_host_pool_def split_opened_def opened_protocol_def usize_sub_def usize_add_def
          in_use_def busy_pool_def server_of_def del: lit_simps)
  next
    case (Some hp)
    then obtain i where "idle_pool i hp" using assms by (auto simp: reachable_server_def w)
    with Some show ?thesis
      by (simp add: w runs_to_def determine_action_def on_entry_def and_then_def h1_action_def idle_pool_def
          in_use_def busy_pool_def server_of_def del: lit_simps)
  qed
  then show ?thesis unfolding acquire_def attempts .
qed

lemma finish_mock:
  assumes "in_use port i w"
  shows "runs_to (finish_connection (mock_pool cfg) (local_host, port) \<lparr>handle_sender = HandleH1 (), connection_id = i\<rparr> True) w
     (\<lambda>r w'. reachable_server port w' \<and> server_of w' = server_of w)"
proof -
  obtain pools dc st where w: "w = (pools, dc, st)" by (cases w)
  with assms obtain hp where "pools (local_host, port) = Some hp" "busy_pool i hp"
    by (auto simp: in_use_def split: option.splits)
  then show ?thesis
    by (simp add: w runs_to_def finish_connection_def give_back_def return_h1_eq reachable_server_def
        and_then_def idle_pool_def busy_pool_def server_of_def del: lit_simps)
qed

section \<open>One request\<close>

definition request_for :: "config \<Rightarrow> rstr \<Rightarrow> mock_request" where
  "request_for cfg p = (p, [(lit ''host'', local_host), (lit ''user-agent'', user_agent cfg), (lit ''accept'', lit ''image/*'')])"

definition server_uri_of :: "u16 \<Rightarrow> rstr \<Rightarrow> mock_uri" where
  "server_uri_of port p = (Some (lit ''http''), Some local_host, Some port, Some p)"

text \<open>What the server state is after one more request.\<close>

definition served_once :: "config \<Rightarrow> mounts \<Rightarrow> rstr \<Rightarrow> server_state \<Rightarrow> server_state" where
  "served_once cfg ms p st = snd (serve ms (request_for cfg p) st)"

lemma execute_mock:
  assumes "rc = \<lparr>rc_user_agent = user_agent cfg, rc_request_timeout = request_timeout cfg, rc_max_redirects = l\<rparr>"
    and "answer ms (request_for cfg p) = r" "\<not> is_redirect (rt_status r)"
    and "dur_nanos (rt_delay r) + 1000000 \<le> dur_nanos (request_timeout cfg)"
  shows "\<exists>el. execute_request oc mock_uri test_headers (mock_http ms) (SenderH1 ()) (server_uri_of port p) local_host rc 256
       (pools, dc, st) =
     (Val (if 200 \<le> rt_status r \<and> rt_status r < 300
           then Inr (Response \<lparr>rd_bytes = rt_body r, rd_headers = resp_headers (mock_response r), rd_elapsed = el\<rparr>)
           else Inl (HttpStatus (rt_status r) (take 200 (from_utf8_lossy (rt_body r)))
                  (parse_retry_after test_headers (resp_headers (mock_response r))))),
      (pools, dc, served_once cfg ms p st))"
proof -
  have req: "(p, [(lit ''host'', local_host), (lit ''user-agent'', user_agent cfg), (lit ''accept'', lit ''image/*'')]) = request_for cfg p"
    by (simp add: request_for_def)
  have loop: "execute_with_redirects oc mock_uri test_headers (mock_http ms) (SenderH1 ()) (server_uri_of port p) local_host rc 256
       (pools, dc, st) =
     (Val (if 200 \<le> rt_status r \<and> rt_status r < 300
           then Inr (Response \<lparr>rd_bytes = rt_body r, rd_headers = resp_headers (mock_response r), rd_elapsed = dur_zero\<rparr>)
           else Inl (HttpStatus (rt_status r) (take 200 (from_utf8_lossy (rt_body r)))
                  (parse_retry_after test_headers (resp_headers (mock_response r))))),
      (pools, dc, served_once cfg ms p st))"
    using assms(2,3)
    by (simp add: execute_with_redirects_def server_uri_of_def loop_round_on_mock assms(1) req served_once_def Let_def del: lit_simps)
  have "ss_clock (served_once cfg ms p st) \<le> ss_clock st + dur_nanos (request_timeout cfg)"
    using assms(4) by (simp add: served_once_def serve_def assms(2))
  then show ?thesis
    using loop
    by (simp add: execute_request_def and_then_def within_def clock_of_def assms(1) del: lit_simps)
qed

section \<open>One download\<close>

text \<open>What the request of a path gives, up to the time it took.\<close>

definition reply_of :: "response_template \<Rightarrow> download_error + (mock_uri, headers) transport_result \<Rightarrow> bool" where
  "reply_of r res \<longleftrightarrow>
     (if 200 \<le> rt_status r \<and> rt_status r < 300
      then \<exists>el. res = Inr (Response \<lparr>rd_bytes = rt_body r, rd_headers = resp_headers (mock_response r), rd_elapsed = el\<rparr>)
      else \<exists>msg ra. res = Inl (HttpStatus (rt_status r) msg ra))"

definition answered :: "config \<Rightarrow> mounts \<Rightarrow> rstr \<Rightarrow> response_template \<Rightarrow> bool" where
  "answered cfg ms p r \<longleftrightarrow> answer ms (request_for cfg p) = r \<and> \<not> is_redirect (rt_status r) \<and>
     dur_nanos (rt_delay r) + 1000000 \<le> dur_nanos (request_timeout cfg)"

lemma mock_env_simps [simp]:
  "de_pool (mock_env ms sha cfg) = mock_pool cfg" "de_http (mock_env ms sha cfg) = mock_http ms"
  "de_uri (mock_env ms sha cfg) = mock_uri" "de_headers (mock_env ms sha cfg) = test_headers"
  "de_now (mock_env ms sha cfg) = clock_now" "de_sha256 (mock_env ms sha cfg) = sha"
  "wait_permit (mock_env ms sha cfg) h w = w" "release_permits (mock_env ms sha cfg) host w = w"
  "fs_write (de_fs (mock_env ms sha cfg)) p bs =
     of_server (\<lambda>st. (Val (Inr ()), st\<lparr>ss_files := (ss_files st)(p \<mapsto> bs)\<rparr>))"
  "fs_create_dir_all (de_fs (mock_env ms sha cfg)) p = of_server (\<lambda>st. (Val (Inr ()), st\<lparr>ss_dirs := p # ss_dirs st\<rparr>))"
  by (simp_all add: mock_env_def)

lemma clock_now_eq [simp]: "clock_now (pools, dc, st) = (Val (ss_clock st), (pools, dc, st))"
  by (simp add: clock_now_def of_server_def on_env_def)

lemma of_server_eq [simp]: "of_server m (pools, dc, st) = (case m st of (r, st') \<Rightarrow> (r, (pools, dc, st')))"
  by (simp add: of_server_def on_env_def split: prod.splits)

lemma fetch_mock:
  assumes "reachable_server port w" "answered cfg ms p r"
    and "rc = \<lparr>rc_user_agent = user_agent cfg, rc_request_timeout = request_timeout cfg, rc_max_redirects = l\<rparr>"
  shows "runs_to (fetch oc (mock_env ms sha cfg) cfg 256 rc (server_uri_of port p) local_host port) w
     (\<lambda>res w'. reply_of r res \<and> reachable_server port w' \<and> server_of w' = served_once cfg ms p (server_of w))"
proof -
  obtain i pools dc st where acq: "acquire oc (mock_pool cfg) cfg local_host port w =
      (Val (Inr \<lparr>handle_sender = HandleH1 (), connection_id = i\<rparr>), (pools, dc, st))"
    and use: "in_use port i (pools, dc, st)" and st: "st = server_of w"
    using acquire_mock [OF assms(1), of oc cfg] by (auto simp: runs_to_def server_of_def)
  define w2 where "w2 = (pools, dc, served_once cfg ms p st)"
  obtain res where run: "execute_request oc mock_uri test_headers (mock_http ms) (SenderH1 ()) (server_uri_of port p) local_host rc 256
      (pools, dc, st) = (Val res, w2)" and res: "reply_of r res"
    using execute_mock [OF assms(3), where ms = ms and p = p and r = r and oc = oc and port = port and pools = pools and dc = dc and st = st]
      assms(2) by (fastforce simp: answered_def reply_of_def w2_def)
  have usable: "result_usable res" using res by (auto simp: reply_of_def result_usable_def split: if_splits)
  have "in_use port i w2" using use by (simp add: in_use_def w2_def)
  from finish_mock [OF this, of cfg] obtain w' where
    fin: "finish_connection (mock_pool cfg) (local_host, port) \<lparr>handle_sender = HandleH1 (), connection_id = i\<rparr> True w2 = (Val (), w')"
    and w': "reachable_server port w'" "server_of w' = served_once cfg ms p (server_of w)"
    by (auto simp: runs_to_def w2_def server_of_def st)
  have "fetch oc (mock_env ms sha cfg) cfg 256 rc (server_uri_of port p) local_host port w = (Val res, w')"
    by (simp add: fetch_def try_then_def and_then_def acq run usable fin del: lit_simps)
  with res w' show ?thesis by (simp add: runs_to_def)
qed

text \<open>No retry: the reply is a success, or its status is not retried, or no retry is left.\<close>

lemma retry_mock:
  assumes "runs_to op w Q"
    and "\<And>res w'. Q res w' \<Longrightarrow> (\<exists>d. res = Inr d) \<or> (\<exists>e. res = Inl e \<and> (\<not> is_retryable e \<or> maxr = 0))"
  shows "runs_to (with_retry oc env maxr base op) w (\<lambda>(res, n) w'. Q res w' \<and> n = 0)"
proof -
  obtain res w' where run: "op w = (Val res, w')" and Q: "Q res w'" using assms(1) by (auto simp: runs_to_def)
  from assms(2) [OF Q] have "with_retry oc env maxr base op w = (Val (res, 0), w')"
    by (auto simp: with_retry_def with_retry_from.simps run)
  with Q show ?thesis by (simp add: runs_to_def)
qed

definition final_status :: "config \<Rightarrow> u16 \<Rightarrow> bool" where
  "final_status cfg code \<longleftrightarrow> (\<forall>msg ra. \<not> is_retryable (HttpStatus code msg ra)) \<or> max_retries cfg = 0"

lemma obtain_mock:
  assumes "reachable_server port w" "answered cfg ms p r"
    and "200 \<le> rt_status r \<and> rt_status r < 300 \<or> final_status cfg (rt_status r)"
  shows "runs_to (obtain_response oc (mock_env ms sha cfg) cfg 256 (server_uri_of port p) local_host port) w
     (\<lambda>(res, n) w'. (if 200 \<le> rt_status r \<and> rt_status r < 300
          then \<exists>el. res = Inr \<lparr>rd_bytes = rt_body r, rd_headers = resp_headers (mock_response r), rd_elapsed = el\<rparr>
          else \<exists>e. res = Inl e) \<and>
        reachable_server port w' \<and> server_of w' = served_once cfg ms p (server_of w))"
proof -
  define rc where "rc = \<lparr>rc_user_agent = user_agent cfg, rc_request_timeout = request_timeout cfg, rc_max_redirects = max_redirects cfg\<rparr>"
  have "runs_to (with_retry oc (de_retry (mock_env ms sha cfg)) (max_retries cfg) (retry_base_delay cfg)
        (fetch oc (mock_env ms sha cfg) cfg 256 rc (server_uri_of port p) local_host port)) w
      (\<lambda>(res, n) w'. (reply_of r res \<and> reachable_server port w' \<and> server_of w' = served_once cfg ms p (server_of w)) \<and> n = 0)"
    using assms(3)
    by (intro retry_mock fetch_mock [OF assms(1,2) rc_def]) (auto simp: reply_of_def final_status_def split: if_splits)
  then show ?thesis
    unfolding obtain_response_def rc_def [symmetric] Let_def
    by (intro runs_to_bind, elim runs_to_mono)
      (auto simp: reply_of_def accept_result_def runs_to_def and_then_def split: if_splits)
qed

text \<open>A saved image: one more request, and one more file.\<close>

definition saved_state :: "config \<Rightarrow> mounts \<Rightarrow> rstr \<Rightarrow> path \<Rightarrow> bytes \<Rightarrow> server_state \<Rightarrow> server_state" where
  "saved_state cfg ms p file bs st =
     (let st' = served_once cfg ms p st in st'\<lparr>ss_files := (ss_files st')(file \<mapsto> bs)\<rparr>)"

lemma save_mock:
  assumes "rt_body r \<noteq> []" "length (rt_body r) < 2 ^ 64" "map_of (rt_headers r) (lit ''content-length'') = None"
    and "generate_filename oc sha u i (rt_body r) (naming_strategy cfg) = Val name" "\<not> config.write_metadata cfg"
    and "data = \<lparr>rd_bytes = rt_body r, rd_headers = resp_headers (mock_response r), rd_elapsed = t\<rparr>"
  shows "\<exists>hash el. save_response oc (mock_env ms sha cfg) cfg dir u i start n data (pools, dc, st) =
     (Val (u, \<lparr>url = u, outcome = Success (path_join dir name) (of_nat (length (rt_body r))) hash el\<rparr>),
      (pools, dc, st\<lparr>ss_files := (ss_files st)(path_join dir name \<mapsto> rt_body r)\<rparr>))"
proof -
  have "length (rt_body r) \<le> usize_max" using assms(2) by (simp add: usize_max_def)
  then have "validate_response test_headers (rt_body r) (resp_headers (mock_response r)) = Inr ()"
    using assms(1,3) by (simp add: validate_response_def map_add_def header_str_def parse_unsigned_show_nat del: lit_simps)
  then show ?thesis
    using assms(4,5)
    by (simp add: save_response_def assms(6) write_image_def and_then_def elapsed_since_def Let_def)
qed

lemma mock_target:
  assumes "p = 47 # q"
  shows "request_target mock_uri (server_url port p) = Inr (server_uri_of port p, local_host, port)"
  using server_url_parses [OF assms, of port]
  by (simp add: request_target_def server_uri_of_def port_or_default_def del: lit_simps)

text \<open>A download of the server's path \<open>p\<close> that is saved, and one that fails with a status.\<close>

definition download_mock where
  "download_mock oc ms sha cfg dir u i = download_one oc (mock_env ms sha cfg) cfg 256 dir u i"

lemma download_saved:
  assumes "reachable_server port w" "answered cfg ms p r" "200 \<le> rt_status r \<and> rt_status r < 300" "p = 47 # q"
    and "rt_body r \<noteq> []" "length (rt_body r) < 2 ^ 64" "map_of (rt_headers r) (lit ''content-length'') = None"
    and "generate_filename oc sha (server_url port p) i (rt_body r) (naming_strategy cfg) = Val name" "\<not> config.write_metadata cfg"
  shows "runs_to (download_mock oc ms sha cfg dir (server_url port p) i) w (\<lambda>res w'.
     (\<exists>hash el. res = (server_url port p, \<lparr>url = server_url port p,
        outcome = Success (path_join dir name) (of_nat (length (rt_body r))) hash el\<rparr>)) \<and>
     reachable_server port w' \<and>
     server_of w' = saved_state cfg ms p (path_join dir name) (rt_body r) (server_of w))"
proof -
  obtain pools dc st where w: "w = (pools, dc, st)" by (cases w)
  obtain el n pools' dc' st' where obtained: "obtain_response oc (mock_env ms sha cfg) cfg 256 (server_uri_of port p) local_host port w =
      (Val (Inr \<lparr>rd_bytes = rt_body r, rd_headers = resp_headers (mock_response r), rd_elapsed = el\<rparr>, n), (pools', dc', st'))"
    and ok: "reachable_server port (pools', dc', st')" and st': "st' = served_once cfg ms p st"
    using obtain_mock [OF assms(1,2), of oc sha] assms(3) by (auto simp: runs_to_def server_of_def w)
  obtain hash el' where saved: "save_response oc (mock_env ms sha cfg) cfg dir (server_url port p) i (ss_clock st) n
      \<lparr>rd_bytes = rt_body r, rd_headers = resp_headers (mock_response r), rd_elapsed = el\<rparr> (pools', dc', st') =
     (Val (server_url port p, \<lparr>url = server_url port p,
        outcome = Success (path_join dir name) (of_nat (length (rt_body r))) hash el'\<rparr>),
      (pools', dc', st'\<lparr>ss_files := (ss_files st')(path_join dir name \<mapsto> rt_body r)\<rparr>))"
    using save_mock [OF assms(5-9) refl] by blast
  have "reachable_server port (pools', dc', st'\<lparr>ss_files := f\<rparr>)" for f
    using ok by (simp add: reachable_server_def split: option.splits)
  moreover have "download_mock oc ms sha cfg dir (server_url port p) i w =
     (Val (server_url port p, \<lparr>url = server_url port p,
        outcome = Success (path_join dir name) (of_nat (length (rt_body r))) hash el'\<rparr>),
      (pools', dc', st'\<lparr>ss_files := (ss_files st')(path_join dir name \<mapsto> rt_body r)\<rparr>))"
    using obtained saved
    by (simp add: download_mock_def download_one_def w mock_target [OF assms(4)] with_permits_def and_then_def del: lit_simps mock_response_simps)
  ultimately show ?thesis
    by (simp add: runs_to_def server_of_def saved_state_def Let_def st' w)
qed

lemma download_refused:
  assumes "reachable_server port w" "answered cfg ms p r" "\<not> (200 \<le> rt_status r \<and> rt_status r < 300)" "p = 47 # q"
    and "final_status cfg (rt_status r)"
  shows "runs_to (download_mock oc ms sha cfg dir (server_url port p) i) w (\<lambda>res w'.
     (\<exists>e el n. res = (server_url port p, \<lparr>url = server_url port p, outcome = Failure e el n\<rparr>)) \<and>
     reachable_server port w' \<and> server_of w' = served_once cfg ms p (server_of w))"
proof -
  obtain pools dc st where w: "w = (pools, dc, st)" by (cases w)
  obtain e n pools' dc' st' where obtained: "obtain_response oc (mock_env ms sha cfg) cfg 256 (server_uri_of port p) local_host port w =
      (Val (Inl e, n), (pools', dc', st'))"
    and ok: "reachable_server port (pools', dc', st')" and st': "st' = served_once cfg ms p st"
    using obtain_mock [OF assms(1,2), of oc sha] assms(3,5) by (auto simp: runs_to_def server_of_def w)
  have "\<exists>el. download_mock oc ms sha cfg dir (server_url port p) i w =
     (Val (server_url port p, \<lparr>url = server_url port p, outcome = Failure e el n\<rparr>), (pools', dc', st'))"
    using obtained
    by (simp add: download_mock_def download_one_def w mock_target [OF assms(4)] with_permits_def and_then_def download_failed_def
        elapsed_since_def del: lit_simps)
  with ok st' show ?thesis by (auto simp: runs_to_def server_of_def w)
qed

section \<open>Batches\<close>

text \<open>The tasks of a batch without a deadline, one after the other.\<close>

lemma join_step:
  assumes "runs_to t w (\<lambda>x w'. runs_to (join_in_turn ts None) w' (\<lambda>js. Q (Some x # js)))"
  shows "runs_to (join_in_turn (t # ts) None) w Q"
  using assms by (auto simp: runs_to_def and_then_eq_Val)

declare join_in_turn.simps(2) [simp del]

lemma assemble_found:
  assumes "\<forall>u \<in> set us. m u \<noteq> None"
  shows "assemble_results de cfg start m us = ret (map (the \<circ> m) us)"
  using assms
proof (induction us)
  case (Cons u us)
  then show ?case by (auto simp: and_then_def fun_eq_iff)
qed simp

lemma batch_joined:
  assumes "urls \<noteq> []" "batch_timeout cfg = None" "\<not> write_summary cfg" "w = (pools, dc, st)"
    and "runs_to (join_in_turn (map (\<lambda>(u, is). download_mock oc ms sha cfg dir u (is ! 0)) (dedup urls)) None)
       (pools, dc, st\<lparr>ss_dirs := dir # ss_dirs st\<rparr>)
       (\<lambda>js w'. (\<forall>u \<in> set urls. collect_results js Map.empty u \<noteq> None) \<and>
          Q (map (the \<circ> collect_results js Map.empty) urls) w')"
  shows "runs_to (batch_run oc ms sha cfg urls dir) w Q"
proof -
  obtain js pools' dc' st' where joined: "join_in_turn (batch_tasks oc (mock_env ms sha cfg) cfg 256 dir (dedup urls)) None
      (pools, dc, st\<lparr>ss_dirs := dir # ss_dirs st\<rparr>) = (Val js, (pools', dc', st'))"
    and found: "\<forall>u \<in> set urls. collect_results js Map.empty u \<noteq> None"
    and Q: "Q (map (the \<circ> collect_results js Map.empty) urls) (pools', dc', st')"
    using assms(5) by (auto simp: runs_to_def batch_tasks_def download_mock_def)
  have "usize_sub oc (length rs) (count_if is_success rs) = Val (length rs - count_if is_success rs)" for rs
    by (simp add: usize_sub_def count_if_le_length)
  with joined found have "batch_run oc ms sha cfg urls dir w = (Val (map (the \<circ> collect_results js Map.empty) urls), (pools', dc', st'))"
    using assms(1-3)
    by (simp add: batch_run_def download_batch_def and_then_def run_batch_def Let_def batch_deadline_def assemble_found
        save_summary_def elapsed_since_def assms(4) del: length_map)
  with Q show ?thesis by (simp add: runs_to_def)
qed

end
