(* ===== verification/Unit_Tests_Batch.thy ===== *)
theory Unit_Tests_Batch
  imports Mock_Downloads
begin

text \<open>
  The unit tests of \<open>orchestrator.rs\<close>, run on the model: whole batches against the server of
  \<open>Mock_Server\<close>, with the pool, the DNS cache, the transport, the naming and the output of the
  model.  The test that measures concurrency in time has no counterpart.
\<close>

declare split_paired_All [simp del] split_paired_Ex [simp del]

section \<open>The tests\<close>

definition tmp_dir :: path where
  "tmp_dir = lit ''/tmp/imgdl''"

definition batch_test ::
    "bool \<Rightarrow> mounts \<Rightarrow> (bytes \<Rightarrow> bytes) \<Rightarrow> config \<Rightarrow> rstr list \<Rightarrow> path \<Rightarrow>
     (download_result list \<Rightarrow> server_state \<Rightarrow> bool) \<Rightarrow> bool" where
  "batch_test oc ms sha cfg urls dir check =
     (case batch_run oc ms sha cfg urls dir (fresh cfg) of
        (Val rs, w) \<Rightarrow> check rs (server_of w)
      | _ \<Rightarrow> False)"

definition is_failure :: "download_result \<Rightarrow> bool" where
  "is_failure r = (case outcome r of Failure _ _ _ \<Rightarrow> True | Success _ _ _ _ \<Rightarrow> False)"

definition path_of :: "download_result \<Rightarrow> path option" where
  "path_of r = (case outcome r of Success p _ _ _ \<Rightarrow> Some p | Failure _ _ _ \<Rightarrow> None)"

definition file_name :: "path \<Rightarrow> rstr" where
  "file_name p = rev (takeWhile (\<lambda>c. c \<noteq> 47) (rev p))"

type_synonym batch_check = "bool \<Rightarrow> (bytes \<Rightarrow> bytes) \<Rightarrow> u16 \<Rightarrow> bool"

definition new_creates_valid_instance ::
    "('store, 'anchor, 'provider, 'builder, 'cfg) rustls_ops \<Rightarrow> bool" where
  "new_creates_valid_instance ro = (case downloader_new ro config_default of Val _ \<Rightarrow> True | _ \<Rightarrow> False)"

definition empty_urls_returns_empty_vec :: "bool \<Rightarrow> (bytes \<Rightarrow> bytes) \<Rightarrow> bool" where
  "empty_urls_returns_empty_vec oc sha = batch_test oc [] sha config_default [] tmp_dir (\<lambda>rs st. rs = [])"

definition creates_output_directory_if_missing :: batch_check where
  "creates_output_directory_if_missing oc sha port =
     (let sub = path_join (path_join tmp_dir (lit ''nested'')) (lit ''subdir'') in
      batch_test oc [(at_path (lit ''/image.jpg''), (template 200 [])\<lparr>rt_body := [0xFF, 0xD8, 0xFF, 0xE0, 0x00, 0x10]\<rparr>)] sha
        config_default [server_url port (lit ''/image.jpg'')] sub
        (\<lambda>rs st. length rs = 1 \<and> sub \<in> set (ss_dirs st) \<and> is_success (rs ! 0)))"

definition downloads_single_url_to_disk :: batch_check where
  "downloads_single_url_to_disk oc sha port =
     (let body = [0xFF, 0xD8, 0xFF, 0xE0, 0x00, 0x10, 0x4A, 0x46] in
      batch_test oc [(at_path (lit ''/photo.jpg''), (template 200 [])\<lparr>rt_body := body\<rparr>)] sha
        config_default [server_url port (lit ''/photo.jpg'')] tmp_dir
        (\<lambda>rs st. length rs = 1 \<and>
           (case outcome (rs ! 0) of
              Success p sz _ _ \<Rightarrow> sz = of_nat (length body) \<and> ss_files st p = Some body
            | Failure _ _ _ \<Rightarrow> False)))"

definition two_images :: mounts where
  "two_images = [(at_path (lit ''/a.jpg''), template 200 (lit ''aaa'')), (at_path (lit ''/b.jpg''), template 200 (lit ''bbb''))]"

definition downloads_multiple_urls :: batch_check where
  "downloads_multiple_urls oc sha port =
     batch_test oc two_images sha config_default
       [server_url port (lit ''/a.jpg''), server_url port (lit ''/b.jpg'')] tmp_dir
       (\<lambda>rs st. length rs = 2 \<and> is_success (rs ! 0) \<and> is_success (rs ! 1))"

definition returns_results_in_input_order :: batch_check where
  "returns_results_in_input_order oc sha port =
     batch_test oc
       [(at_path (lit ''/slow.jpg''), set_delay (from_millis 200) (template 200 (lit ''slow''))),
        (at_path (lit ''/fast.jpg''), template 200 (lit ''fast''))] sha config_default
       [server_url port (lit ''/slow.jpg''), server_url port (lit ''/fast.jpg'')] tmp_dir
       (\<lambda>rs st. length rs = 2 \<and> str_contains (url (rs ! 0)) (lit ''slow.jpg'') \<and>
          str_contains (url (rs ! 1)) (lit ''fast.jpg''))"

definition deduplicates_urls :: batch_check where
  "deduplicates_urls oc sha port =
     (let u = server_url port (lit ''/dup.jpg'') in
      batch_test oc [(at_path (lit ''/dup.jpg''), template 200 (lit ''data''))] sha config_default [u, u, u] tmp_dir
        (\<lambda>rs st. length rs = 3 \<and> list_all is_success rs \<and>
           path_of (rs ! 0) = path_of (rs ! 1) \<and> path_of (rs ! 1) = path_of (rs ! 2) \<and>
           length (filter (at_path (lit ''/dup.jpg'')) (ss_received st)) = 1))"

definition dedup_sequential_naming_uses_first_index :: batch_check where
  "dedup_sequential_naming_uses_first_index oc sha port =
     batch_test oc two_images sha (config_default\<lparr>naming_strategy := Sequential\<rparr>)
       [server_url port (lit ''/a.jpg''), server_url port (lit ''/b.jpg''), server_url port (lit ''/a.jpg'')] tmp_dir
       (\<lambda>rs st. length rs = 3 \<and>
          (case (path_of (rs ! 0), path_of (rs ! 1), path_of (rs ! 2)) of
             (Some p0, Some p1, Some p2) \<Rightarrow>
               prefix (lit ''000'') (file_name p0) \<and> prefix (lit ''001'') (file_name p1) \<and> p0 = p2
           | _ \<Rightarrow> False))"

definition isolates_errors :: batch_check where
  "isolates_errors oc sha port =
     batch_test oc
       [(at_path (lit ''/good.jpg''), template 200 (lit ''good'')), (at_path (lit ''/bad.jpg''), template 404 (lit ''not found''))]
       sha config_default [server_url port (lit ''/good.jpg''), server_url port (lit ''/bad.jpg'')] tmp_dir
       (\<lambda>rs st. length rs = 2 \<and> is_success (rs ! 0) \<and> is_failure (rs ! 1))"

definition respects_batch_timeout :: batch_check where
  "respects_batch_timeout oc sha port =
     batch_test oc [(at_path (lit ''/slow.jpg''), set_delay (from_secs 5) (template 200 (lit ''slow'')))] sha
       (config_default\<lparr>batch_timeout := Some (from_millis 200), max_retries := 0\<rparr>)
       [server_url port (lit ''/slow.jpg'')] tmp_dir
       (\<lambda>rs st. length rs = 1 \<and>
          (case outcome (rs ! 0) of Failure e _ _ \<Rightarrow> e = Timeout | Success _ _ _ _ \<Rightarrow> False) \<and>
          ss_clock st - ss_clock started < dur_nanos (from_secs 2))"

definition handles_invalid_urls :: "bool \<Rightarrow> (bytes \<Rightarrow> bytes) \<Rightarrow> bool" where
  "handles_invalid_urls oc sha =
     batch_test oc [] sha config_default [lit ''not-a-url'', lit ''://bad''] tmp_dir
       (\<lambda>rs st. length rs = 2 \<and> is_failure (rs ! 0) \<and> is_failure (rs ! 1))"

definition handles_all_failing :: batch_check where
  "handles_all_failing oc sha port =
     batch_test oc [(\<lambda>req. True, template 500 (lit ''error''))] sha (config_default\<lparr>max_retries := 0\<rparr>)
       [server_url port (lit ''/a.jpg''), server_url port (lit ''/b.jpg'')] tmp_dir
       (\<lambda>rs st. length rs = 2 \<and> list_all is_failure rs)"

definition connection_reuse_across_batches :: batch_check where
  "connection_reuse_across_batches oc sha port =
     (let batch = batch_run oc [(at_path (lit ''/reuse.jpg''), template 200 (lit ''reuse''))] sha config_default
            [server_url port (lit ''/reuse.jpg'')] tmp_dir
      in case and_then batch (\<lambda>r1. and_then batch (\<lambda>r2. ret (r1, r2))) (fresh config_default) of
           (Val (r1, r2), w) \<Rightarrow> is_success (r1 ! 0) \<and> is_success (r2 ! 0) \<and>
             length (filter (at_path (lit ''/reuse.jpg'')) (ss_received (server_of w))) = 2
         | _ \<Rightarrow> False)"

section \<open>They pass\<close>

lemma batch_test_runs: "runs_to (batch_run oc ms sha cfg urls dir) (fresh cfg) (\<lambda>rs w. check rs (server_of w)) \<Longrightarrow>
    batch_test oc ms sha cfg urls dir check"
  by (auto simp: batch_test_def runs_to_def)

lemma fresh_reachable: "dns_cache_ttl cfg = from_secs 300 \<Longrightarrow> reachable_server port (fresh cfg)"
  by (simp add: reachable_server_def fresh_def downloader_state_def dns_new_def started_def)

text \<open>Batches of one and of two different URLs.\<close>

definition with_dir :: "path \<Rightarrow> mock_world \<Rightarrow> mock_world" where
  "with_dir dir = (\<lambda>(pools, dc, st). (pools, dc, st\<lparr>ss_dirs := dir # ss_dirs st\<rparr>))"

lemma with_dir_simps [simp]:
  "reachable_server port (with_dir dir w) \<longleftrightarrow> reachable_server port w"
  "server_of (with_dir dir w) = (server_of w)\<lparr>ss_dirs := dir # ss_dirs (server_of w)\<rparr>"
  by (simp_all add: with_dir_def reachable_server_def server_of_def split_beta del: lit_simps split: option.split)

definition plain_batch :: "config \<Rightarrow> bool" where
  "plain_batch cfg \<longleftrightarrow> batch_timeout cfg = None \<and> \<not> write_summary cfg"

lemma one_url_batch:
  assumes "plain_batch cfg" "dedup urls = [(u, 0 # is)]" "set urls = {u}"
    and "runs_to (download_mock oc ms sha cfg dir u 0) (with_dir dir w) (\<lambda>res w'. \<exists>dr. res = (u, dr) \<and> Q (map (\<lambda>_. dr) urls) w')"
  shows "runs_to (batch_run oc ms sha cfg urls dir) w Q"
proof -
  obtain pools dc st where w: "w = (pools, dc, st)" by (cases w)
  from assms(4) obtain dr w' where run: "download_mock oc ms sha cfg dir u 0 (with_dir dir w) = (Val (u, dr), w')"
    and Q: "Q (map (\<lambda>_. dr) urls) w'"
    by (auto simp: runs_to_def)
  have joined: "join_in_turn (map (\<lambda>(u, is). download_mock oc ms sha cfg dir u (is ! 0)) (dedup urls)) None (with_dir dir w) =
      (Val [Some (u, dr)], w')"
    by (simp add: assms(2) join_in_turn.simps(2) run and_then_def)
  have results: "map (the \<circ> [u \<mapsto> dr]) urls = map (\<lambda>_. dr) urls"
    by (rule map_cong) (simp_all add: assms(3))
  show ?thesis
  proof (rule batch_joined [OF _ _ _ w])
    show "urls \<noteq> []" using assms(3) by (cases urls) simp_all
    show "runs_to (join_in_turn (map (\<lambda>(u, is). download_mock oc ms sha cfg dir u (is ! 0)) (dedup urls)) None)
       (pools, dc, st\<lparr>ss_dirs := dir # ss_dirs st\<rparr>)
       (\<lambda>js w'. (\<forall>u \<in> set urls. collect_results js Map.empty u \<noteq> None) \<and>
          Q (map (the \<circ> collect_results js Map.empty) urls) w')"
      unfolding runs_to_eq [where m = "join_in_turn ts None" for ts, OF joined [unfolded with_dir_def w split_conv]]
      using Q by (simp add: assms(3) results)
  qed (use assms(1) in \<open>simp_all add: plain_batch_def\<close>)
qed

lemma two_url_batch:
  assumes "plain_batch cfg" "dedup urls = [(u, 0 # is), (v, 1 # js)]" "u \<noteq> v" "set urls = {u, v}"
    and "runs_to (download_mock oc ms sha cfg dir u 0) (with_dir dir w)
      (\<lambda>res w'. \<exists>dr. res = (u, dr) \<and> runs_to (download_mock oc ms sha cfg dir v 1) w'
         (\<lambda>res w''. \<exists>dr'. res = (v, dr') \<and> Q (map (\<lambda>x. if x = u then dr else dr') urls) w''))"
  shows "runs_to (batch_run oc ms sha cfg urls dir) w Q"
proof -
  obtain pools dc st where w: "w = (pools, dc, st)" by (cases w)
  from assms(5) obtain dr w1 dr' w2 where
    runs: "download_mock oc ms sha cfg dir u 0 (with_dir dir w) = (Val (u, dr), w1)"
      "download_mock oc ms sha cfg dir v 1 w1 = (Val (v, dr'), w2)"
    and Q: "Q (map (\<lambda>x. if x = u then dr else dr') urls) w2"
    by (auto simp: runs_to_def)
  have joined: "join_in_turn (map (\<lambda>(u, is). download_mock oc ms sha cfg dir u (is ! 0)) (dedup urls)) None (with_dir dir w) =
      (Val [Some (u, dr), Some (v, dr')], w2)"
    using runs by (simp add: assms(2) join_in_turn.simps(2) and_then_def)
  have results: "map (the \<circ> [u \<mapsto> dr, v \<mapsto> dr']) urls = map (\<lambda>x. if x = u then dr else dr') urls"
    by (rule map_cong) (use assms(3,4) in auto)
  show ?thesis
  proof (rule batch_joined [OF _ _ _ w])
    show "urls \<noteq> []" using assms(4) by (cases urls) simp_all
    show "runs_to (join_in_turn (map (\<lambda>(u, is). download_mock oc ms sha cfg dir u (is ! 0)) (dedup urls)) None)
       (pools, dc, st\<lparr>ss_dirs := dir # ss_dirs st\<rparr>)
       (\<lambda>js w'. (\<forall>u \<in> set urls. collect_results js Map.empty u \<noteq> None) \<and>
          Q (map (the \<circ> collect_results js Map.empty) urls) w')"
      unfolding runs_to_eq [where m = "join_in_turn ts None" for ts, OF joined [unfolded with_dir_def w split_conv]]
        collect_results.simps results
      using Q by (simp add: assms(4))
  qed (use assms(1) in \<open>simp_all add: plain_batch_def\<close>)
qed

text \<open>The names of the images of the tests.\<close>

lemma server_url_eq_iff [simp]: "server_url port p = server_url port q \<longleftrightarrow> p = q"
  by (simp add: server_url_def)

lemma server_url_segment:
  assumes "p = 47 # q" "\<forall>c \<in> set q. c \<noteq> 47 \<and> c \<noteq> 63 \<and> c \<noteq> 35"
  shows "last_segment_of (server_url port p) = q"
proof -
  define s where "s = lit ''http://127.0.0.1:'' @ show_nat (unat port)"
  have "63 \<notin> set (show_nat n)" "35 \<notin> set (show_nat n)" for n
    using show_nat_digits by (fastforce simp: is_ascii_digit_def)+
  then have "ch_question \<notin> set (s @ ch_slash # q)" "ch_hash \<notin> set (s @ ch_slash # q)" "ch_slash \<notin> set q"
    using assms(2) by (auto simp: s_def)
  from last_segment_of_append [OF this] show ?thesis by (simp add: server_url_def s_def assms(1))
qed

lemma url_based_file:
  assumes "p = 47 # q" "\<forall>c \<in> set q. is_ascii_alphanumeric c \<or> c = 46" "46 \<in> set q" "length q \<le> 200"
  shows "generate_filename oc sha (server_url port p) i bs UrlBased = Val q"
proof -
  have plain: "\<forall>c \<in> set q. c \<noteq> 47 \<and> c \<noteq> 63 \<and> c \<noteq> 35"
    using assms(2) by (auto simp: is_ascii_alphanumeric_def is_ascii_digit_def)
  have "sanitize q = q"
    unfolding sanitize_def using assms(2) by (intro map_idI) (auto simp: sanitize_char_def)
  then show ?thesis
    using server_url_segment [OF assms(1) plain] assms(3,4)
    by (auto simp: generate_filename_def url_based_name_def Let_def)
qed

lemma template_simps [simp]:
  "rt_status (template s b) = s" "rt_headers (template s b) = []" "rt_body (template s b) = as_bytes b"
  "rt_delay (template s b) = dur_zero" "rt_status (set_delay d r) = rt_status r" "rt_headers (set_delay d r) = rt_headers r"
  "rt_body (set_delay d r) = rt_body r" "rt_delay (set_delay d r) = d"
  by (simp_all add: template_def set_delay_def)

lemma empty_test_passes: "empty_urls_returns_empty_vec oc sha"
  by (simp add: empty_urls_returns_empty_vec_def batch_test_def batch_run_def download_batch_def)

lemma new_test_passes: "with_safe_default_protocol_versions ro b = Inr b' \<Longrightarrow> b = builder_with_provider ro (ring_provider ro) \<Longrightarrow>
    new_creates_valid_instance ro"
  by (simp add: new_creates_valid_instance_def downloader_new_def build_tls_config_def Let_def)

text \<open>A task of a batch with UrlBased names that is saved, or refused by the server.\<close>

definition usual :: "config \<Rightarrow> bool" where
  "usual cfg \<longleftrightarrow> plain_batch cfg \<and> dns_cache_ttl cfg = from_secs 300 \<and> request_timeout cfg = from_secs 30 \<and>
     \<not> config.write_metadata cfg"

lemma usual_default [simp]:
  "usual config_default" "usual (config_default\<lparr>max_retries := n\<rparr>)" "usual (config_default\<lparr>naming_strategy := s\<rparr>)"
  by (simp_all add: usual_def plain_batch_def config_default_def)

lemma usual_plain [simp]: "usual cfg \<Longrightarrow> plain_batch cfg"
  by (simp add: usual_def)

lemma usual_reachable [simp]: "usual cfg \<Longrightarrow> reachable_server port (fresh cfg)"
  by (simp add: usual_def fresh_reachable)

lemma usual_answered:
  "usual cfg \<Longrightarrow> answer ms (request_for cfg p) = r \<Longrightarrow> \<not> is_redirect (rt_status r) \<Longrightarrow> dur_nanos (rt_delay r) \<le> 20000000000 \<Longrightarrow>
     answered cfg ms p r"
  by (simp add: answered_def usual_def)

definition image_file :: "rstr \<Rightarrow> rstr \<Rightarrow> bool" where
  "image_file p q \<longleftrightarrow> p = 47 # q \<and> list_all (\<lambda>c. is_ascii_alphanumeric c \<or> c = 46) q \<and> 46 \<in> set q \<and> length q \<le> 200"

lemma image_files:
  "image_file (lit ''/image.jpg'') (lit ''image.jpg'')" "image_file (lit ''/photo.jpg'') (lit ''photo.jpg'')"
  "image_file (lit ''/a.jpg'') (lit ''a.jpg'')" "image_file (lit ''/b.jpg'') (lit ''b.jpg'')"
  "image_file (lit ''/slow.jpg'') (lit ''slow.jpg'')" "image_file (lit ''/fast.jpg'') (lit ''fast.jpg'')"
  "image_file (lit ''/dup.jpg'') (lit ''dup.jpg'')" "image_file (lit ''/good.jpg'') (lit ''good.jpg'')"
  "image_file (lit ''/reuse.jpg'') (lit ''reuse.jpg'')"
  by (simp_all add: image_file_def is_ascii_alphanumeric_def)

text \<open>A reply that is saved: a body that fits, and no headers of its own.\<close>

definition image_reply :: "response_template \<Rightarrow> bool" where
  "image_reply r \<longleftrightarrow> rt_status r = 200 \<and> dur_nanos (rt_delay r) \<le> 20000000000 \<and> rt_body r \<noteq> [] \<and>
     length (rt_body r) < 2 ^ 64 \<and> rt_headers r = []"

lemma image_replies:
  "image_reply ((template 200 [])\<lparr>rt_body := [0xFF, 0xD8, 0xFF, 0xE0, 0x00, 0x10, 0x4A, 0x46]\<rparr>)"
  "image_reply ((template 200 [])\<lparr>rt_body := [0xFF, 0xD8, 0xFF, 0xE0, 0x00, 0x10]\<rparr>)"
  "image_reply (template 200 (lit ''aaa''))" "image_reply (template 200 (lit ''bbb''))"
  "image_reply (set_delay (from_millis 200) (template 200 (lit ''slow'')))" "image_reply (template 200 (lit ''fast''))"
  "image_reply (set_delay (from_secs 5) (template 200 (lit ''slow'')))"
  "image_reply (template 200 (lit ''data''))" "image_reply (template 200 (lit ''good''))" "image_reply (template 200 (lit ''reuse''))"
  by (simp_all add: image_reply_def as_bytes_def utf8_char_def)

lemma saved_by_url:
  assumes "usual cfg" "naming_strategy cfg = UrlBased" "image_file p q" "reachable_server port w"
    and "answer ms (request_for cfg p) = r" "image_reply r"
  shows "runs_to (download_mock oc ms sha cfg dir (server_url port p) i) w (\<lambda>res w'.
     (\<exists>hash el. res = (server_url port p, \<lparr>url = server_url port p,
        outcome = Success (path_join dir q) (of_nat (length (rt_body r))) hash el\<rparr>)) \<and>
     reachable_server port w' \<and>
     server_of w' = saved_state cfg ms p (path_join dir q) (rt_body r) (server_of w))"
proof -
  have name: "p = 47 # q" "\<forall>c \<in> set q. is_ascii_alphanumeric c \<or> c = 46" "46 \<in> set q" "length q \<le> 200"
    using assms(3) by (simp_all add: image_file_def list_all_iff)
  show ?thesis
    using assms url_based_file [OF name]
    by (intro download_saved [OF assms(4) _ _ name(1)] usual_answered) (simp_all add: usual_def is_redirect_def image_reply_def)
qed

text \<open>The same for the names of Sequential, whose extension is not needed.\<close>

lemma saved_by_index:
  assumes "usual cfg" "naming_strategy cfg = Sequential" "p = 47 # q" "reachable_server port w" "i < 1000"
    and "answer ms (request_for cfg p) = r" "image_reply r"
  shows "runs_to (download_mock oc ms sha cfg dir (server_url port p) i) w (\<lambda>res w'.
     (\<exists>e sz hash el. ch_slash \<notin> set e \<and> res = (server_url port p, \<lparr>url = server_url port p,
        outcome = Success (path_join dir (show_nat_pad3 i @ ch_dot # e)) sz hash el\<rparr>)) \<and>
     reachable_server port w')"
proof -
  obtain e where e: "url_or_magic_ext (server_url port p) (rt_body r) = Val e" "length e \<le> 10" "list_all is_ascii_alphanumeric e"
    using url_or_magic_ext_shape by blast
  have "length (show_nat_pad3 i) \<le> 3"
    using assms(5) by (auto simp: show_nat_pad3_def show_nat.simps)
  then have "generate_filename oc sha (server_url port p) i (rt_body r) (naming_strategy cfg) = Val (show_nat_pad3 i @ ch_dot # e)"
    using e(1,2) by (simp add: generate_filename_def sequential_name_def assms(2))
  moreover have "ch_slash \<notin> set e" using e(3) by (auto simp: list_all_iff is_ascii_alphanumeric_def is_ascii_digit_def)
  ultimately show ?thesis
    using assms(1,6,7)
    by (intro runs_to_mono [OF download_saved [OF assms(4) _ _ assms(3), where r = r]] usual_answered)
      (auto simp: usual_def is_redirect_def image_reply_def)
qed

lemma refused_by_status:
  assumes "usual cfg" "p = 47 # q" "reachable_server port w" "answer ms (request_for cfg p) = template c b"
    and "c = 404 \<or> c = 500 \<and> max_retries cfg = 0"
  shows "runs_to (download_mock oc ms sha cfg dir (server_url port p) i) w (\<lambda>res w'.
     (\<exists>e el n. res = (server_url port p, \<lparr>url = server_url port p, outcome = Failure e el n\<rparr>)) \<and> reachable_server port w')"
  using assms(1,4,5)
  by (intro runs_to_mono [OF download_refused [OF assms(3) _ _ assms(2), where r = "template c b"]] usual_answered)
    (auto simp: is_redirect_def final_status_def)

lemma url_based_default: "naming_strategy config_default = UrlBased"
  by (simp add: config_default_def naming_strategy_default_def)

lemma at_path_request [simp]: "at_path p (request_for cfg q) \<longleftrightarrow> q = p"
  by (auto simp: at_path_def request_for_def)

lemmas one_image = one_url_batch [OF usual_plain [OF usual_default(1)], OF _ _ runs_to_mono [OF saved_by_url [OF usual_default(1) url_based_default]]]

lemma single_test_passes: "downloads_single_url_to_disk oc sha port"
  unfolding downloads_single_url_to_disk_def Let_def
  by (intro batch_test_runs one_image [OF _ _ image_files(2) _ refl])
    (auto simp: dedup_def saved_state_def Let_def image_replies simp del: lit_simps)

lemma directory_test_passes: "creates_output_directory_if_missing oc sha port"
  unfolding creates_output_directory_if_missing_def Let_def
  by (intro batch_test_runs one_image [OF _ _ image_files(1) _ refl])
    (auto simp: dedup_def saved_state_def served_once_def serve_def Let_def image_replies is_success_def simp del: lit_simps)

lemma server_of_fresh [simp]: "server_of (fresh cfg) = started" "ss_received started = []" "ss_clock started = 0"
  by (simp_all add: server_of_def fresh_def downloader_state_def started_def)

lemma dedup_test_passes: "deduplicates_urls oc sha port"
  unfolding deduplicates_urls_def Let_def
  by (intro batch_test_runs one_image [OF _ _ image_files(7) _ refl])
    (auto simp: dedup_def saved_state_def served_once_def serve_def Let_def image_replies is_success_def path_of_def simp del: lit_simps)

text \<open>Two different URLs, downloaded one after the other.\<close>

definition downloads ::
    "bool \<Rightarrow> mounts \<Rightarrow> (bytes \<Rightarrow> bytes) \<Rightarrow> config \<Rightarrow> path \<Rightarrow> u16 \<Rightarrow> rstr \<Rightarrow> nat \<Rightarrow> (download_result \<Rightarrow> bool) \<Rightarrow> bool" where
  "downloads oc ms sha cfg dir port p i P \<longleftrightarrow> (\<forall>w. reachable_server port w \<longrightarrow>
     runs_to (download_mock oc ms sha cfg dir (server_url port p) i) w (\<lambda>res w'.
       (\<exists>dr. res = (server_url port p, dr) \<and> url dr = server_url port p \<and> P dr) \<and> reachable_server port w'))"

lemma two_downloads:
  assumes "usual cfg" "dedup urls = [(server_url port p, 0 # is), (server_url port p', 1 # js)]" "p \<noteq> p'"
    and "set urls = {server_url port p, server_url port p'}"
    and "downloads oc ms sha cfg dir port p 0 P" "downloads oc ms sha cfg dir port p' 1 P'"
    and "\<And>dr dr' w'. url dr = server_url port p \<Longrightarrow> url dr' = server_url port p' \<Longrightarrow> P dr \<Longrightarrow> P' dr' \<Longrightarrow>
       Q (map (\<lambda>x. if x = server_url port p then dr else dr') urls) w'"
  shows "runs_to (batch_run oc ms sha cfg urls dir) (fresh cfg) Q"
proof (rule two_url_batch [OF _ assms(2) _ assms(4)])
  show "runs_to (download_mock oc ms sha cfg dir (server_url port p) 0) (with_dir dir (fresh cfg))
      (\<lambda>res w'. \<exists>dr. res = (server_url port p, dr) \<and> runs_to (download_mock oc ms sha cfg dir (server_url port p') 1) w'
         (\<lambda>res w''. \<exists>dr'. res = (server_url port p', dr') \<and>
            Q (map (\<lambda>x. if x = server_url port p then dr else dr') urls) w''))"
    by (rule runs_to_mono [OF assms(5) [unfolded downloads_def, rule_format]])
      (use assms(1) in \<open>auto simp del: One_nat_def
        intro!: runs_to_mono [OF assms(6) [unfolded downloads_def, rule_format]] assms(7)\<close>)
qed (use assms(1,3) in simp_all)

lemma image_downloads:
  assumes "image_file p q" "image_reply (answer ms (request_for config_default p))"
  shows "downloads oc ms sha config_default dir port p i is_success"
  unfolding downloads_def
  by (auto simp: is_success_def intro!: runs_to_mono [OF saved_by_url [OF usual_default(1) url_based_default assms(1) _ refl assms(2)]])

lemma indexed_downloads:
  assumes "usual cfg" "naming_strategy cfg = Sequential" "p = 47 # q" "i < 1000"
    and "image_reply (answer ms (request_for cfg p))"
  shows "downloads oc ms sha cfg dir port p i
     (\<lambda>dr. \<exists>e. ch_slash \<notin> set e \<and> path_of dr = Some (path_join dir (show_nat_pad3 i @ ch_dot # e)))"
  unfolding downloads_def
  by (auto simp: path_of_def intro!: runs_to_mono [OF saved_by_index [OF assms(1-3) _ assms(4) refl assms(5)]])

lemma refused_downloads:
  assumes "usual cfg" "p = 47 # q" "answer ms (request_for cfg p) = template c b" "c = 404 \<or> c = 500 \<and> max_retries cfg = 0"
  shows "downloads oc ms sha cfg dir port p i is_failure"
  unfolding downloads_def
  by (auto simp: is_failure_def intro!: runs_to_mono [OF refused_by_status [OF assms(1,2) _ assms(3,4)]])

lemma two_entries:
  assumes "p \<noteq> p'"
  shows "dedup [server_url port p, server_url port p'] = [(server_url port p, 0 # []), (server_url port p', 1 # [])]"
    "dedup [server_url port p, server_url port p', server_url port p] = [(server_url port p, 0 # [2]), (server_url port p', 1 # [])]"
  using assms by (simp_all add: dedup_def numeral_2_eq_2)

lemma different_paths:
  "lit ''/a.jpg'' \<noteq> lit ''/b.jpg''" "lit ''/slow.jpg'' \<noteq> lit ''/fast.jpg''" "lit ''/good.jpg'' \<noteq> lit ''/bad.jpg''"
  by simp_all

lemma paths_of_files: "lit ''/a.jpg'' = 47 # lit ''a.jpg''" "lit ''/b.jpg'' = 47 # lit ''b.jpg''" "lit ''/bad.jpg'' = 47 # lit ''bad.jpg''"
  by simp_all

lemma two_image_replies:
  "image_reply (answer two_images (request_for cfg (lit ''/a.jpg'')))"
  "image_reply (answer two_images (request_for cfg (lit ''/b.jpg'')))"
  using different_paths(1) by (simp_all add: two_images_def image_replies del: lit_simps)

lemma multiple_test_passes: "downloads_multiple_urls oc sha port"
  unfolding downloads_multiple_urls_def
  by (intro batch_test_runs two_downloads [OF usual_default(1) two_entries(1) _ _ image_downloads [OF image_files(3)]
        image_downloads [OF image_files(4)]] two_image_replies different_paths) (use different_paths in \<open>simp_all del: lit_simps\<close>)

lemma str_contains_append: "str_contains (s @ t) t"
proof (induction s)
  case Nil
  then show ?case by (cases t) simp_all
qed simp

lemma server_url_contains: "p = 47 # q \<Longrightarrow> str_contains (server_url port p) q"
  using str_contains_append [of "lit ''http://127.0.0.1:'' @ show_nat (unat port) @ [47]" q]
  by (simp add: server_url_def del: lit_simps)

lemma urls_contain:
  "str_contains (server_url port (lit ''/slow.jpg'')) (lit ''slow.jpg'')"
  "str_contains (server_url port (lit ''/fast.jpg'')) (lit ''fast.jpg'')"
  by (rule server_url_contains; simp)+

lemma order_test_passes: "returns_results_in_input_order oc sha port"
  unfolding returns_results_in_input_order_def
  by (intro batch_test_runs two_downloads [OF usual_default(1) two_entries(1) _ _ image_downloads [OF image_files(5)]
        image_downloads [OF image_files(6)]] different_paths)
    (use different_paths urls_contain in \<open>simp_all add: image_replies del: lit_simps\<close>)

lemma isolation_test_passes: "isolates_errors oc sha port"
  unfolding isolates_errors_def
  by (intro batch_test_runs two_downloads [OF usual_default(1) two_entries(1) _ _ image_downloads [OF image_files(8)]
        refused_downloads [where c = 404, OF usual_default(1) paths_of_files(3)]] different_paths)
    (use different_paths in \<open>simp_all add: image_replies del: lit_simps\<close>)

lemma failing_test_passes: "handles_all_failing oc sha port"
  unfolding handles_all_failing_def
  by (intro batch_test_runs two_downloads [OF usual_default(2) two_entries(1) _ _
        refused_downloads [where c = 500, OF usual_default(2) paths_of_files(1)] refused_downloads [where c = 500, OF usual_default(2) paths_of_files(2)]]
      different_paths)
    (use different_paths in \<open>simp_all del: lit_simps\<close>)

lemma file_name_join: "ch_slash \<notin> set n \<Longrightarrow> n \<noteq> [] \<Longrightarrow> file_name (path_join tmp_dir n) = n"
proof -
  assume n: "ch_slash \<notin> set n" "n \<noteq> []"
  have "takeWhile (\<lambda>c. c \<noteq> 47) (rev n @ 47 # s) = rev n" for s
    using n(1) by (induction n rule: rev_induct) auto
  moreover have "hd n \<noteq> ch_slash" using n by (metis hd_in_set)
  ultimately show ?thesis using n(2) by (simp add: file_name_def path_join_def tmp_dir_def)
qed

lemma indexed_names:
  assumes "ch_slash \<notin> set e"
  shows "prefix (lit ''000'') (file_name (path_join tmp_dir (show_nat_pad3 0 @ ch_dot # e)))"
    "prefix (lit ''001'') (file_name (path_join tmp_dir (show_nat_pad3 1 @ ch_dot # e)))"
proof -
  have "show_nat_pad3 0 = lit ''000''" "show_nat_pad3 1 = lit ''001''"
    by (simp_all add: show_nat_pad3_def show_nat.simps numeral_2_eq_2)
  with assms show "prefix (lit ''000'') (file_name (path_join tmp_dir (show_nat_pad3 0 @ ch_dot # e)))"
    "prefix (lit ''001'') (file_name (path_join tmp_dir (show_nat_pad3 1 @ ch_dot # e)))"
    by (simp_all only:) (subst file_name_join; simp)+
qed

lemma sequential_test_passes: "dedup_sequential_naming_uses_first_index oc sha port"
  unfolding dedup_sequential_naming_uses_first_index_def
  by (intro batch_test_runs two_downloads [OF usual_default(3) two_entries(2) _ _
        indexed_downloads [OF usual_default(3) _ paths_of_files(1)] indexed_downloads [OF usual_default(3) _ paths_of_files(2)]]
      two_image_replies different_paths)
    (use different_paths in \<open>auto simp: indexed_names numeral_2_eq_2 simp del: lit_simps One_nat_def\<close>)

text \<open>A slow task that is dropped at the deadline.\<close>

lemma deadline_test_passes: "respects_batch_timeout oc sha port"
proof -
  define cfg where "cfg = config_default\<lparr>batch_timeout := Some (from_millis 200), max_retries := 0\<rparr>"
  define ms where "ms = [(at_path (lit ''/slow.jpg''), set_delay (from_secs 5) (template 200 (lit ''slow'')))]"
  define u where "u = server_url port (lit ''/slow.jpg'')"
  have path: "lit ''/slow.jpg'' = 47 # lit ''slow.jpg''" by simp
  have limit: "request_timeout cfg = from_secs 30" by (simp add: cfg_def config_default_def)
  have answer: "answer ms (request_for cfg (lit ''/slow.jpg'')) = set_delay (from_secs 5) (template 200 (lit ''slow''))"
    by (simp add: ms_def)
  have ok: "reachable_server port (with_dir tmp_dir (fresh cfg))"
    by (simp add: fresh_reachable cfg_def config_default_def)
  have "answered cfg ms (lit ''/slow.jpg'') (set_delay (from_secs 5) (template 200 (lit ''slow'')))"
    using answer by (simp add: answered_def is_redirect_def limit del: lit_simps)
  moreover have "generate_filename oc sha u 0 bs UrlBased = Val (lit ''slow.jpg'')" for bs
    unfolding u_def by (rule url_based_file [OF path]) (simp_all add: is_ascii_alphanumeric_def)
  moreover have "naming_strategy cfg = UrlBased" "\<not> config.write_metadata cfg"
    by (simp_all add: cfg_def config_default_def naming_strategy_default_def)
  ultimately obtain res w' where run: "download_mock oc ms sha cfg tmp_dir u 0 (with_dir tmp_dir (fresh cfg)) = (Val res, w')"
    and w': "server_of w' = saved_state cfg ms (lit ''/slow.jpg'') (path_join tmp_dir (lit ''slow.jpg'')) (as_bytes (lit ''slow''))
      (server_of (with_dir tmp_dir (fresh cfg)))"
    using download_saved [OF ok _ _ path, where r = "set_delay (from_secs 5) (template 200 (lit ''slow''))" and i = 0
        and name = "lit ''slow.jpg''" and oc = oc and sha = sha and dir = tmp_dir and ms = ms and cfg = cfg]
    by (fastforce simp: runs_to_def u_def as_bytes_def utf8_char_def)
  have late: "clock_of w' = 5001000000"
  proof -
    have "clock_of w' = ss_clock (server_of w')" by (simp add: clock_of_def server_of_def split: prod.split)
    then show ?thesis by (simp add: w' saved_state_def served_once_def serve_def answer Let_def del: lit_simps)
  qed
  obtain pools dc st where parts: "w' = (pools, dc, st)" by (cases w')
  have start: "with_dir tmp_dir (fresh cfg) =
      (Map.empty, dns_new (dns_cache_ttl cfg), \<lparr>ss_clock = 0, ss_received = [], ss_files = Map.empty, ss_dirs = [tmp_dir]\<rparr>)"
    by (simp add: with_dir_def fresh_def downloader_state_def started_def)
  note run' = run [unfolded start download_mock_def parts]
  have nanos: "dur_nanos (from_millis 200) = 200000000" by simp
  have timeout: "batch_timeout cfg = Some (from_millis 200)" "write_summary cfg = False"
    by (simp_all add: cfg_def config_default_def)
  have "\<exists>el. batch_run oc ms sha cfg [u] tmp_dir (fresh cfg) =
     (Val [\<lparr>url = u, outcome = Failure Timeout el 0\<rparr>], (pools, dc, st\<lparr>ss_clock := 200000000\<rparr>))"
    using late parts run'
    by (simp add: batch_run_def download_batch_def run_batch_def batch_deadline_def and_then_def Let_def timeout nanos instant_add_def
        instant_limit_def dedup_def batch_tasks_def join_in_turn.simps(2) fresh_def downloader_state_def
        started_def set_clock_def elapsed_since_def missing_error_def save_summary_def usize_sub_def is_success_def)
  then show ?thesis
    unfolding respects_batch_timeout_def cfg_def [symmetric] ms_def [symmetric] u_def [symmetric]
    by (auto simp: batch_test_def server_of_def)
qed

text \<open>Two batches of one downloader.\<close>

lemma one_image_batch:
  assumes "image_file p q" "reachable_server port w" "image_reply (answer ms (request_for config_default p))"
  shows "runs_to (batch_run oc ms sha config_default [server_url port p] dir) w (\<lambda>rs w'.
     (\<exists>dr. rs = [dr] \<and> is_success dr) \<and> reachable_server port w' \<and>
     ss_received (server_of w') = ss_received (server_of w) @ [request_for config_default p])"
  by (rule one_image [OF _ _ assms(1) _ refl assms(3)])
    (use assms(2) in \<open>auto simp: dedup_def is_success_def saved_state_def served_once_def serve_def Let_def\<close>)

lemma reuse_test_passes: "connection_reuse_across_batches oc sha port"
proof -
  define ms where "ms = [(at_path (lit ''/reuse.jpg''), template 200 (lit ''reuse''))]"
  let ?batch = "batch_run oc ms sha config_default [server_url port (lit ''/reuse.jpg'')] tmp_dir"
  have reply: "image_reply (answer ms (request_for config_default (lit ''/reuse.jpg'')))"
    by (simp add: ms_def image_replies del: lit_simps)
  have "runs_to (and_then ?batch (\<lambda>r1. and_then ?batch (\<lambda>r2. ret (r1, r2)))) (fresh config_default)
     (\<lambda>(r1, r2) w. is_success (r1 ! 0) \<and> is_success (r2 ! 0) \<and>
        length (filter (at_path (lit ''/reuse.jpg'')) (ss_received (server_of w))) = 2)"
    by (intro runs_to_bind runs_to_mono [OF one_image_batch [OF image_files(9) _ reply]])
      (auto intro!: runs_to_bind runs_to_mono [OF one_image_batch [OF image_files(9) _ reply]] simp del: lit_simps)
  then show ?thesis
    unfolding connection_reuse_across_batches_def Let_def ms_def [symmetric] by (auto simp: runs_to_def)
qed

text \<open>URLs that are none: one has no scheme and a host that does not resolve, the other does not parse.\<close>

lemma bad_url_fails:
  "\<exists>e el. download_mock oc ms sha cfg dir (lit ''://bad'') i w = (Val (lit ''://bad'', \<lparr>url = lit ''://bad'', outcome = Failure e el 0\<rparr>), w)"
proof -
  obtain pools dc st where w: "w = (pools, dc, st)" by (cases w)
  have "parse_uri (lit ''://bad'') = Inl (lit ''invalid uri'')" by (simp add: parse_uri_def)
  then have "request_target mock_uri (lit ''://bad'') = Inl (ConnectionFailed (lit ''invalid URL: '' @ lit ''invalid uri''))"
    by (simp add: request_target_def del: lit_simps)
  then show ?thesis
    by (simp add: w download_mock_def download_one_def and_then_def download_failed_def elapsed_since_def del: lit_simps)
qed

lemma unknown_host_fails:
  assumes "u = lit ''not-a-url''" "w = (Map.empty, dns_new (from_secs 300), st)" "ss_clock st < 10 ^ 12"
  shows "\<exists>e el w'. download_mock oc ms sha cfg dir u i w = (Val (u, \<lparr>url = u, outcome = Failure e el 0\<rparr>), w')"
proof -
  have target: "request_target mock_uri u = Inr ((None, Some u, None, None), u, 443)"
    by (simp add: assms(1) request_target_def parse_uri_def port_or_default_def)
  have unknown: "\<not> prefix (lit ''127.0.0.1:'') (host_port (u, 443))" by (simp add: host_port_def assms(1))
  have "ss_clock st + 30000000000 < instant_limit" using assms(3) by (simp add: instant_limit_def)
  then have "\<exists>dc'. resolve mock_dns u 443 (dns_new (from_secs 300), st) = (Val (Inl (DnsResolutionFailed (lit ''NXDOMAIN''))), (dc', st))"
    using unknown
    by (simp add: resolve_def resolve_miss_def cache_insert_def read_clock_def mock_dns_def on_env_def and_then_def
        dns_new_def instant_add_def del: lit_simps)
  then obtain dc' where "resolve mock_dns u 443 (dns_new (from_secs 300), st) = (Val (Inl (DnsResolutionFailed (lit ''NXDOMAIN''))), (dc', st))"
    by blast
  then have opened: "open_connection (mock_pool cfg) u 443 (pools, dns_new (from_secs 300), st) =
      (Val (Inl (DnsResolutionFailed (lit ''NXDOMAIN''))), (pools, dc', st))" for pools
    by (simp add: mock_pool_def connected_env_def on_env_def open_connection_inner_def try_then_def and_then_def del: lit_simps)
  have attempts: "max_acquire_attempts = Suc 31" by (simp add: max_acquire_attempts_def)
  have "\<exists>w'. acquire_loop oc (mock_pool cfg) cfg (u, 443) (Suc n) w = (Val (Inl (DnsResolutionFailed (lit ''NXDOMAIN''))), w')" for n
    by (simp add: assms(2) determine_action_def on_entry_def and_then_def open_and_insert_def opened fail_opened_def dec_opening_def
        new_host_pool_def usize_sub_def del: lit_simps)
  then obtain pools2 dc2 st2 where acq: "acquire oc (mock_pool cfg) cfg u 443 w =
      (Val (Inl (DnsResolutionFailed (lit ''NXDOMAIN''))), (pools2, dc2, st2))"
    unfolding acquire_def attempts by (metis prod_cases3)
  then have "fetch oc (mock_env ms sha cfg) cfg 256 rc uri u 443 w = (Val (Inl (DnsResolutionFailed (lit ''NXDOMAIN''))), (pools2, dc2, st2))" for rc uri
    by (simp add: fetch_def try_then_def and_then_def del: lit_simps)
  then show ?thesis
    by (simp add: assms(2) download_mock_def download_one_def and_then_def target with_permits_def obtain_response_def with_retry_def
        with_retry_from.simps accept_result_def download_failed_def elapsed_since_def Let_def del: lit_simps)
qed

lemma invalid_test_passes: "handles_invalid_urls oc sha"
  unfolding handles_invalid_urls_def
proof (rule batch_test_runs, rule two_url_batch [OF usual_plain [OF usual_default(1)]])
  have differ: "lit ''://bad'' \<noteq> lit ''not-a-url''" by simp
  then show "dedup [lit ''not-a-url'', lit ''://bad''] = [(lit ''not-a-url'', 0 # []), (lit ''://bad'', 1 # [])]"
    "lit ''not-a-url'' \<noteq> lit ''://bad''"
    by (simp_all add: dedup_def del: lit_simps)
  have "\<exists>st. with_dir tmp_dir (fresh config_default) = (Map.empty, dns_new (from_secs 300), st) \<and> ss_clock st < 10 ^ 12"
    by (simp add: with_dir_def fresh_def downloader_state_def started_def config_default_def)
  then obtain e el w' where first: "download_mock oc [] sha config_default tmp_dir (lit ''not-a-url'') 0 (with_dir tmp_dir (fresh config_default)) =
      (Val (lit ''not-a-url'', \<lparr>url = lit ''not-a-url'', outcome = Failure e el 0\<rparr>), w')"
    using unknown_host_fails [OF refl] by blast
  obtain e' el' where second: "download_mock oc [] sha config_default tmp_dir (lit ''://bad'') 1 w' =
      (Val (lit ''://bad'', \<lparr>url = lit ''://bad'', outcome = Failure e' el' 0\<rparr>), w')"
    using bad_url_fails by blast
  show "runs_to (download_mock oc [] sha config_default tmp_dir (lit ''not-a-url'') 0) (with_dir tmp_dir (fresh config_default))
      (\<lambda>res w'. \<exists>dr. res = (lit ''not-a-url'', dr) \<and> runs_to (download_mock oc [] sha config_default tmp_dir (lit ''://bad'') 1) w'
         (\<lambda>res w''. \<exists>dr'. res = (lit ''://bad'', dr') \<and>
            length (map (\<lambda>x. if x = lit ''not-a-url'' then dr else dr') [lit ''not-a-url'', lit ''://bad'']) = 2 \<and>
            is_failure (map (\<lambda>x. if x = lit ''not-a-url'' then dr else dr') [lit ''not-a-url'', lit ''://bad''] ! 0) \<and>
            is_failure (map (\<lambda>x. if x = lit ''not-a-url'' then dr else dr') [lit ''not-a-url'', lit ''://bad''] ! 1)))"
    using first second differ by (simp add: runs_to_def is_failure_def del: lit_simps)
qed simp

end
