(* ===== verification/Spec2Isabelle.thy ===== *)
theory Spec2Isabelle
  imports Prelude Rust_Str Rust_Time Rust_F64 Types_Config Retry Naming Pool Pool_System Pool_Spec Output Dns Tls
    Connect Transport Download Batch Permits Batch_System Isolation Recovery Py_Bindings
    Unit_Tests Unit_Tests_Async Unit_Tests_Pool Unit_Tests_Py Mock_Server Unit_Tests_Transport
    Mock_Downloads Unit_Tests_Batch
begin

text \<open>
  A model of \<open>imgdl\<close>, a concurrent image downloader written in Rust: the crate \<open>imgdl-core\<close>
  (under \<open>src/crates/imgdl-core/src\<close>) and its Python bindings \<open>imgdl-py\<close> (under
  \<open>src/crates/imgdl-py/src\<close>).

  \<^bold>\<open>The program.\<close>  \<open>Downloader::download_batch\<close> takes a list of URLs.  It removes duplicates,
  starts one task per different URL, collects the results until all tasks have ended or the
  batch has timed out, and returns them in the order of the input, with an optional summary
  file.  A task (\<open>download_one\<close>) waits for a global and a per-host permit and then asks for
  the URL in a retry loop: acquire a connection from the pool, send the request and follow its
  redirects on the same host, give the connection back or remove it.  A redirect to another
  host is followed once, in a retry loop of its own.  The body is validated, named and
  written.  The pool opens connections through the DNS cache, TCP and TLS.

  \<^bold>\<open>The theories\<close>, from the bottom up.

  \<^item> \<open>Prelude\<close>: programs on a world (\<open>prog\<close>: a value, a panic or no end, and the new world),
    their composition and the collections for what keeps an invariant (\<open>keeps\<close>) and what ends
    (\<open>ends\<close>); counting in lists; step relations with reachable states and the locales
    \<open>invariant_system\<close> and, extending it, \<open>simulation\<close>.
  \<^item> \<open>Rust_Str\<close>, \<open>Rust_Time\<close>, \<open>Rust_F64\<close>: what the code uses of the standard library: strings as
    lists of characters with \<open>split\<close>, \<open>rfind\<close>, slices and number formats; \<open>Duration\<close> and \<open>Instant\<close>
    with their panics; IEEE doubles with rounding.
  \<^item> \<open>Types_Config\<close> (\<open>types.rs\<close>, \<open>config.rs\<close>): errors, results, the configuration.
  \<^item> \<open>Retry\<close> (\<open>retry.rs\<close>): \<open>with_retry\<close>, \<open>compute_backoff\<close>, \<open>is_retryable\<close>; the locale
    \<open>retried_operation\<close> for the operations that are retried, interpreted in \<open>Download\<close>.
  \<^item> \<open>Naming\<close>, \<open>Output\<close> (\<open>output/\<close>): the four naming strategies; validation, image file,
    metadata sidecar and batch summary.
  \<^item> \<open>Pool\<close> (\<open>pool.rs\<close>, and \<open>finish_connection\<close> of \<open>orchestrator.rs\<close>): a function per method of
    the pool and per critical section; \<open>Pool_System\<close>: the tasks that share a host's pool as a
    step relation, one critical section a step, with tasks dropped at any await; \<open>Pool_Spec\<close>: what
    the pool promises, connection slots per host with their moves, and the simulation that the
    pool implements it.
  \<^item> \<open>Dns\<close> (\<open>dns.rs\<close>), \<open>Tls\<close> (\<open>tls.rs\<close>) and \<open>Connect\<close> (\<open>open_connection_inner\<close> of \<open>pool.rs\<close>): the DNS
    cache, the TLS configuration, and opening a connection with both, with the settings of its
    HTTP/2 builder.
  \<^item> \<open>Transport\<close> (\<open>transport.rs\<close>): requests, the redirect loop, classification of responses.
  \<^item> \<open>Download\<close>, \<open>Batch\<close> (\<open>orchestrator.rs\<close>): \<open>download_one\<close> and \<open>download_batch_inner\<close>, composed
    from the components above; \<open>Permits\<close>: the semaphores of a batch as a step relation;
    \<open>Batch_System\<close>: permits and pool composed, where a task is in the pool only while it holds
    its permits, and dropping it acts on both; \<open>Isolation\<close>: which connections a
    download uses; \<open>Recovery\<close>: when it succeeds.
  \<^item> \<open>Py_Bindings\<close> (\<open>imgdl-py\<close>): the Python configuration and results, the process-wide runtime and
    downloaders, the two functions of the module.
  \<^item> \<open>Unit_Tests\<close> (\<open>naming.rs\<close>, \<open>types.rs\<close>, \<open>config.rs\<close>, \<open>validation.rs\<close>), \<open>Unit_Tests_Async\<close> (\<open>retry.rs\<close>,
    \<open>writer.rs\<close>, \<open>metadata.rs\<close>, \<open>summary.rs\<close>, \<open>dns.rs\<close>), \<open>Unit_Tests_Pool\<close>, \<open>Unit_Tests_Py\<close>,
    \<open>Unit_Tests_Transport\<close> and \<open>Unit_Tests_Batch\<close> (\<open>orchestrator.rs\<close>): the tests in the modules of the
    crates as definitions of the same names, with lemmas that they pass on the model;
    \<open>Mock_Server\<close>, \<open>Mock_Downloads\<close>: the server, the resolver, the files and the clock of those
    that use the network, and what a download and a batch do there.

  \<^bold>\<open>State.\<close>  A record stands for each struct (\<open>host_pool\<close>, \<open>dns_cache\<close>, \<open>config\<close>, ...), a datatype for
  each enum.  \<open>ConnectionPool::host_pools\<close> is a map that operations take and return as the first
  part of the world; the second part belongs to the environment, or to the DNS cache.
  Integers that can overflow have their width; \<open>usize\<close> is a natural number whose operations
  (\<open>usize_sub\<close>, ...) take a flag \<open>oc\<close>: with overflow checks they panic, without they wrap.  A
  result with \<open>?\<close> is a sum, with the error on the left.

  \<^bold>\<open>What the lemmas show.\<close>  Batches: one result per URL, in order, each the result of a run of its
  download; deduplication equals its specification.  Downloads: a success has the complete
  body, written under the generated name, and after transient failures, as many as the retries
  allow, there is a success; under Sequential names no two of a batch have
  the same path; a batch ends, and a download keeps the pools' invariant.  Isolation: a
  connection that is handed out was opened for its host and port, and what the connections to
  other hosts do has no influence on a request.
  Permits: both limits hold in every interleaving, and there is no deadlock if they are
  positive.  Pool: the connection limit, exclusive use of HTTP/1.1 connections, no leaks and no
  panics as invariants, refinement of the slot specification; the two reachable states in which a
  host is blocked.  Permits and pool together: what a batch leaves to the next one.  Retry: which
  call's result is returned, after which delays; bounds of the delays.  Transport: the loop with
  its counter is the unlimited chain of redirects cut at the limit.  Naming: safe and short
  names; truncation on byte offsets refines truncation on characters.  Python: conversions of
  configurations and results.  Where the code misbehaves, a theorem shows that too.

  \<^bold>\<open>Bounds and fuel.\<close>  Two loops of the code have no structural bound.  The redirect loop takes
  fuel: \<open>redirects_bounded\<close> shows that \<open>max_redirects + 1\<close> rounds are enough, so 256 always are,
  except without overflow checks for the limit 255, where \<open>redirects_never_end\<close> shows that no
  fuel is.  The retry loop recurses on the retries that are left, \<open>acquire\<close> on its 32 attempts.
  The step relations have no bound on tasks or steps.

  \<^bold>\<open>Parameters.\<close>  Code that is not in the repository is an argument: \<open>hyper\<close> and \<open>http\<close>
  (\<open>http_ops\<close>, \<open>uri_ops\<close>, \<open>header_ops\<close>), sockets, TLS and handshakes (\<open>net_ops\<close>), the resolver
  (\<open>dns_env\<close>), the configuration builder of \<open>rustls\<close> (\<open>rustls_ops\<close>), files (\<open>fs_ops\<close>), clocks and sleeping (\<open>retry_env\<close>, \<open>de_now\<close>), SHA-256, the JSON
  encoder, \<open>JoinSet\<close> (\<open>join_set\<close>), the builder of the \<open>tokio\<close> runtime.  What is relied on is a
  named hypothesis: \<open>timeout_lawful\<close> (a timeout returns what the program returned, or
  nothing), \<open>join_lawful\<close> (each task is joined at most once, and all of them without a deadline),
  \<open>env_ok\<close> and \<open>download_env_ok\<close> (what other tasks do meanwhile keeps the invariant),
  \<open>download_env_ends\<close> (its operations return), \<open>join_ends\<close> (the join set returns if its tasks do),
  \<open>adaptive_overrides\<close> (the adaptive window of \<open>hyper\<close> overrides the initial one).

  \<^bold>\<open>Not modelled.\<close>  Log lines, spans and \<open>Debug\<close> output; the limit on the number of permits in \<open>Semaphore::new\<close> (tokio);
  \<open>Drop\<close> of sockets; the derived serialisers; the registration of the Python module, the build
  script and the generator of type stubs; the tests of derived traits, of the serialised form
  and of concurrency in time, and the integration tests.
\<close>

end
